(* ===== verification/PcPrelude.thy ===== *)
theory PcPrelude
  imports Main "HOL-Library.Word" "HOL-Library.Sublist" "HOL-Library.Product_Lexorder"
begin

section \<open>Shared types, machine integers and text operations\<close>

text \<open>
  What every component of the development uses: result values, clocks and durations, the
  saturating integer operations of the Rust standard library, and the string operations of
  \<open>str\<close> that the sources call.

  A Rust \<open>str\<close> or \<open>[u8]\<close> is a list of bytes; an Isabelle \<open>char\<close> is exactly an 8-bit value,
  so both are \<open>char list\<close> here (\<open>string\<close>). A literal such as \<open>''abc''\<close> is its UTF-8 encoding
  and \<open>length\<close> is Rust's \<open>len()\<close>, which counts bytes. \<open>Result<T, E>\<close> is \<open>'e + 't\<close>.
\<close>

type_synonym bytes = "char list"

abbreviation Err :: "'e \<Rightarrow> 'e + 'a" where
  "Err \<equiv> Inl"

abbreviation Ok :: "'a \<Rightarrow> 'e + 'a" where
  "Ok \<equiv> Inr"

fun and_then :: "'e + 'a \<Rightarrow> ('a \<Rightarrow> 'e + 'b) \<Rightarrow> 'e + 'b" where
  "and_then (Inl e) f = Inl e"
| "and_then (Inr x) f = f x"

fun is_ok :: "'e + 'a \<Rightarrow> bool" where
  "is_ok (Inl e) = False"
| "is_ok (Inr x) = True"

lemma and_then_Ok_iff: "and_then r f = Inr y \<longleftrightarrow> (\<exists>x. r = Inr x \<and> f x = Inr y)"
  by (cases r) auto

lemma is_ok_iff: "is_ok r \<longleftrightarrow> (\<exists>x. r = Inr x)"
  by (cases r) auto

text \<open>
  The process environment: \<open>std::env::var(name)\<close> is \<open>Some v\<close> for \<open>Ok(v)\<close> and \<open>None\<close> when the
  variable is unset or is not valid UTF-8 (\<open>Err\<close>).
\<close>

type_synonym environment = "string \<Rightarrow> string option"

subsection \<open>Clocks and durations\<close>

text \<open>
  \<open>Instant\<close> and \<open>Duration\<close> are nanosecond counts. \<open>Instant::duration_since\<close> and \<open>elapsed\<close>
  saturate at zero, which is subtraction on \<open>nat\<close>.
\<close>

type_synonym instant = nat
type_synonym duration = nat

definition from_millis :: "nat \<Rightarrow> duration" where
  "from_millis n = n * 1000000"

definition from_secs :: "nat \<Rightarrow> duration" where
  "from_secs n = n * 1000000000"

definition as_millis :: "duration \<Rightarrow> nat" where
  "as_millis d = d div 1000000"

definition as_secs :: "duration \<Rightarrow> nat" where
  "as_secs d = d div 1000000000"

definition duration_max :: duration where
  "duration_max = (2 ^ 64 - 1) * 1000000000 + 999999999"

definition since :: "instant \<Rightarrow> instant \<Rightarrow> duration" where
  "since now t = now - t"

lemma as_millis_from_millis [simp]: "as_millis (from_millis n) = n"
  by (simp add: as_millis_def from_millis_def)

lemma from_millis_mono: "m \<le> n \<Longrightarrow> from_millis m \<le> from_millis n"
  by (simp add: from_millis_def)

lemma from_millis_zero_iff [simp]: "from_millis n = 0 \<longleftrightarrow> n = 0"
  by (simp add: from_millis_def)

subsection \<open>Fixed-width integers\<close>

definition i64_min :: int where
  "i64_min = - (2 ^ 63)"

definition i64_max :: int where
  "i64_max = 2 ^ 63 - 1"

definition u16_max :: nat where
  "u16_max = 2 ^ 16 - 1"

definition u32_max :: nat where
  "u32_max = 2 ^ 32 - 1"

definition u64_max :: nat where
  "u64_max = 2 ^ 64 - 1"

lemmas width_defs = i64_min_def i64_max_def u16_max_def u32_max_def u64_max_def

text \<open>\<open>i64::saturating_mul\<close>, \<open>u32::saturating_mul\<close>, \<open>u64::saturating_add\<close> and
  \<open>Duration::saturating_mul\<close>.\<close>

definition sat_i64 :: "int \<Rightarrow> int" where
  "sat_i64 x = max i64_min (min i64_max x)"

definition sat_mul_i64 :: "int \<Rightarrow> int \<Rightarrow> int" where
  "sat_mul_i64 a b = sat_i64 (a * b)"

definition sat_mul_u32 :: "nat \<Rightarrow> nat \<Rightarrow> nat" where
  "sat_mul_u32 a b = min u32_max (a * b)"

definition sat_mul_u64 :: "nat \<Rightarrow> nat \<Rightarrow> nat" where
  "sat_mul_u64 a b = min u64_max (a * b)"

definition sat_add_u64 :: "nat \<Rightarrow> nat \<Rightarrow> nat" where
  "sat_add_u64 a b = min u64_max (a + b)"

definition sat_mul_duration :: "duration \<Rightarrow> nat \<Rightarrow> duration" where
  "sat_mul_duration d n = min duration_max (d * n)"

text \<open>\<open>i64::try_from\<close> of an unsigned value and \<open>u64::try_from\<close> of a signed one.\<close>

definition i64_try_from :: "nat \<Rightarrow> int option" where
  "i64_try_from n = (if int n \<le> i64_max then Some (int n) else None)"

definition u64_try_from :: "int \<Rightarrow> nat option" where
  "u64_try_from i = (if 0 \<le> i \<and> i \<le> int u64_max then Some (nat i) else None)"

definition unwrap_or :: "'a option \<Rightarrow> 'a \<Rightarrow> 'a" where
  "unwrap_or o' d = (case o' of None \<Rightarrow> d | Some x \<Rightarrow> x)"

lemma unwrap_or_simps [simp]: "unwrap_or None d = d" "unwrap_or (Some x) d = x"
  by (simp_all add: unwrap_or_def)

subsection \<open>Decimal text\<close>

definition digit_val :: "char \<Rightarrow> nat" where
  "digit_val c = (of_char c :: nat) - 48"

definition is_digit :: "char \<Rightarrow> bool" where
  "is_digit c \<longleftrightarrow> 48 \<le> (of_char c :: nat) \<and> (of_char c :: nat) \<le> 57"

definition digit_char :: "nat \<Rightarrow> char" where
  "digit_char d = char_of (48 + d)"

lemma digit_char_val [simp]: "d < 10 \<Longrightarrow> digit_val (digit_char d) = d"
  by (simp add: digit_val_def digit_char_def)

lemma is_digit_digit_char [simp]: "d < 10 \<Longrightarrow> is_digit (digit_char d)"
  by (simp add: is_digit_def digit_char_def)

fun dec_value :: "nat \<Rightarrow> string \<Rightarrow> nat" where
  "dec_value acc [] = acc"
| "dec_value acc (c # cs) = dec_value (10 * acc + digit_val c) cs"

definition read_dec :: "string \<Rightarrow> nat option" where
  "read_dec s = (if s \<noteq> [] \<and> list_all is_digit s then Some (dec_value 0 s) else None)"

text \<open>Rust's \<open>str::parse\<close>: an optional leading \<open>+\<close> (and \<open>-\<close> for a signed type), at least one
  digit, nothing else, and a value within the type's range.\<close>

definition parse_uint :: "nat \<Rightarrow> string \<Rightarrow> nat option" where
  "parse_uint hi s =
     (let t = (case s of c # cs \<Rightarrow> if c = CHR ''+'' then cs else s | [] \<Rightarrow> [])
      in case read_dec t of
           Some n \<Rightarrow> if n \<le> hi then Some n else None
         | None \<Rightarrow> None)"

definition parse_i64 :: "string \<Rightarrow> int option" where
  "parse_i64 s =
     (case s of
        [] \<Rightarrow> None
      | c # cs \<Rightarrow>
          if c = CHR ''-'' then
            (case read_dec cs of
               Some n \<Rightarrow> if - int n \<ge> i64_min then Some (- int n) else None
             | None \<Rightarrow> None)
          else
            (case read_dec (if c = CHR ''+'' then cs else s) of
               Some n \<Rightarrow> if int n \<le> i64_max then Some (int n) else None
             | None \<Rightarrow> None))"

lemma parse_uint_bound: "parse_uint hi s = Some n \<Longrightarrow> n \<le> hi"
  by (auto simp: parse_uint_def Let_def split: option.splits if_splits)

lemma parse_i64_bounds: "parse_i64 s = Some i \<Longrightarrow> i64_min \<le> i \<and> i \<le> i64_max"
  by (auto simp: parse_i64_def i64_max_def i64_min_def
      split: list.splits option.splits if_splits)

text \<open>\<open>to_string\<close> of an unsigned and of a signed integer.\<close>

fun show_nat :: "nat \<Rightarrow> string" where
  "show_nat n = (if n < 10 then [digit_char n] else show_nat (n div 10) @ [digit_char (n mod 10)])"

declare show_nat.simps [simp del]

definition show_int :: "int \<Rightarrow> string" where
  "show_int i = (if i < 0 then CHR ''-'' # show_nat (nat (- i)) else show_nat (nat i))"

lemma show_nat_nonempty [simp]: "show_nat n \<noteq> []"
  by (subst show_nat.simps) simp

lemma show_nat_digits: "list_all is_digit (show_nat n)"
proof (induction n rule: show_nat.induct)
  case (1 n)
  then show ?case by (subst show_nat.simps) simp
qed

lemma dec_value_append: "dec_value a (s @ t) = dec_value (dec_value a s) t"
  by (induction s arbitrary: a) auto

lemma dec_value_show_nat: "dec_value 0 (show_nat n) = n"
proof (induction n rule: show_nat.induct)
  case (1 n)
  then show ?case by (subst show_nat.simps) (simp add: dec_value_append)
qed

lemma read_dec_show_nat [simp]: "read_dec (show_nat n) = Some n"
  by (simp add: read_dec_def show_nat_digits dec_value_show_nat)

lemma digit_not_sign: "is_digit c \<Longrightarrow> c \<noteq> CHR ''+'' \<and> c \<noteq> CHR ''-'' \<and> c \<noteq> CHR '':''"
  by (auto simp: is_digit_def)

lemma digits_without: "list_all is_digit s \<Longrightarrow> \<not> is_digit c \<Longrightarrow> c \<notin> set s"
  by (auto simp: list_all_iff)

lemma parse_uint_show_nat [simp]: "n \<le> hi \<Longrightarrow> parse_uint hi (show_nat n) = Some n"
proof -
  assume "n \<le> hi"
  obtain c cs where s: "show_nat n = c # cs"
    by (cases "show_nat n") auto
  with show_nat_digits [of n] have "c \<noteq> CHR ''+''"
    using digit_not_sign by auto
  with s \<open>n \<le> hi\<close> read_dec_show_nat [of n] show ?thesis
    by (simp add: parse_uint_def)
qed

lemma parse_i64_show_int:
  "i64_min \<le> i \<Longrightarrow> i \<le> i64_max \<Longrightarrow> parse_i64 (show_int i) = Some i"
proof (cases "i < 0")
  case False
  then obtain c cs where s: "show_nat (nat i) = c # cs" "c \<noteq> CHR ''-''" "c \<noteq> CHR ''+''"
    using show_nat_digits [of "nat i"] digit_not_sign
    by (cases "show_nat (nat i)") (auto dest: digit_not_sign)
  have "read_dec (c # cs) = Some (nat i)"
    using read_dec_show_nat [of "nat i"] by (simp add: s)
  moreover assume "i \<le> i64_max"
  ultimately show ?thesis
    using False s by (simp add: parse_i64_def show_int_def)
qed (simp add: parse_i64_def show_int_def)

end
