(* ===== verification/PcText.thy ===== *)
theory PcText
  imports PcPrelude
begin

section \<open>Operations of Rust's \<open>str\<close>\<close>

text \<open>
  The string operations the sources call, on UTF-8 byte lists: prefix and suffix stripping,
  splitting, trimming and ASCII case folding. \<open>trim\<close> removes the Unicode \<open>White_Space\<close>
  characters, whose encodings take one to three bytes; each is spelled out.
\<close>

subsection \<open>Prefixes, suffixes, splitting\<close>

definition starts_with :: "string \<Rightarrow> string \<Rightarrow> bool" where
  "starts_with s p \<longleftrightarrow> take (length p) s = p"

definition strip_prefix :: "string \<Rightarrow> string \<Rightarrow> string option" where
  "strip_prefix p s = (if starts_with s p then Some (drop (length p) s) else None)"

lemma starts_with_append [simp]: "starts_with (p @ s) p"
  by (simp add: starts_with_def)

lemma starts_with_iff: "starts_with s p \<longleftrightarrow> (\<exists>r. s = p @ r)"
proof
  assume "starts_with s p"
  then have "s = p @ drop (length p) s"
    using append_take_drop_id [of "length p" s] by (simp add: starts_with_def)
  then show "\<exists>r. s = p @ r" by blast
qed (auto simp: starts_with_def)

lemma strip_prefix_Some: "strip_prefix p s = Some r \<longleftrightarrow> s = p @ r"
  by (auto simp: strip_prefix_def starts_with_iff)

text \<open>\<open>s.split_once(p)\<close> splits at the first occurrence of \<open>p\<close>, \<open>rsplit_once\<close> at the last.\<close>

fun split_once :: "string \<Rightarrow> string \<Rightarrow> (string \<times> string) option" where
  "split_once p [] = (if p = [] then Some ([], []) else None)"
| "split_once p (c # cs) =
     (if starts_with (c # cs) p then Some ([], drop (length p) (c # cs))
      else map_option (\<lambda>(a, b). (c # a, b)) (split_once p cs))"

definition rsplit_once :: "string \<Rightarrow> string \<Rightarrow> (string \<times> string) option" where
  "rsplit_once p s =
     map_option (\<lambda>(b, a). (rev a, rev b)) (split_once (rev p) (rev s))"

text \<open>\<open>s.split(c)\<close> for a character: never empty, one more piece than separators.\<close>

fun split_on :: "char \<Rightarrow> string \<Rightarrow> string list" where
  "split_on c [] = [[]]"
| "split_on c (x # xs) =
     (if x = c then [] # split_on c xs
      else (case split_on c xs of [] \<Rightarrow> [[x]] | p # ps \<Rightarrow> (x # p) # ps))"

lemma split_once_Some: "split_once p s = Some (a, b) \<Longrightarrow> s = a @ p @ b"
proof (induction p s arbitrary: a b rule: split_once.induct)
  case (1 p)
  then show ?case by (auto split: if_splits)
next
  case (2 p c cs)
  show ?case
  proof (cases "starts_with (c # cs) p")
    case True
    with 2 show ?thesis by (auto simp: starts_with_iff)
  next
    case False
    with 2 show ?thesis by auto
  qed
qed

lemma rsplit_once_Some: "rsplit_once p s = Some (a, b) \<Longrightarrow> s = a @ p @ b"
proof -
  assume "rsplit_once p s = Some (a, b)"
  then have "split_once (rev p) (rev s) = Some (rev b, rev a)"
    by (auto simp: rsplit_once_def)
  then have "rev s = rev b @ rev p @ rev a" by (rule split_once_Some)
  then have "rev (rev s) = rev (rev b @ rev p @ rev a)" by simp
  then show ?thesis by simp
qed

lemma split_once_char_None: "split_once [c] s = None \<longleftrightarrow> c \<notin> set s"
  by (induction s) (auto simp: starts_with_def)

lemma split_once_char_hit: "c \<notin> set a \<Longrightarrow> split_once [c] (a @ c # b) = Some (a, b)"
  by (induction a) (auto simp: starts_with_def)

lemma rsplit_once_char_hit: "c \<notin> set b \<Longrightarrow> rsplit_once [c] (a @ c # b) = Some (a, b)"
  using split_once_char_hit [of c "rev b" "rev a"] by (simp add: rsplit_once_def)

lemma rsplit_once_char_None: "rsplit_once [c] s = None \<longleftrightarrow> c \<notin> set s"
  by (simp add: rsplit_once_def split_once_char_None)

lemma rsplit_once_char_last: "rsplit_once [c] s = Some (a, b) \<Longrightarrow> c \<notin> set b"
proof -
  have first: "split_once [c] s' = Some (a', b') \<Longrightarrow> c \<notin> set a'" for s' a' b'
    by (induction s' arbitrary: a') (auto simp: starts_with_def split: if_splits)
  assume "rsplit_once [c] s = Some (a, b)"
  then have "split_once [c] (rev s) = Some (rev b, rev a)"
    by (auto simp: rsplit_once_def)
  from first [OF this] show ?thesis by simp
qed

lemma split_on_nonempty [simp]: "split_on c s \<noteq> []"
  by (induction s) (auto split: list.splits)

lemma split_on_parts_free: "p \<in> set (split_on c s) \<Longrightarrow> c \<notin> set p"
proof (induction s arbitrary: p)
  case Nil
  then show ?case by simp
next
  case (Cons x xs)
  then show ?case
    by (cases "split_on c xs") (auto split: if_splits)
qed

subsection \<open>White space\<close>

text \<open>
  \<open>ws_width s\<close> is the number of bytes of the white-space character \<open>s\<close> starts with, 0 if it
  starts with none; \<open>ws_width_rev\<close> is the same for the last character of a reversed text.
  One byte: U+0009 to U+000D, U+0020. Two: U+0085, U+00A0. Three: U+1680, U+2000 to U+200A,
  U+2028, U+2029, U+202F, U+205F, U+3000.
\<close>

definition ws1 :: "nat \<Rightarrow> bool" where
  "ws1 a \<longleftrightarrow> a = 32 \<or> (9 \<le> a \<and> a \<le> 13)"

definition ws2 :: "nat \<Rightarrow> nat \<Rightarrow> bool" where
  "ws2 a b \<longleftrightarrow> a = 194 \<and> (b = 133 \<or> b = 160)"

definition ws3 :: "nat \<Rightarrow> nat \<Rightarrow> nat \<Rightarrow> bool" where
  "ws3 a b c \<longleftrightarrow>
     a = 225 \<and> b = 154 \<and> c = 128 \<or>
     a = 226 \<and> b = 128 \<and> ((128 \<le> c \<and> c \<le> 138) \<or> c = 168 \<or> c = 169 \<or> c = 175) \<or>
     a = 226 \<and> b = 129 \<and> c = 159 \<or>
     a = 227 \<and> b = 128 \<and> c = 128"

abbreviation code :: "char \<Rightarrow> nat" where
  "code c \<equiv> of_char c"

fun ws_width :: "string \<Rightarrow> nat" where
  "ws_width [] = 0"
| "ws_width (a # s) =
     (if ws1 (code a) then 1
      else (case s of
              [] \<Rightarrow> 0
            | b # t \<Rightarrow>
                if ws2 (code a) (code b) then 2
                else (case t of
                        [] \<Rightarrow> 0
                      | c # u \<Rightarrow> if ws3 (code a) (code b) (code c) then 3 else 0)))"

fun ws_width_rev :: "string \<Rightarrow> nat" where
  "ws_width_rev [] = 0"
| "ws_width_rev (a # s) =
     (if ws1 (code a) then 1
      else (case s of
              [] \<Rightarrow> 0
            | b # t \<Rightarrow>
                if ws2 (code b) (code a) then 2
                else (case t of
                        [] \<Rightarrow> 0
                      | c # u \<Rightarrow> if ws3 (code c) (code b) (code a) then 3 else 0)))"

lemma ws_width_le: "ws_width s \<le> length s"
  by (cases s rule: ws_width.cases) (auto split: list.splits)

lemma ws_width_rev_le: "ws_width_rev s \<le> length s"
  by (cases s rule: ws_width_rev.cases) (auto split: list.splits)

function trim_start :: "string \<Rightarrow> string" where
  "trim_start s = (if ws_width s = 0 then s else trim_start (drop (ws_width s) s))"
  by pat_completeness auto
termination
proof (relation "measure length")
  fix s :: string
  assume "ws_width s \<noteq> 0"
  then show "(drop (ws_width s) s, s) \<in> measure length"
    by (cases s) auto
qed simp

function trim_rev :: "string \<Rightarrow> string" where
  "trim_rev s = (if ws_width_rev s = 0 then s else trim_rev (drop (ws_width_rev s) s))"
  by pat_completeness auto
termination
proof (relation "measure length")
  fix s :: string
  assume "ws_width_rev s \<noteq> 0"
  then show "(drop (ws_width_rev s) s, s) \<in> measure length"
    by (cases s) auto
qed simp

declare trim_start.simps [simp del] trim_rev.simps [simp del]

definition trim_end :: "string \<Rightarrow> string" where
  "trim_end s = rev (trim_rev (rev s))"

definition trim :: "string \<Rightarrow> string" where
  "trim s = trim_end (trim_start s)"

lemma ws_width_trim_start [simp]: "ws_width (trim_start s) = 0"
proof (induction s rule: trim_start.induct)
  case (1 s)
  then show ?case by (subst trim_start.simps) simp
qed

lemma ws_width_rev_trim_rev [simp]: "ws_width_rev (trim_rev s) = 0"
proof (induction s rule: trim_rev.induct)
  case (1 s)
  then show ?case by (subst trim_rev.simps) simp
qed

lemma trim_start_id: "ws_width s = 0 \<Longrightarrow> trim_start s = s"
  by (subst trim_start.simps) simp

lemma trim_rev_id: "ws_width_rev s = 0 \<Longrightarrow> trim_rev s = s"
  by (subst trim_rev.simps) simp

lemma trim_start_suffix: "suffix (trim_start s) s"
proof (induction s rule: trim_start.induct)
  case (1 s)
  show ?case
  proof (cases "ws_width s = 0")
    case True
    then show ?thesis by (simp add: trim_start_id)
  next
    case False
    have "suffix (drop (ws_width s) s) s" by (rule suffix_drop)
    with 1 False show ?thesis
      by (subst trim_start.simps) (simp add: suffix_order.order_trans)
  qed
qed

lemma trim_rev_suffix: "suffix (trim_rev s) s"
proof (induction s rule: trim_rev.induct)
  case (1 s)
  show ?case
  proof (cases "ws_width_rev s = 0")
    case True
    then show ?thesis by (simp add: trim_rev_id)
  next
    case False
    have "suffix (drop (ws_width_rev s) s) s" by (rule suffix_drop)
    with 1 False show ?thesis
      by (subst trim_rev.simps) (simp add: suffix_order.order_trans)
  qed
qed

lemma trim_end_prefix: "prefix (trim_end s) s"
  using trim_rev_suffix [of "rev s"] by (simp add: trim_end_def suffix_to_prefix)

lemma trim_end_idem [simp]: "trim_end (trim_end s) = trim_end s"
  by (simp add: trim_end_def trim_rev_id)

lemma ws_width_app: "ws_width s \<noteq> 0 \<Longrightarrow> ws_width (s @ t) = ws_width s"
  by (cases s rule: ws_width.cases) (auto split: list.splits if_splits)

lemma ws_width_rev_app: "ws_width_rev s \<noteq> 0 \<Longrightarrow> ws_width_rev (s @ t) = ws_width_rev s"
  by (cases s rule: ws_width_rev.cases) (auto split: list.splits if_splits)

lemma trim_rev_app_vanished: "trim_rev s = [] \<Longrightarrow> trim_rev (s @ t) = trim_rev t"
proof (induction s rule: trim_rev.induct)
  case (1 s)
  show ?case
  proof (cases "ws_width_rev s = 0")
    case True
    with 1 show ?thesis by (simp add: trim_rev_id)
  next
    case False
    have "trim_rev (drop (ws_width_rev s) s) = []"
      using 1(2) False by (subst (asm) trim_rev.simps) simp
    with 1(1) False ws_width_rev_le [of s] show ?thesis
      by (subst trim_rev.simps) (simp add: ws_width_rev_app)
  qed
qed


lemma ws_bytes:
  "ws1 a \<Longrightarrow> a \<le> 32" "ws2 a b \<Longrightarrow> a = 194 \<and> 133 \<le> b \<and> b \<le> 160"
  "ws3 a b c \<Longrightarrow> 225 \<le> a \<and> a \<le> 227 \<and> 128 \<le> b \<and> b \<le> 154 \<and> 128 \<le> c \<and> c \<le> 175"
  by (auto simp: ws1_def ws2_def ws3_def)

text \<open>What stands before a code, or before an ASCII character, does not reach into what follows.\<close>

lemma ws_width_rev_stop:
  assumes "\<And>b. \<not> ws2 (code x) b" "\<And>b c. \<not> ws3 (code x) b c"
    and "\<And>y ys c. xs = y # ys \<Longrightarrow> \<not> ws3 (code y) (code x) c"
    and "ws_width_rev s = 0" "s \<noteq> []"
  shows "ws_width_rev (s @ x # xs) = 0"
proof -
  consider (1) a where "s = [a]" | (2) a b where "s = [a, b]" | (3) a b c t where "s = a # b # c # t"
    using assms(5) by (metis list.exhaust)
  then show ?thesis
  proof cases
    case (1 a)
    with assms show ?thesis by (auto split: list.splits if_splits)
  next
    case (2 a b)
    with assms show ?thesis by (auto split: list.splits if_splits)
  next
    case (3 a b c t)
    with assms show ?thesis by (auto split: list.splits if_splits)
  qed
qed

lemma ws_width_rev_stop_ascii:
  "code x < 128 \<Longrightarrow> ws_width_rev s = 0 \<Longrightarrow> s \<noteq> [] \<Longrightarrow> ws_width_rev (s @ x # xs) = 0"
  by (rule ws_width_rev_stop) (auto dest: ws_bytes)

lemma ws_width_rev_stop_code:
  assumes "ws_width u = length u" "u \<noteq> []" "ws_width_rev s = 0" "s \<noteq> []"
  shows "ws_width_rev (s @ rev u @ t) = 0"
proof -
  from assms(1,2) consider
    (1) a where "u = [a]" "ws1 (code a)"
  | (2) a b where "u = [a, b]" "ws2 (code a) (code b)"
  | (3) a b c where "u = [a, b, c]" "ws3 (code a) (code b) (code c)"
    by (cases u rule: ws_width.cases) (auto split: list.splits if_splits)
  then show ?thesis
  proof cases
    case (1 a)
    then show ?thesis using assms(3,4) ws_width_rev_stop_ascii [of a s t] by (auto dest: ws_bytes)
  next
    case (2 a b)
    have "ws_width_rev (s @ b # a # t) = 0"
      by (rule ws_width_rev_stop) (use 2 assms(3,4) in \<open>auto dest!: ws_bytes\<close>)
    with 2 show ?thesis by simp
  next
    case (3 a b c)
    have "ws_width_rev (s @ c # b # a # t) = 0"
      by (rule ws_width_rev_stop) (use 3 assms(3,4) in \<open>auto dest!: ws_bytes\<close>)
    with 3 show ?thesis by simp
  qed
qed

lemma trim_rev_app_stop:
  assumes "\<And>s. ws_width_rev s = 0 \<Longrightarrow> s \<noteq> [] \<Longrightarrow> ws_width_rev (s @ t) = 0"
  shows "trim_rev s \<noteq> [] \<Longrightarrow> trim_rev (s @ t) = trim_rev s @ t"
proof (induction s rule: trim_rev.induct)
  case (1 s)
  show ?case
  proof (cases "ws_width_rev s = 0")
    case True
    with 1 have "s \<noteq> []" by (auto simp: trim_rev_id)
    with True assms show ?thesis by (simp add: trim_rev_id)
  next
    case False
    then have "trim_rev s = trim_rev (drop (ws_width_rev s) s)" by (subst trim_rev.simps) simp
    with 1 False ws_width_rev_le [of s] show ?thesis
      by (subst trim_rev.simps) (simp add: ws_width_rev_app)
  qed
qed

lemma trim_end_app:
  "trim_end t = [] \<Longrightarrow> trim_end (s @ t) = trim_end s"
  "code x < 128 \<Longrightarrow> trim_end t \<noteq> [] \<Longrightarrow> trim_end (s @ x # t) = s @ x # trim_end t"
  "ws_width u = length u \<Longrightarrow> u \<noteq> [] \<Longrightarrow> trim_end t \<noteq> [] \<Longrightarrow> trim_end (u @ t) = u @ trim_end t"
  subgoal by (simp add: trim_end_def trim_rev_app_vanished)
  subgoal using trim_rev_app_stop [of "x # rev s" "rev t"]
    by (simp add: trim_end_def ws_width_rev_stop_ascii)
  subgoal using trim_rev_app_stop [of "rev u" "rev t"] ws_width_rev_stop_code [of u _ "[]"]
    by (simp add: trim_end_def)
  done

lemma ws_width_code: "ws_width (take (ws_width s) s) = ws_width s"
  by (cases s rule: ws_width.cases) (auto split: list.splits if_splits)

lemma ws_width_zero_prefix: "ws_width s = 0 \<Longrightarrow> prefix p s \<Longrightarrow> ws_width p = 0"
  by (metis prefixE ws_width_app)

lemma trim_end_code:
  assumes "ws_width u = length u"
  shows "trim_end u = []"
proof -
  have "ws_width_rev (rev u) = length u"
    using assms by (cases u rule: ws_width.cases)
      (auto split: list.splits if_splits dest!: ws_bytes)
  then show ?thesis
    by (cases "u = []") (simp_all add: trim_end_def trim_rev_id trim_rev.simps [of "rev u"])
qed

text \<open>The two ends are trimmed independently of each other.\<close>

lemma trim_start_end: "trim_start (trim_end s) = trim s"
proof (induction s rule: trim_start.induct)
  case (1 s)
  show ?case
  proof (cases "ws_width s = 0")
    case True
    with trim_end_prefix [of s] ws_width_zero_prefix show ?thesis by (simp add: trim_start_id trim_def)
  next
    case False
    define u t where "u = take (ws_width s) s" and "t = drop (ws_width s) s"
    have s: "s = u @ t" and u: "ws_width u = length u" "u \<noteq> []"
      using False ws_width_le [of s] by (auto simp: u_def t_def ws_width_code)
    have start: "trim_start (u @ x) = trim_start x" for x
      using u by (subst trim_start.simps) (simp add: ws_width_app)
    have IH: "trim_start (trim_end t) = trim_end (trim_start t)"
      using 1 False by (simp add: t_def trim_def)
    show ?thesis
    proof (cases "trim_end t = []")
      case True
      have "trim_start [] = []" by (simp add: trim_start_id)
      with True IH u s start show ?thesis by (simp add: trim_def trim_end_app trim_end_code)
    next
      case False
      with IH u s start show ?thesis by (simp add: trim_def trim_end_app)
    qed
  qed
qed

lemma trim_trim_end [simp]: "trim (trim_end s) = trim s"
  by (metis trim_start_end trim_end_idem)

subsection \<open>ASCII case folding\<close>

definition ascii_lower :: "char \<Rightarrow> char" where
  "ascii_lower c = (if 65 \<le> code c \<and> code c \<le> 90 then char_of (code c + 32) else c)"

definition to_ascii_lowercase :: "string \<Rightarrow> string" where
  "to_ascii_lowercase s = map ascii_lower s"

definition eq_ignore_ascii_case :: "string \<Rightarrow> string \<Rightarrow> bool" where
  "eq_ignore_ascii_case s t \<longleftrightarrow> to_ascii_lowercase s = to_ascii_lowercase t"

text \<open>\<open>slice::join\<close> with a separator.\<close>

fun join :: "string \<Rightarrow> string list \<Rightarrow> string" where
  "join sep [] = []"
| "join sep [s] = s"
| "join sep (s # t # ts) = s @ sep @ join sep (t # ts)"

subsection \<open>Lines and file names\<close>

text \<open>\<open>str::lines\<close>: the parts between line feeds, without the carriage return before a line feed and
  without an empty part after the last one.\<close>

definition strip_cr :: "string \<Rightarrow> string" where
  "strip_cr s = (if s \<noteq> [] \<and> last s = CHR 0x0D then butlast s else s)"

definition text_lines :: "string \<Rightarrow> string list" where
  "text_lines s =
     (let ps = split_on (CHR 0x0A) s
      in map strip_cr (butlast ps) @ (if last ps = [] then [] else [last ps]))"

lemma split_on_hit: "c \<notin> set a \<Longrightarrow> split_on c (a @ c # b) = a # split_on c b"
  by (induction a) auto

lemma split_on_free: "c \<notin> set a \<Longrightarrow> split_on c a = [a]"
  by (induction a) auto

lemma text_lines_hit:
  "CHR 0x0A \<notin> set a \<Longrightarrow> text_lines (a @ CHR 0x0A # b) = strip_cr a # text_lines b"
  by (simp add: text_lines_def split_on_hit Let_def)

lemma text_lines_Nil [simp]: "text_lines [] = []"
  by (simp add: text_lines_def)

text \<open>Lines that a program wrote one by one are the lines it reads.\<close>

lemma text_lines_concat:
  "(\<And>l. l \<in> set ls \<Longrightarrow> CHR 0x0A \<notin> set l \<and> strip_cr l = l) \<Longrightarrow>
     text_lines (concat (map (\<lambda>l. l @ [CHR 0x0A]) ls)) = ls"
  by (induction ls) (simp_all add: text_lines_hit)

text \<open>\<open>Path::extension\<close> of a file name: what follows its last dot, unless the name starts there.\<close>

definition file_extension :: "string \<Rightarrow> string option" where
  "file_extension f =
     (case rsplit_once ''.'' f of
        None \<Rightarrow> None
      | Some (before, after) \<Rightarrow> if before = [] then None else Some after)"

end
