(* ===== verification/PcCore.thy ===== *)
theory PcCore
  imports PcText
begin

section \<open>pc-core: environment names, identity, log prefix, errors\<close>

text \<open>
  \<open>crates/pc-core/src/lib.rs\<close> and \<open>identity.rs\<close>. The two process-global \<open>RwLock<String>\<close>
  cells are the record \<open>identity\<close>; a setter returns the updated record. A poisoned lock is
  recovered by the code (\<open>into_inner\<close>), so every access succeeds.
\<close>

subsection \<open>AppEnv\<close>

datatype app_env = Develop | Staging | Production

definition app_env_parse :: "string \<Rightarrow> app_env option" where
  "app_env_parse s =
     (if s = ''develop'' \<or> s = ''developement'' \<or> s = ''dev'' then Some Develop
      else if s = ''staging'' \<or> s = ''stg'' then Some Staging
      else if s = ''production'' \<or> s = ''prod'' then Some Production
      else None)"

fun app_env_as_str :: "app_env \<Rightarrow> string" where
  "app_env_as_str Develop = ''develop''"
| "app_env_as_str Staging = ''staging''"
| "app_env_as_str Production = ''production''"

lemma app_env_parse_as_str [simp]: "app_env_parse (app_env_as_str e) = Some e"
  by (cases e) (simp_all add: app_env_parse_def)

lemma app_env_as_str_inj: "app_env_as_str a = app_env_as_str b \<longleftrightarrow> a = b"
  by (cases a; cases b) simp_all

subsection \<open>Booleans of the environment\<close>

definition parse_bool_go :: "string \<Rightarrow> bool option" where
  "parse_bool_go v =
     (if v \<in> {''1'', ''t'', ''T'', ''TRUE'', ''true'', ''True''} then Some True
      else if v \<in> {''0'', ''f'', ''F'', ''FALSE'', ''false'', ''False''} then Some False
      else None)"

lemma parse_bool_go_Some:
  "parse_bool_go v = Some b \<Longrightarrow>
     v \<in> (if b then {''1'', ''t'', ''T'', ''TRUE'', ''true'', ''True''}
          else {''0'', ''f'', ''F'', ''FALSE'', ''false'', ''False''})"
  by (auto simp: parse_bool_go_def split: if_splits)

subsection \<open>Log prefix\<close>

definition log_module_prefix :: string where
  "log_module_prefix = ''pchelper''"

definition build_log_prefix :: "string \<Rightarrow> string" where
  "build_log_prefix function_name =
     (let fn0 = trim function_name;
          fn1 = (if fn0 = [] then ''Log'' else fn0)
      in if log_module_prefix = [] then ''['' @ fn1 @ '']''
         else ''['' @ log_module_prefix @ ''.'' @ fn1 @ '']'')"

lemma build_log_prefix_shape:
  "build_log_prefix f = ''[pchelper.'' @ (if trim f = [] then ''Log'' else trim f) @ '']''"
  by (simp add: build_log_prefix_def log_module_prefix_def Let_def)

subsection \<open>Process identity\<close>

record identity =
  id_app_name :: string
  id_app_env :: string

definition identity_init :: identity where
  "identity_init = \<lparr>id_app_name = [], id_app_env = []\<rparr>"

definition app_name :: "identity \<Rightarrow> string" where
  "app_name s = id_app_name s"

definition set_app_name :: "string \<Rightarrow> identity \<Rightarrow> identity" where
  "set_app_name v s = s\<lparr>id_app_name := v\<rparr>"

definition app_env_raw :: "identity \<Rightarrow> string" where
  "app_env_raw s = id_app_env s"

definition set_app_env_raw :: "string \<Rightarrow> identity \<Rightarrow> identity" where
  "set_app_env_raw v s = s\<lparr>id_app_env := v\<rparr>"

definition app_env_of :: "identity \<Rightarrow> app_env option" where
  "app_env_of s = app_env_parse (app_env_raw s)"

definition set_app_env :: "app_env \<Rightarrow> identity \<Rightarrow> identity" where
  "set_app_env e s = set_app_env_raw (app_env_as_str e) s"

lemmas identity_defs = app_name_def set_app_name_def app_env_raw_def set_app_env_raw_def
  app_env_of_def set_app_env_def

lemma identity_get_set [simp]:
  "app_name (set_app_name v s) = v"
  "app_env_raw (set_app_env_raw v s) = v"
  "app_name (set_app_env_raw v s) = app_name s"
  "app_env_raw (set_app_name v s) = app_env_raw s"
  "app_env_of (set_app_env e s) = Some e"
  "app_name (set_app_env e s) = app_name s"
  by (simp_all add: identity_defs)

subsection \<open>AppError\<close>

text \<open>\<open>System\<close> wraps an \<open>anyhow::Error\<close>, an opaque value of another crate: a type variable.\<close>

datatype 'x app_error = Business string | System 'x

type_synonym ('x, 'a) app_result = "'x app_error + 'a"

fun is_business :: "'x app_error \<Rightarrow> bool" where
  "is_business (Business s) = True"
| "is_business (System x) = False"

end
