(* ===== verification/PcJsonCompact.thy ===== *)
theory PcJsonCompact
  imports PcCore
begin

section \<open>pc-core: JSON compaction\<close>

text \<open>
  \<open>crates/pc-core/src/json.rs\<close>: the byte-level compactor whose output is hashed into every
  SNAP-BI signature and every idempotency key. The loop of \<open>compact_bytes\<close> is
  \<open>compact_loop\<close> over the same two flags. The well-formedness gate in front of it is
  \<open>serde_json::from_slice::<IgnoredAny>\<close>, code of another crate: the parameter \<open>gate\<close>,
  which gives the parser's error text or \<open>None\<close> for a single well-formed JSON value.

  The reference the loop is compared with is the lexical structure of JSON: a document is a
  sequence of lexemes (punctuation, literals, strings) with white space in between, and
  compaction is the concatenation of the lexemes.
\<close>

datatype json_minify_error = Compact string

definition json_ws :: "char \<Rightarrow> bool" where
  "json_ws b \<longleftrightarrow> code b = 32 \<or> code b = 9 \<or> code b = 10 \<or> code b = 13"

definition quote_byte :: char where
  "quote_byte = char_of (34 :: nat)"

definition escape_byte :: char where
  "escape_byte = char_of (92 :: nat)"

fun compact_loop :: "bool \<Rightarrow> bool \<Rightarrow> bytes \<Rightarrow> bytes" where
  "compact_loop in_string escaped [] = []"
| "compact_loop in_string escaped (b # raw) =
     (if in_string then
        b # (if escaped then compact_loop True False raw
             else if b = escape_byte then compact_loop True True raw
             else if b = quote_byte then compact_loop False escaped raw
             else compact_loop True escaped raw)
      else if json_ws b then compact_loop False escaped raw
      else if b = quote_byte then b # compact_loop True escaped raw
      else b # compact_loop False escaped raw)"

definition compact_bytes :: "bytes \<Rightarrow> bytes" where
  "compact_bytes raw = compact_loop False False raw"

definition json_minify ::
  "(bytes \<Rightarrow> string option) \<Rightarrow> bytes \<Rightarrow> json_minify_error + bytes" where
  "json_minify gate raw =
     (case gate raw of
        Some e \<Rightarrow> Err (Compact e)
      | None \<Rightarrow> Ok (compact_bytes raw))"

lemma quote_not_ws [simp]: "\<not> json_ws quote_byte"
  by (simp add: json_ws_def quote_byte_def)

lemma escape_not_ws [simp]: "\<not> json_ws escape_byte"
  by (simp add: json_ws_def escape_byte_def)

lemma quote_not_escape [simp]: "quote_byte \<noteq> escape_byte" "escape_byte \<noteq> quote_byte"
  by (simp_all add: quote_byte_def escape_byte_def)

subsection \<open>General facts of the loop\<close>

lemma compact_loop_subseq: "subseq (compact_loop i e raw) raw"
  by (induction i e raw rule: compact_loop.induct) auto

lemma compact_loop_idem: "compact_loop i e (compact_loop i e raw) = compact_loop i e raw"
  by (induction i e raw rule: compact_loop.induct) auto

text \<open>Only white space is ever dropped: the other bytes stay, in order.\<close>

lemma compact_loop_keeps:
  "filter (\<lambda>b. \<not> json_ws b) (compact_loop i e raw) = filter (\<lambda>b. \<not> json_ws b) raw"
  by (induction i e raw rule: compact_loop.induct) auto

subsection \<open>The lexical structure of a document\<close>

datatype jlexeme = JPunct char | JAtom bytes | JString bytes

text \<open>The body of a string literal: escapes are complete and no bare quote occurs.\<close>

fun string_body :: "bytes \<Rightarrow> bool" where
  "string_body [] = True"
| "string_body (b # s) =
     (if b = quote_byte then False
      else if b = escape_byte then (case s of [] \<Rightarrow> False | c # t \<Rightarrow> string_body t)
      else string_body s)"

definition plain_byte :: "char \<Rightarrow> bool" where
  "plain_byte b \<longleftrightarrow> \<not> json_ws b \<and> b \<noteq> quote_byte"

fun lexeme_ok :: "jlexeme \<Rightarrow> bool" where
  "lexeme_ok (JPunct c) = plain_byte c"
| "lexeme_ok (JAtom bs) = list_all plain_byte bs"
| "lexeme_ok (JString body) = string_body body"

fun lexeme_bytes :: "jlexeme \<Rightarrow> bytes" where
  "lexeme_bytes (JPunct c) = [c]"
| "lexeme_bytes (JAtom bs) = bs"
| "lexeme_bytes (JString body) = quote_byte # body @ [quote_byte]"

text \<open>A layout puts white space before each lexeme and after the last one.\<close>

fun render :: "(bytes \<times> jlexeme) list \<Rightarrow> bytes \<Rightarrow> bytes" where
  "render [] final_gap = final_gap"
| "render ((gap, x) # xs) final_gap = gap @ lexeme_bytes x @ render xs final_gap"

definition layout_ok :: "(bytes \<times> jlexeme) list \<Rightarrow> bytes \<Rightarrow> bool" where
  "layout_ok xs final_gap \<longleftrightarrow>
     list_all (\<lambda>(gap, x). list_all json_ws gap \<and> lexeme_ok x) xs \<and> list_all json_ws final_gap"

definition lexemes_compact :: "jlexeme list \<Rightarrow> bytes" where
  "lexemes_compact xs = concat (map lexeme_bytes xs)"

lemma compact_loop_gap:
  "list_all json_ws g \<Longrightarrow> compact_loop False e (g @ r) = compact_loop False e r"
  by (induction g) auto

lemma compact_loop_plain:
  "list_all plain_byte bs \<Longrightarrow> compact_loop False e (bs @ r) = bs @ compact_loop False e r"
  by (induction bs) (auto simp: plain_byte_def)

lemma compact_loop_body:
  "string_body s \<Longrightarrow>
     compact_loop True False (s @ quote_byte # r) = s @ quote_byte # compact_loop False False r"
proof (induction s rule: string_body.induct)
  case 1
  then show ?case by simp
next
  case (2 b s)
  then show ?case by (cases s) (auto split: if_splits)
qed

lemma compact_loop_lexeme:
  "lexeme_ok x \<Longrightarrow>
     compact_loop False False (lexeme_bytes x @ r) = lexeme_bytes x @ compact_loop False False r"
  using compact_loop_plain [of _ False r]
  by (cases x) (auto simp: compact_loop_body plain_byte_def)

lemma compact_bytes_render:
  assumes "layout_ok xs final_gap"
  shows "compact_bytes (render xs final_gap) = lexemes_compact (map snd xs)"
  using assms
proof (induction xs final_gap rule: render.induct)
  case (1 f)
  then show ?case
    using compact_loop_gap [of f False "[]"]
    by (simp add: layout_ok_def compact_bytes_def lexemes_compact_def)
next
  case (2 g x xs f)
  then have "layout_ok xs f" "list_all json_ws g" "lexeme_ok x"
    by (auto simp: layout_ok_def)
  with 2 show ?case
    by (simp add: compact_bytes_def lexemes_compact_def compact_loop_gap compact_loop_lexeme)
qed

subsection \<open>Properties\<close>

lemma byte_literals: "quote_byte = CHR 0x22" "escape_byte = CHR 0x5C"
  by (code_simp, code_simp)

text \<open>C29: Minification is a function of the lexemes of a document: whatever white space stands
  between them, the result is the bare concatenation of their bytes (string literals, with the
  white space and the escapes inside them, untouched). The parser that gates it is a parameter.\<close>

theorem minify_lexemes:
  assumes "layout_ok xs final_gap" and "gate (render xs final_gap) = None"
  shows "json_minify gate (render xs final_gap) = Ok (lexemes_compact (map snd xs))"
  using assms by (simp add: json_minify_def compact_bytes_render)

theorem minify_lexemes_witness:
  "json_minify (\<lambda>_. None)
     (render [('' '', JPunct CHR ''{''), ([], JString ''a b''), ('' '', JPunct CHR '':''), ('' '', JAtom ''12''),
              ([], JPunct CHR ''}'')] '' '') =
   Ok (''{'' @ [quote_byte] @ ''a b'' @ [quote_byte] @ '':12}'')"
  using minify_lexemes [where gate = "\<lambda>_. None" and final_gap = "'' ''" and
      xs = "[('' '', JPunct CHR ''{''), ([], JString ''a b''), ('' '', JPunct CHR '':''), ('' '', JAtom ''12''),
        ([], JPunct CHR ''}'')]"]
  by (simp add: layout_ok_def json_ws_def plain_byte_def byte_literals lexemes_compact_def)

text \<open>On any bytes, well formed or not, the compactor only deletes white space: what it keeps is
  a subsequence with every other byte in place, and a second pass changes nothing. The minifier
  fails exactly on what the gate refuses.\<close>

theorem minify_only_drops_white_space:
  "subseq (compact_bytes raw) raw \<and>
   filter (\<lambda>b. \<not> json_ws b) (compact_bytes raw) = filter (\<lambda>b. \<not> json_ws b) raw \<and>
   compact_bytes (compact_bytes raw) = compact_bytes raw \<and>
   json_minify gate raw =
     (case gate raw of None \<Rightarrow> Ok (compact_bytes raw) | Some e \<Rightarrow> Err (Compact e))"
  by (simp add: compact_bytes_def compact_loop_subseq compact_loop_keeps compact_loop_idem
      json_minify_def)

end
