(* ===== verification/PcRedis.thy ===== *)
theory PcRedis
  imports PcCore
begin

section \<open>pc-redis: keys, TTL guardrail, deadlines, pool operations\<close>

text \<open>
  \<open>crates/pc-redis/src/lib.rs\<close>. The pure part (key formats, the TTL clamp, the timing
  configuration read from the environment) is translated as it is; diagnostic
  \<open>tracing\<close> lines have no effect on a result and are left out.

  The pool, the server and the lock manager are code of other crates. A pooled command under
  \<open>tokio::time::timeout\<close> is the parameter \<open>exec\<close>: given the state of the outside world, the
  deadline and the command, it gives \<open>None\<close> when the deadline passes first, else the error or
  the reply, and the new state of the world.
\<close>

subsection \<open>Keys\<close>

definition csrf_key :: "string \<Rightarrow> string" where
  "csrf_key token = ''csrf-'' @ token"

definition revoke_token_key :: "string \<Rightarrow> string" where
  "revoke_token_key merchant_id = ''revoke_token_'' @ merchant_id"

definition lock_key_prefix :: "identity \<Rightarrow> string" where
  "lock_key_prefix ident = ''redis_lock:'' @ app_name ident @ '':''"

definition lock_key :: "identity \<Rightarrow> string \<Rightarrow> string" where
  "lock_key ident name = lock_key_prefix ident @ name"

text \<open>Keys of different families never collide, whatever the identifiers.\<close>

lemma key_families_disjoint:
  "csrf_key a \<noteq> revoke_token_key b"
  "csrf_key a \<noteq> lock_key ident c"
  "revoke_token_key b \<noteq> lock_key ident c"
  by (simp_all add: csrf_key_def revoke_token_key_def lock_key_def lock_key_prefix_def)

lemma keys_injective:
  "csrf_key a = csrf_key b \<longleftrightarrow> a = b"
  "revoke_token_key a = revoke_token_key b \<longleftrightarrow> a = b"
  "lock_key ident a = lock_key ident b \<longleftrightarrow> a = b"
  by (simp_all add: csrf_key_def revoke_token_key_def lock_key_def)

subsection \<open>Environment\<close>

definition env_i64 :: "environment \<Rightarrow> string \<Rightarrow> int option" where
  "env_i64 env name = Option.bind (env name) parse_i64"

definition env_nonempty :: "environment \<Rightarrow> string \<Rightarrow> string option" where
  "env_nonempty env name =
     (case env name of Some s \<Rightarrow> if s = [] then None else Some s | None \<Rightarrow> None)"

lemma env_i64_bounds: "env_i64 env name = Some i \<Longrightarrow> i64_min \<le> i \<and> i \<le> i64_max"
  by (auto simp: env_i64_def bind_eq_Some_conv dest: parse_i64_bounds)

subsection \<open>TTL guardrail\<close>

definition default_max_ttl_minutes :: int where
  "default_max_ttl_minutes = 30 * 24 * 60"

definition max_ttl_minutes :: "environment \<Rightarrow> int" where
  "max_ttl_minutes env =
     (case env_i64 env ''REDIS_MAX_TTL_MINUTES'' of
        Some n \<Rightarrow> if n > 0 then n else default_max_ttl_minutes
      | None \<Rightarrow> default_max_ttl_minutes)"

definition clamp_ttl_with_max :: "int \<Rightarrow> int \<Rightarrow> int" where
  "clamp_ttl_with_max ttl_ms max_minutes =
     (if ttl_ms < 0 then 0
      else
        let max_ms = sat_mul_i64 max_minutes 60000 in
        if ttl_ms > max_ms then max_ms else ttl_ms)"

definition clamp_ttl :: "environment \<Rightarrow> duration \<Rightarrow> duration" where
  "clamp_ttl env d =
     (let ms = unwrap_or (i64_try_from (as_millis d)) i64_max;
          clamped = clamp_ttl_with_max ms (max_ttl_minutes env)
      in from_millis (unwrap_or (u64_try_from clamped) 0))"

text \<open>The ceiling in milliseconds.\<close>

definition ttl_ceiling_ms :: "environment \<Rightarrow> nat" where
  "ttl_ceiling_ms env = nat (sat_mul_i64 (max_ttl_minutes env) 60000)"

lemma max_ttl_minutes_pos: "0 < max_ttl_minutes env" "max_ttl_minutes env \<le> i64_max"
  using env_i64_bounds [of env "''REDIS_MAX_TTL_MINUTES''"]
  by (auto simp: max_ttl_minutes_def default_max_ttl_minutes_def i64_max_def split: option.splits)

lemma ttl_ceiling_pos: "60000 \<le> ttl_ceiling_ms env"
  using max_ttl_minutes_pos [of env]
  by (simp add: ttl_ceiling_ms_def sat_mul_i64_def sat_i64_def i64_max_def i64_min_def)

lemma ttl_ceiling_i64: "int (ttl_ceiling_ms env) \<le> i64_max"
  by (simp add: ttl_ceiling_ms_def sat_mul_i64_def sat_i64_def i64_max_def i64_min_def)

lemma ttl_ceiling_int: "sat_mul_i64 (max_ttl_minutes env) 60000 = int (ttl_ceiling_ms env)"
  using max_ttl_minutes_pos [of env]
  by (simp add: ttl_ceiling_ms_def sat_mul_i64_def sat_i64_def i64_max_def i64_min_def)

lemma clamp_ttl_eq: "clamp_ttl env d = from_millis (min (as_millis d) (ttl_ceiling_ms env))"
proof -
  have c: "clamp_ttl_with_max (unwrap_or (i64_try_from (as_millis d)) i64_max) (max_ttl_minutes env) =
      int (min (as_millis d) (ttl_ceiling_ms env))"
    using ttl_ceiling_i64 [of env] unfolding clamp_ttl_with_max_def ttl_ceiling_int
    by (auto simp: i64_try_from_def min_def i64_max_def)
  have "int (min (as_millis d) (ttl_ceiling_ms env)) \<le> int u64_max"
    using ttl_ceiling_i64 [of env] by (simp add: i64_max_def u64_max_def)
  then show ?thesis
    unfolding clamp_ttl_def Let_def c by (simp add: u64_try_from_def)
qed

subsection \<open>PTTL replies\<close>

datatype key_ttl = Missing | NoExpiry | Expires duration

definition from_pttl :: "int \<Rightarrow> key_ttl" where
  "from_pttl ms =
     (if ms = -2 then Missing
      else if ms = -1 then NoExpiry
      else if ms < 0 then NoExpiry
      else Expires (from_millis (nat (abs ms))))"

fun ttl_remaining :: "key_ttl \<Rightarrow> duration option" where
  "ttl_remaining (Expires d) = Some d"
| "ttl_remaining Missing = None"
| "ttl_remaining NoExpiry = None"

subsection \<open>Timing configuration\<close>

definition default_lock_timeout_ms :: int where
  "default_lock_timeout_ms = 2000"

definition min_lock_timeout_ms :: int where
  "min_lock_timeout_ms = 700"

definition default_backoff_ms :: int where
  "default_backoff_ms = 10"

definition default_op_timeout_ms :: int where
  "default_op_timeout_ms = 1000"

definition trx_lock_timeout_ms_from :: "int option \<Rightarrow> int" where
  "trx_lock_timeout_ms_from parsed =
     (case parsed of
        Some v \<Rightarrow> if v \<ge> min_lock_timeout_ms then v else default_lock_timeout_ms
      | None \<Rightarrow> default_lock_timeout_ms)"

definition trx_backoff_ms_from :: "int option \<Rightarrow> int" where
  "trx_backoff_ms_from parsed =
     (case parsed of
        Some v \<Rightarrow> if v \<ge> default_backoff_ms then v else default_backoff_ms
      | None \<Rightarrow> default_backoff_ms)"

definition op_timeout_ms_from :: "int option \<Rightarrow> int" where
  "op_timeout_ms_from parsed =
     (case parsed of
        Some v \<Rightarrow> if v > 0 then v else default_op_timeout_ms
      | None \<Rightarrow> default_op_timeout_ms)"

definition trx_lock_timeout :: "environment \<Rightarrow> duration" where
  "trx_lock_timeout env =
     from_millis (unwrap_or (u64_try_from
       (trx_lock_timeout_ms_from (env_i64 env ''TRANSACTION_REDIS_LOCK_TIMEOUT''))) 2000)"

definition trx_backoff :: "environment \<Rightarrow> duration" where
  "trx_backoff env =
     from_millis (unwrap_or (u64_try_from
       (trx_backoff_ms_from (env_i64 env ''TRANSACTION_REDIS_BACKOFF''))) 10)"

definition op_timeout :: "environment \<Rightarrow> duration" where
  "op_timeout env =
     from_millis (unwrap_or (u64_try_from
       (op_timeout_ms_from (env_i64 env ''REDIS_OP_TIMEOUT_MS''))) 1000)"

lemma u64_try_from_i64:
  "0 \<le> i \<Longrightarrow> i \<le> i64_max \<Longrightarrow> u64_try_from i = Some (nat i)"
  by (simp add: u64_try_from_def i64_max_def u64_max_def)

lemma timing_ms_ranges:
  "700 \<le> trx_lock_timeout_ms_from (env_i64 env n) \<and> trx_lock_timeout_ms_from (env_i64 env n) \<le> i64_max"
  "10 \<le> trx_backoff_ms_from (env_i64 env n) \<and> trx_backoff_ms_from (env_i64 env n) \<le> i64_max"
  "1 \<le> op_timeout_ms_from (env_i64 env n) \<and> op_timeout_ms_from (env_i64 env n) \<le> i64_max"
  using env_i64_bounds [of env n]
  by (auto simp: trx_lock_timeout_ms_from_def trx_backoff_ms_from_def op_timeout_ms_from_def
      min_lock_timeout_ms_def default_lock_timeout_ms_def default_backoff_ms_def
      default_op_timeout_ms_def i64_max_def split: option.splits)

lemma timing_eqs:
  "trx_lock_timeout env =
     from_millis (nat (trx_lock_timeout_ms_from (env_i64 env ''TRANSACTION_REDIS_LOCK_TIMEOUT'')))"
  "trx_backoff env =
     from_millis (nat (trx_backoff_ms_from (env_i64 env ''TRANSACTION_REDIS_BACKOFF'')))"
  "op_timeout env =
     from_millis (nat (op_timeout_ms_from (env_i64 env ''REDIS_OP_TIMEOUT_MS'')))"
proof -
  note r = timing_ms_ranges [of env]
  show "trx_lock_timeout env =
      from_millis (nat (trx_lock_timeout_ms_from (env_i64 env ''TRANSACTION_REDIS_LOCK_TIMEOUT'')))"
    unfolding trx_lock_timeout_def
    by (subst u64_try_from_i64) (use r(1) [of "''TRANSACTION_REDIS_LOCK_TIMEOUT''"] in auto)
  show "trx_backoff env =
      from_millis (nat (trx_backoff_ms_from (env_i64 env ''TRANSACTION_REDIS_BACKOFF'')))"
    unfolding trx_backoff_def
    by (subst u64_try_from_i64) (use r(2) [of "''TRANSACTION_REDIS_BACKOFF''"] in auto)
  show "op_timeout env =
      from_millis (nat (op_timeout_ms_from (env_i64 env ''REDIS_OP_TIMEOUT_MS'')))"
    unfolding op_timeout_def
    by (subst u64_try_from_i64) (use r(3) [of "''REDIS_OP_TIMEOUT_MS''"] in auto)
qed

subsection \<open>Configuration of the connection\<close>

record redis_conn =
  rc_host :: string
  rc_port :: nat
  rc_db :: int
  rc_username :: string
  rc_password :: "string option"

datatype 'x redis_init_error = Invalid_Redis_Port string | Redis_Driver 'x

text \<open>The settings \<open>init_from_env\<close> connects with; \<open>Ok None\<close> when Redis is not configured.\<close>

definition redis_settings :: "environment \<Rightarrow> 'x redis_init_error + redis_conn option" where
  "redis_settings env =
     (case env_nonempty env ''REDIS_HOST'' of
        None \<Rightarrow> Ok None
      | Some host \<Rightarrow>
          let port = unwrap_or (env_nonempty env ''REDIS_PORT'') ''6379'' in
          (case parse_uint u16_max port of
             None \<Rightarrow> Err (Invalid_Redis_Port port)
           | Some port_num \<Rightarrow>
               let db = (case env ''REDIS_DB'' of
                           Some s \<Rightarrow> if s \<noteq> [] then unwrap_or (parse_i64 s) 0 else 0
                         | None \<Rightarrow> 0)
               in Ok (Some \<lparr>rc_host = host, rc_port = port_num, rc_db = db,
                            rc_username = ''default'',
                            rc_password = env_nonempty env ''REDIS_PASSWORD''\<rparr>)))"

text \<open>What other crates build: the connection information, a client, a pool and a lock manager; and
  the counters of the pool.\<close>

record deadpool_status =
  ds_max_size :: nat
  ds_size :: nat
  ds_available :: nat
  ds_waiting :: nat

record ('ci, 'cl, 'p, 'l, 'x) redis_driver =
  dr_connection_info :: "redis_conn \<Rightarrow> 'x + 'ci"
  dr_open :: "'ci \<Rightarrow> 'x + 'cl"
  dr_create_pool :: "'ci \<Rightarrow> 'x + 'p"
  dr_lock_manager :: "'cl list \<Rightarrow> 'l"
  dr_status :: "'p \<Rightarrow> deadpool_status"

record ('p, 'l) redis_pool =
  rp_pool :: 'p
  rp_locks :: 'l

definition redis_pool_connect ::
  "('ci, 'cl, 'p, 'l, 'x) redis_driver \<Rightarrow> 'ci \<Rightarrow> 'x + ('p, 'l) redis_pool" where
  "redis_pool_connect d conn_info =
     and_then (dr_open d conn_info) (\<lambda>client.
       and_then (dr_create_pool d conn_info) (\<lambda>pool.
         Ok \<lparr>rp_pool = pool, rp_locks = dr_lock_manager d [client]\<rparr>))"

definition driver_step :: "'x + 'a \<Rightarrow> ('a \<Rightarrow> 'x redis_init_error + 'b) \<Rightarrow> 'x redis_init_error + 'b" where
  "driver_step r k = (case r of Inl e \<Rightarrow> Err (Redis_Driver e) | Inr a \<Rightarrow> k a)"

definition init_from_env ::
  "('ci, 'cl, 'p, 'l, 'x) redis_driver \<Rightarrow> environment \<Rightarrow> 'x redis_init_error + ('p, 'l) redis_pool option" where
  "init_from_env d env =
     and_then (redis_settings env) (\<lambda>settings.
       case settings of
         None \<Rightarrow> Ok None
       | Some conn \<Rightarrow>
           driver_step (dr_connection_info d conn) (\<lambda>conn_info.
             driver_step (redis_pool_connect d conn_info) (\<lambda>pool. Ok (Some pool))))"

record redis_pool_status =
  rs_max_size :: nat
  rs_total :: nat
  rs_idle :: nat
  rs_waiting :: nat

definition pool_status :: "('p \<Rightarrow> deadpool_status) \<Rightarrow> ('p, 'l) redis_pool \<Rightarrow> redis_pool_status" where
  "pool_status status p =
     (let s = status (rp_pool p)
      in \<lparr>rs_max_size = ds_max_size s, rs_total = ds_size s, rs_idle = ds_available s,
          rs_waiting = ds_waiting s\<rparr>)"

text \<open>Redis is optional: without a host there is no pool and no error, whatever else is set; with one
  the process gets a pool or learns why not.\<close>

lemma init_from_env_optional:
  "init_from_env d env = Ok None \<longleftrightarrow> env_nonempty env ''REDIS_HOST'' = None"
  by (auto simp: init_from_env_def redis_settings_def driver_step_def Let_def
      split: option.splits sum.splits)

subsection \<open>Pool operations\<close>

datatype redis_cmd =
  Ping
| Set_Cmd string string
| PsetEx_Cmd string string nat
| Get_Cmd string
| Pttl_Cmd string
| Del_Cmd string

datatype redis_reply = Reply_Unit | Reply_Bulk "string option" | Reply_Int int

datatype 'e pool_error =
  Op_Timeout string duration
| Pool_Failure 'e
| Marshal_Failure 'e
| Unexpected_Reply

type_synonym ('w, 'e) redis_exec =
  "'w \<Rightarrow> duration \<Rightarrow> redis_cmd \<Rightarrow> ('e + redis_reply) option \<times> 'w"

text \<open>The shape every operation shares: one command under \<open>timeout(op_timeout(), ...)\<close>; the
  driver decodes the reply, and an answer of another type is its error.\<close>

definition bounded ::
  "('w, 'e) redis_exec \<Rightarrow> environment \<Rightarrow> string \<Rightarrow> redis_cmd
     \<Rightarrow> (redis_reply \<Rightarrow> 'e pool_error + 'a) \<Rightarrow> 'w \<Rightarrow> ('e pool_error + 'a) \<times> 'w" where
  "bounded exec env what cmd decode w =
     (let t = op_timeout env; (r, w') = exec w t cmd in
      (case r of
         None \<Rightarrow> (Err (Op_Timeout what t), w')
       | Some (Inl e) \<Rightarrow> (Err (Pool_Failure e), w')
       | Some (Inr reply) \<Rightarrow> (decode reply, w')))"

fun decode_unit :: "redis_reply \<Rightarrow> 'e pool_error + unit" where
  "decode_unit r = Ok ()"

fun decode_bulk :: "redis_reply \<Rightarrow> 'e pool_error + string option" where
  "decode_bulk (Reply_Bulk b) = Ok b"
| "decode_bulk r = Err Unexpected_Reply"

fun decode_pttl :: "redis_reply \<Rightarrow> 'e pool_error + key_ttl" where
  "decode_pttl (Reply_Int ms) = Ok (from_pttl ms)"
| "decode_pttl r = Err Unexpected_Reply"

definition redis_ping ::
  "('w, 'e) redis_exec \<Rightarrow> environment \<Rightarrow> 'w \<Rightarrow> ('e pool_error + unit) \<times> 'w" where
  "redis_ping exec env w = bounded exec env ''PING'' Ping decode_unit w"

text \<open>\<open>store\<close>: \<open>to_json\<close> is \<open>serde_json::to_string\<close>.\<close>

definition store_cmd :: "environment \<Rightarrow> string \<Rightarrow> string \<Rightarrow> duration \<Rightarrow> redis_cmd" where
  "store_cmd env key json ttl =
     (let ms = as_millis (clamp_ttl env ttl) in
      if ms = 0 then Set_Cmd key json
      else PsetEx_Cmd key json (if ms \<le> u64_max then ms else u64_max))"

definition redis_store ::
  "('v \<Rightarrow> 'e + string) \<Rightarrow> ('w, 'e) redis_exec \<Rightarrow> environment \<Rightarrow> string \<Rightarrow> 'v \<Rightarrow> duration
     \<Rightarrow> 'w \<Rightarrow> ('e pool_error + unit) \<times> 'w" where
  "redis_store to_json exec env key v ttl w =
     (case to_json v of
        Inl e \<Rightarrow> (Err (Marshal_Failure e), w)
      | Inr json \<Rightarrow> bounded exec env ''SET'' (store_cmd env key json ttl) decode_unit w)"

definition redis_get ::
  "('w, 'e) redis_exec \<Rightarrow> environment \<Rightarrow> string \<Rightarrow> 'w \<Rightarrow> ('e pool_error + string option) \<times> 'w" where
  "redis_get exec env key w = bounded exec env ''GET'' (Get_Cmd key) decode_bulk w"

definition redis_ttl ::
  "('w, 'e) redis_exec \<Rightarrow> environment \<Rightarrow> string \<Rightarrow> 'w \<Rightarrow> ('e pool_error + key_ttl) \<times> 'w" where
  "redis_ttl exec env key w = bounded exec env ''PTTL'' (Pttl_Cmd key) decode_pttl w"

definition redis_delete ::
  "('w, 'e) redis_exec \<Rightarrow> environment \<Rightarrow> string \<Rightarrow> 'w \<Rightarrow> ('e pool_error + unit) \<times> 'w" where
  "redis_delete exec env key w = bounded exec env ''DEL'' (Del_Cmd key) decode_unit w"

lemma store_cmd_eq:
  "store_cmd env key json ttl =
     (if as_millis ttl = 0 then Set_Cmd key json
      else PsetEx_Cmd key json (min (as_millis ttl) (ttl_ceiling_ms env)))"
  using ttl_ceiling_pos [of env] ttl_ceiling_i64 [of env]
  by (auto simp: store_cmd_def clamp_ttl_eq Let_def i64_max_def u64_max_def min_def)

subsection \<open>Locks\<close>

text \<open>\<open>mgr_lock\<close> is \<open>rslock::LockManager::lock\<close> under the deadline.\<close>

datatype 'x lock_error = Unavailable | Lock_Fault 'x

datatype lock_outcome = Held_Elsewhere | Lock_Failed | Lock_Timed_Out

definition lock_bounded ::
  "('m \<Rightarrow> duration \<Rightarrow> string \<Rightarrow> duration \<Rightarrow> ('x lock_error + 'l) option)
     \<Rightarrow> environment \<Rightarrow> 'm \<Rightarrow> string \<Rightarrow> duration \<Rightarrow> 'l option" where
  "lock_bounded mgr_lock env mgr key ttl =
     (case mgr_lock mgr (op_timeout env) key ttl of
        Some (Inr lock) \<Rightarrow> Some lock
      | Some (Inl Unavailable) \<Rightarrow> None
      | Some (Inl (Lock_Fault e)) \<Rightarrow> None
      | None \<Rightarrow> None)"

definition acquire_lock ::
  "('m \<Rightarrow> duration \<Rightarrow> string \<Rightarrow> duration \<Rightarrow> ('x lock_error + 'l) option)
     \<Rightarrow> environment \<Rightarrow> 'm \<Rightarrow> string \<Rightarrow> duration \<Rightarrow> 'l option" where
  "acquire_lock mgr_lock env locks key ttl = lock_bounded mgr_lock env locks key ttl"

definition acquire_lock_with_retry ::
  "('m \<Rightarrow> nat \<Rightarrow> duration \<Rightarrow> 'm)
     \<Rightarrow> ('m \<Rightarrow> duration \<Rightarrow> string \<Rightarrow> duration \<Rightarrow> ('x lock_error + 'l) option)
     \<Rightarrow> environment \<Rightarrow> 'm \<Rightarrow> string \<Rightarrow> duration \<Rightarrow> nat \<Rightarrow> duration \<Rightarrow> 'l option" where
  "acquire_lock_with_retry set_retry mgr_lock env locks key ttl tries delay =
     lock_bounded mgr_lock env (set_retry locks tries delay) key ttl"

text \<open>\<open>release\<close> runs the manager's unlock under the deadline; a timeout is only logged
  (the returned flag says whether it was).\<close>

definition release_lock ::
  "('w \<Rightarrow> duration \<Rightarrow> 'l \<Rightarrow> unit option \<times> 'w) \<Rightarrow> environment \<Rightarrow> 'l \<Rightarrow> 'w \<Rightarrow> bool \<times> 'w" where
  "release_lock unlock env lock w =
     (let (r, w') = unlock w (op_timeout env) lock in (r = None, w'))"


subsection \<open>Properties\<close>

text \<open>C30: The expiry a value is stored with: the saturating and clamping code writes exactly the smaller
  of the requested milliseconds and the configured ceiling, which is at least one minute and fits an
  \<open>i64\<close>; so no positive number of whole milliseconds can become a key without expiry or outlive the
  ceiling. A positive duration below a millisecond, however, is stored with no expiry at all.\<close>

theorem store_expiry:
  "store_cmd env key json ttl =
     (if as_millis ttl = 0 then Set_Cmd key json
      else PsetEx_Cmd key json (min (as_millis ttl) (ttl_ceiling_ms env))) \<and>
   60000 \<le> ttl_ceiling_ms env \<and> int (ttl_ceiling_ms env) \<le> i64_max \<and>
   store_cmd env key json 999999 = Set_Cmd key json"
  using ttl_ceiling_pos [of env] ttl_ceiling_i64 [of env]
  by (simp add: store_cmd_eq as_millis_def)

text \<open>The keys of the three families (CSRF tokens, token revocations, locks) never collide, for any
  identifiers and application name, and within a family different identifiers have different keys.\<close>

theorem redis_keys_separate:
  "distinct [csrf_key a, revoke_token_key b, lock_key ident c] \<and>
   inj csrf_key \<and> inj revoke_token_key \<and> inj (lock_key ident)"
  by (simp add: key_families_disjoint keys_injective inj_def)

text \<open>The three timings read from the environment are usable whatever it holds: a lock lives at
  least 700 ms, a retry waits at least 10 ms and an operation gets at least 1 ms, all within what an
  \<open>i64\<close> of milliseconds can say; and by default an operation is given up before a lock expires.\<close>

theorem redis_timings:
  "from_millis 700 \<le> trx_lock_timeout env \<and> from_millis 10 \<le> trx_backoff env \<and>
   from_millis 1 \<le> op_timeout env \<and>
   list_all (\<lambda>d. d \<le> from_millis (nat i64_max)) [trx_lock_timeout env, trx_backoff env, op_timeout env] \<and>
   op_timeout (\<lambda>_. None) < trx_lock_timeout (\<lambda>_. None)"
proof -
  note ranges = timing_ms_ranges [of env]
  have "op_timeout (\<lambda>_. None) < trx_lock_timeout (\<lambda>_. None)"
    by (simp add: timing_eqs env_i64_def op_timeout_ms_from_def trx_lock_timeout_ms_from_def
        default_op_timeout_ms_def default_lock_timeout_ms_def from_millis_def)
  moreover have "from_millis a \<le> from_millis (nat i)" if "int a \<le> i" for a i
    using that by (intro from_millis_mono) simp
  moreover have "from_millis (nat i) \<le> from_millis (nat i64_max)" if "i \<le> i64_max" for i
    using that by (intro from_millis_mono) simp
  ultimately show ?thesis
    using ranges(1) [of "''TRANSACTION_REDIS_LOCK_TIMEOUT''"] ranges(2) [of "''TRANSACTION_REDIS_BACKOFF''"]
      ranges(3) [of "''REDIS_OP_TIMEOUT_MS''"]
    unfolding timing_eqs [of env] by simp
qed

end
