(* ===== verification/PcJson.thy ===== *)
theory PcJson
  imports PcCore
begin

section \<open>pc-json: JSON values and serialization profiles\<close>

text \<open>
  \<open>crates/pc-json/src/lib.rs\<close> and the value type its callers build. A JSON value is the tree of
  \<open>serde_json::Value\<close>; the workspace enables \<open>preserve_order\<close>, so an object is the list of its
  members in insertion order. Numbers are integers here (no modelled code builds a
  fractional one). The serializer itself (\<open>serde_json::to_vec\<close> and \<open>to_vec_pretty\<close>) is code of
  another crate: the parameter of the three profiles.
\<close>

datatype jvalue =
  JNull
| JBool bool
| JInt int
| JStr string
| JArr "jvalue list"
| JObj "(string \<times> jvalue) list"

definition marshal :: "('v \<Rightarrow> 'e + bytes) \<Rightarrow> 'v \<Rightarrow> 'e + bytes" where
  "marshal to_vec v = to_vec v"

definition newline :: char where
  "newline = char_of (10 :: nat)"

definition marshal_audit :: "('v \<Rightarrow> 'e + bytes) \<Rightarrow> 'v \<Rightarrow> 'e + bytes" where
  "marshal_audit to_vec v = and_then (to_vec v) (\<lambda>buf. Ok (buf @ [newline]))"

definition marshal_indent :: "('v \<Rightarrow> 'e + bytes) \<Rightarrow> 'v \<Rightarrow> 'e + bytes" where
  "marshal_indent to_vec_pretty v = to_vec_pretty v"

lemma marshal_audit_Ok:
  "marshal_audit to_vec v = Ok out \<longleftrightarrow> (\<exists>buf. marshal to_vec v = Ok buf \<and> out = buf @ [newline])"
  by (auto simp: marshal_audit_def marshal_def and_then_Ok_iff)

text \<open>Members of an object and the \<open>skip_serializing_if\<close> attributes of the derived encoders.\<close>

definition member :: "string \<Rightarrow> jvalue \<Rightarrow> (string \<times> jvalue) list" where
  "member name v = [(name, v)]"

definition skip_empty :: "string \<Rightarrow> string \<Rightarrow> (string \<times> jvalue) list" where
  "skip_empty name s = (if s = [] then [] else [(name, JStr s)])"

definition skip_zero :: "string \<Rightarrow> int \<Rightarrow> (string \<times> jvalue) list" where
  "skip_zero name i = (if i = 0 then [] else [(name, JInt i)])"

definition skip_none :: "string \<Rightarrow> jvalue option \<Rightarrow> (string \<times> jvalue) list" where
  "skip_none name o' = (case o' of None \<Rightarrow> [] | Some v \<Rightarrow> [(name, v)])"

definition opt_strings :: "string list option \<Rightarrow> jvalue" where
  "opt_strings o' = (case o' of None \<Rightarrow> JNull | Some ss \<Rightarrow> JArr (map JStr ss))"

lemmas member_defs = member_def skip_empty_def skip_zero_def skip_none_def

fun field_of :: "string \<Rightarrow> jvalue \<Rightarrow> jvalue option" where
  "field_of name (JObj ms) = map_of ms name"
| "field_of name _ = None"

fun keys_of :: "jvalue \<Rightarrow> string list" where
  "keys_of (JObj ms) = map fst ms"
| "keys_of _ = []"

end
