(* ===== verification/PcHealth.thy ===== *)
theory PcHealth
  imports PcRedis PcAmqp PcJson
begin

section \<open>pc-health: component checks and their worst\<close>

text \<open>
  \<open>crates/pc-health/src/lib.rs\<close>. The checks run on the models of pc-redis and pc-amqp; the clock,
  tokio's \<open>timeout\<close>, the state of the Sentry hub, the pool's counters, the timestamp and floating
  point are fields of \<open>health_env\<close>.
\<close>

subsection \<open>Statuses\<close>

definition healthy_status :: string where "healthy_status = ''healthy''"
definition degraded_status :: string where "degraded_status = ''degraded''"
definition unhealthy_status :: string where "unhealthy_status = ''unhealthy''"

definition redis_degraded_after :: duration where
  "redis_degraded_after = from_millis 1000"

record health_status =
  hs_component :: string
  hs_status :: string
  hs_message :: string
  hs_latency_ms :: "nat option"

definition health_status_json :: "health_status \<Rightarrow> jvalue" where
  "health_status_json h =
     JObj (member ''component'' (JStr (hs_component h)) @ member ''status'' (JStr (hs_status h))
       @ skip_empty ''message'' (hs_message h)
       @ skip_none ''latency_ms'' (map_option (\<lambda>n. JInt (int n)) (hs_latency_ms h)))"

record health_check =
  hc_app_name :: string
  hc_app_env :: string
  hc_timestamp :: string
  hc_overall_status :: string
  hc_checks :: "health_status list"

definition health_check_json :: "health_check \<Rightarrow> jvalue" where
  "health_check_json h =
     JObj (member ''app_name'' (JStr (hc_app_name h)) @ member ''app_env'' (JStr (hc_app_env h))
       @ member ''timestamp'' (JStr (hc_timestamp h))
       @ member ''overall_status'' (JStr (hc_overall_status h))
       @ member ''checks'' (JArr (map health_status_json (hc_checks h))))"

definition healthy :: "string \<Rightarrow> health_status" where
  "healthy component = \<lparr>hs_component = component, hs_status = healthy_status, hs_message = [],
     hs_latency_ms = None\<rparr>"

definition unhealthy :: "string \<Rightarrow> string \<Rightarrow> health_status" where
  "unhealthy component msg = \<lparr>hs_component = component, hs_status = unhealthy_status,
     hs_message = msg, hs_latency_ms = None\<rparr>"

fun worst_from :: "string \<Rightarrow> string list \<Rightarrow> string" where
  "worst_from worst [] = worst"
| "worst_from worst (s # ss) =
     (if s = unhealthy_status then unhealthy_status
      else if s = degraded_status then worst_from degraded_status ss
      else worst_from worst ss)"

definition worst_status :: "string list \<Rightarrow> string" where
  "worst_status ss = worst_from healthy_status ss"

subsection \<open>Checks\<close>

record ('w, 'e, 'f) health_env =
  he_env :: environment
  he_exec :: "('w, 'e) redis_exec"
  he_now :: "'w \<Rightarrow> instant"
  he_timeout :: "duration \<Rightarrow> ('w \<Rightarrow> ('e pool_error + unit) \<times> 'w)
    \<Rightarrow> 'w \<Rightarrow> ('e pool_error + unit) option \<times> 'w"
  he_pool_error :: "'e pool_error \<Rightarrow> string"
  he_sentry_enabled :: bool
  he_timestamp :: "'w \<Rightarrow> string"
  he_pool_status :: "'w \<Rightarrow> deadpool_status"
  he_ratio :: "nat \<Rightarrow> nat \<Rightarrow> 'f"
  he_zero :: 'f

definition latency_ms :: "duration \<Rightarrow> nat" where
  "latency_ms elapsed = (if as_millis elapsed \<le> u64_max then as_millis elapsed else u64_max)"

text \<open>The flag says whether the process has a pool.\<close>

definition check_redis :: "('w, 'e, 'f) health_env \<Rightarrow> bool \<Rightarrow> 'w \<Rightarrow> health_status \<times> 'w" where
  "check_redis h redis w =
     (if \<not> redis then (unhealthy ''redis'' ''redis client not initialized'', w)
      else
        (let start = he_now h w;
             (result, w') = he_timeout h (from_secs 2) (redis_ping (he_exec h) (he_env h)) w;
             elapsed = since (he_now h w') start;
             latency = latency_ms elapsed
         in (case result of
               Some (Inr u) \<Rightarrow>
                 if elapsed > redis_degraded_after
                 then \<lparr>hs_component = ''redis'', hs_status = degraded_status,
                       hs_message = ''high latency detected'', hs_latency_ms = Some latency\<rparr>
                 else \<lparr>hs_component = ''redis'', hs_status = healthy_status,
                       hs_message = [], hs_latency_ms = Some latency\<rparr>
             | Some (Inl e) \<Rightarrow>
                 \<lparr>hs_component = ''redis'', hs_status = unhealthy_status,
                  hs_message = he_pool_error h e, hs_latency_ms = Some latency\<rparr>
             | None \<Rightarrow>
                 \<lparr>hs_component = ''redis'', hs_status = unhealthy_status,
                  hs_message = ''redis health check timed out'', hs_latency_ms = Some latency\<rparr>, w')))"

definition check_rabbitmq :: "('v, 'x) broker \<Rightarrow> 'v amqp_world option \<Rightarrow> health_status" where
  "check_rabbitmq b rabbitmq =
     (case rabbitmq of
        None \<Rightarrow> unhealthy ''rabbitmq'' ''rabbitmq client not initialized''
      | Some client \<Rightarrow>
          if is_ready b client then healthy ''rabbitmq''
          else \<lparr>hs_component = ''rabbitmq'', hs_status = degraded_status,
                hs_message = ''connection not ready'', hs_latency_ms = None\<rparr>)"

definition check_sentry :: "('w, 'e, 'f) health_env \<Rightarrow> health_status" where
  "check_sentry h =
     (if he_sentry_enabled h then healthy ''sentry''
      else unhealthy ''sentry'' ''sentry client not initialized'')"

definition check_health ::
  "('w, 'e, 'f) health_env \<Rightarrow> ('v, 'x) broker \<Rightarrow> identity \<Rightarrow> bool \<Rightarrow> 'v amqp_world option
     \<Rightarrow> 'w \<Rightarrow> health_check \<times> 'w" where
  "check_health h b ident redis rabbitmq w =
     (let (r, w') = check_redis h redis w;
          checks = [r, check_rabbitmq b rabbitmq, check_sentry h]
      in (\<lparr>hc_app_name = app_name ident, hc_app_env = app_env_raw ident,
           hc_timestamp = he_timestamp h w', hc_overall_status = worst_status (map hs_status checks),
           hc_checks = checks\<rparr>, w'))"

subsection \<open>Pool statistics\<close>

record redis_pool_stats =
  ps_total_conns :: nat
  ps_idle_conns :: nat
  ps_stale_conns :: nat
  ps_hits :: nat
  ps_misses :: nat
  ps_timeouts :: nat

text \<open>The pool is known by its counters in the present world.\<close>

definition redis_pool_stats_of :: "('w, 'e, 'f) health_env \<Rightarrow> bool \<Rightarrow> 'w \<Rightarrow> redis_pool_stats option" where
  "redis_pool_stats_of h redis w =
     (if \<not> redis then None
      else
        let status = pool_status (\<lambda>_. he_pool_status h w) \<lparr>rp_pool = (), rp_locks = ()\<rparr>
        in Some \<lparr>ps_total_conns = rs_total status, ps_idle_conns = rs_idle status,
                 ps_stale_conns = 0, ps_hits = 0, ps_misses = 0, ps_timeouts = 0\<rparr>)"

record 'f redis_metrics =
  rm_pool_stats :: redis_pool_stats
  rm_hit_rate_percent :: 'f
  rm_active_conns :: nat
  rm_pool_utilized_percent :: 'f

text \<open>The subtraction of naturals is \<open>saturating_sub\<close>; \<open>he_ratio\<close> is the quotient in percent.\<close>

definition redis_metrics_detailed ::
  "('w, 'e, 'f) health_env \<Rightarrow> bool \<Rightarrow> 'w \<Rightarrow> 'f redis_metrics option" where
  "redis_metrics_detailed h redis w =
     (case redis_pool_stats_of h redis w of
        None \<Rightarrow> None
      | Some s \<Rightarrow>
          (let active = ps_total_conns s - ps_idle_conns s;
               requests = ps_hits s + ps_misses s
           in Some \<lparr>rm_pool_stats = s,
                    rm_hit_rate_percent = (if requests = 0 then he_zero h else he_ratio h (ps_hits s) requests),
                    rm_active_conns = active,
                    rm_pool_utilized_percent =
                      (if ps_total_conns s = 0 then he_zero h else he_ratio h active (ps_total_conns s))\<rparr>))"

subsection \<open>Properties\<close>

lemmas status_defs = healthy_status_def degraded_status_def unhealthy_status_def

lemma worst_from_eq:
  "worst_from v ss =
     (if unhealthy_status \<in> set ss then unhealthy_status
      else if degraded_status \<in> set ss then degraded_status else v)"
  by (induction ss arbitrary: v) auto

lemma redis_ping_decode:
  "redis_ping exec env w = (Ok u, w') \<longleftrightarrow> (\<exists>reply. exec w (op_timeout env) Ping = (Some (Ok reply), w'))"
  by (auto simp: redis_ping_def bounded_def Let_def split: prod.splits option.splits sum.splits)

lemma default_op_timeout: "env ''REDIS_OP_TIMEOUT_MS'' = None \<Longrightarrow> op_timeout env = from_millis 1000"
  by (simp add: timing_eqs env_i64_def op_timeout_ms_from_def default_op_timeout_ms_def)

lemma check_redis_component: "hs_component (fst (check_redis h redis w)) = ''redis''"
  by (simp add: check_redis_def unhealthy_def Let_def split: prod.split option.split sum.split)

lemma check_redis_healthy:
  "hs_status (fst (check_redis h redis w)) = healthy_status \<longleftrightarrow>
     (case he_timeout h (from_secs 2) (redis_ping (he_exec h) (he_env h)) w of (ping, w2) \<Rightarrow>
        redis \<and> ping = Some (Ok ()) \<and> since (he_now h w2) (he_now h w) \<le> from_millis 1000)"
  by (auto simp: check_redis_def unhealthy_def redis_degraded_after_def Let_def status_defs
      split: prod.splits option.splits sum.splits)

lemma check_redis_known:
  "hs_status (fst (check_redis h redis w)) \<in> {healthy_status, degraded_status, unhealthy_status}"
  by (simp add: check_redis_def unhealthy_def Let_def split: prod.split option.split sum.split)

lemma check_rabbitmq_healthy:
  "hs_status (check_rabbitmq b rabbitmq) \<in> {healthy_status, degraded_status, unhealthy_status} \<and>
   (hs_status (check_rabbitmq b rabbitmq) = healthy_status \<longleftrightarrow>
      (\<exists>client. rabbitmq = Some client \<and> is_ready b client))"
  by (auto simp: check_rabbitmq_def healthy_def unhealthy_def status_defs split: option.split)

lemma check_sentry_healthy:
  "hs_status (check_sentry h) \<in> {healthy_status, degraded_status, unhealthy_status} \<and>
   (hs_status (check_sentry h) = healthy_status \<longleftrightarrow> he_sentry_enabled h)"
  by (auto simp: check_sentry_def healthy_def unhealthy_def status_defs)

lemma worst_of_three:
  "a \<in> {healthy_status, degraded_status, unhealthy_status} \<Longrightarrow>
   b \<in> {healthy_status, degraded_status, unhealthy_status} \<Longrightarrow>
   c \<in> {healthy_status, degraded_status, unhealthy_status} \<Longrightarrow>
   worst_status [a, b, c] = healthy_status \<longleftrightarrow> a = healthy_status \<and> b = healthy_status \<and> c = healthy_status"
  by (auto simp: worst_status_def worst_from_eq status_defs)

text \<open>C38: The overall status is the worst of the three checks, which are reported in a fixed order,
  and it is \<open>healthy\<close> exactly when Redis answered its PING within the two deadlines in at most a
  second, the broker connection is ready and Sentry is enabled.\<close>

theorem check_health_overall:
  "let (report, w') = check_health h b ident redis rabbitmq w; statuses = map hs_status (hc_checks report);
       (ping, w2) = he_timeout h (from_secs 2) (redis_ping (he_exec h) (he_env h)) w in
   map hs_component (hc_checks report) = [''redis'', ''rabbitmq'', ''sentry''] \<and>
   hc_overall_status report =
     (if unhealthy_status \<in> set statuses then unhealthy_status
      else if degraded_status \<in> set statuses then degraded_status else healthy_status) \<and>
   (hc_overall_status report = healthy_status \<longleftrightarrow>
      redis \<and> ping = Some (Ok ()) \<and> since (he_now h w2) (he_now h w) \<le> from_millis 1000 \<and>
      (\<exists>client. rabbitmq = Some client \<and> is_ready b client) \<and> he_sentry_enabled h)"
proof -
  obtain r w' where r: "check_redis h redis w = (r, w')"
    by (metis prod.exhaust)
  obtain ping w2 where p: "he_timeout h (from_secs 2) (redis_ping (he_exec h) (he_env h)) w = (ping, w2)"
    by (metis prod.exhaust)
  have names: "hs_component r = ''redis''"
    "hs_component (check_rabbitmq b rabbitmq) = ''rabbitmq''" "hs_component (check_sentry h) = ''sentry''"
    using arg_cong [OF r, of "\<lambda>x. hs_component (fst x)"]
    by (auto simp: check_redis_component check_rabbitmq_def check_sentry_def healthy_def unhealthy_def
        split: option.splits)
  have ok: "hs_status r = healthy_status \<longleftrightarrow>
      redis \<and> ping = Some (Ok ()) \<and> since (he_now h w2) (he_now h w) \<le> from_millis 1000"
    using check_redis_healthy [of h redis w] by (simp add: r p)
  have "hs_status r \<in> {healthy_status, degraded_status, unhealthy_status}"
    using check_redis_known [of h redis w] by (simp only: r fst_conv)
  then have worst: "worst_status [hs_status r, hs_status (check_rabbitmq b rabbitmq),
      hs_status (check_sentry h)] = healthy_status \<longleftrightarrow>
      redis \<and> ping = Some (Ok ()) \<and> since (he_now h w2) (he_now h w) \<le> from_millis 1000 \<and>
      (\<exists>client. rabbitmq = Some client \<and> is_ready b client) \<and> he_sentry_enabled h"
    using worst_of_three check_rabbitmq_healthy [of b rabbitmq] check_sentry_healthy [of h] ok
    by metis
  have report: "fst (check_health h b ident redis rabbitmq w) =
      \<lparr>hc_app_name = app_name ident, hc_app_env = app_env_raw ident, hc_timestamp = he_timestamp h w',
       hc_overall_status = worst_status [hs_status r, hs_status (check_rabbitmq b rabbitmq),
         hs_status (check_sentry h)],
       hc_checks = [r, check_rabbitmq b rabbitmq, check_sentry h]\<rparr>"
    by (simp add: check_health_def r)
  show ?thesis
    unfolding Let_def p case_prod_beta fst_conv snd_conv report
    by (simp only: health_check.simps list.map names simp_thms)
      (rule conjI [OF _ worst], simp only: worst_status_def worst_from_eq)
qed

text \<open>With the default operation timeout the degraded outcome of the Redis check cannot occur:
  \<open>ping\<close> is itself given up after 1000 ms, so an answer slower than the 1000 ms threshold is a
  timeout and reported unhealthy. Assumed: a bounded command that answers did so within its bound,
  and an outer timeout that did not fire passes the inner result on.\<close>

theorem redis_never_degraded:
  assumes bound: "\<And>w t c r w'. he_exec h w t c = (Some r, w') \<Longrightarrow> he_now h w' \<le> he_now h w + t"
    and outer: "\<And>d f w r w'. he_timeout h d f w = (Some r, w') \<Longrightarrow> f w = (r, w')"
    and unset: "he_env h ''REDIS_OP_TIMEOUT_MS'' = None"
  shows "hs_status (fst (check_redis h redis w)) \<in> {healthy_status, unhealthy_status}"
proof -
  have "since (he_now h w') (he_now h w) \<le> from_millis 1000"
    if "he_timeout h (from_secs 2) (redis_ping (he_exec h) (he_env h)) w = (Some (Ok u), w')" for u w'
  proof -
    from outer [OF that] obtain reply where "he_exec h w (op_timeout (he_env h)) Ping = (Some (Ok reply), w')"
      by (auto simp: redis_ping_decode)
    from bound [OF this] show ?thesis
      by (simp add: default_op_timeout [of "he_env h"] unset since_def)
  qed
  then show ?thesis
    by (fastforce simp: check_redis_def redis_degraded_after_def unhealthy_def Let_def
        split: prod.splits option.splits sum.splits)
qed

definition demo_health :: "(nat, unit, unit) health_env" where
  "demo_health =
     \<lparr>he_env = (\<lambda>k. None), he_exec = (\<lambda>w t c. if t < 3 then (None, w + t) else (Some (Ok Reply_Unit), w + 3)),
      he_now = id, he_timeout = (\<lambda>d f w. let (r, w') = f w in (Some r, w')), he_pool_error = (\<lambda>e. []),
      he_sentry_enabled = True, he_timestamp = (\<lambda>w. []), 
      he_pool_status = (\<lambda>w. \<lparr>ds_max_size = 8, ds_size = 4, ds_available = 1, ds_waiting = 0\<rparr>),
      he_ratio = (\<lambda>m n. ()), he_zero = ()\<rparr>"

theorem redis_never_degraded_witness:
  "hs_status (fst (check_redis demo_health True (5 :: nat))) \<in> {healthy_status, unhealthy_status}"
  by (rule redis_never_degraded)
    (auto simp: demo_health_def split: if_splits prod.splits)

end
