(* ===== verification/PcConfig.thy ===== *)
theory PcConfig
  imports PcCore PcJson
begin

section \<open>pc-config: bootstrap and validation\<close>

text \<open>
  \<open>crates/pc-config/src/lib.rs\<close>. The file system is its \<open>exists\<close> test, the working directory and
  the path of the executable; a path is the text an operator gave or the list of components of an
  absolute path. Loading a file with dotenvy is a function on the environment. The identity is the
  state of pc-core.
\<close>

subsection \<open>Finding the .env file\<close>

datatype path = Given string | Absolute "string list"

definition join_path :: "string list \<Rightarrow> string \<Rightarrow> path" where
  "join_path dir name = Absolute (dir @ [name])"

definition parent_dir :: "string list \<Rightarrow> string list option" where
  "parent_dir dir = (if dir = [] then None else Some (butlast dir))"

record file_system =
  fs_exists :: "path \<Rightarrow> bool"
  fs_current_dir :: "string list option"
  fs_current_exe :: "string list option"

fun operator_path :: "file_system \<Rightarrow> environment \<Rightarrow> string list \<Rightarrow> path option" where
  "operator_path fs env [] = None"
| "operator_path fs env (key # keys) =
     (case env key of
        Some p \<Rightarrow> if p \<noteq> [] \<and> fs_exists fs (Given p) then Some (Given p)
                  else operator_path fs env keys
      | None \<Rightarrow> operator_path fs env keys)"

fun walk_up :: "file_system \<Rightarrow> nat \<Rightarrow> string list \<Rightarrow> path option" where
  "walk_up fs 0 dir = None"
| "walk_up fs (Suc n) dir =
     (case parent_dir dir of
        None \<Rightarrow> None
      | Some parent \<Rightarrow>
          if fs_exists fs (join_path parent ''.env'') then Some (join_path parent ''.env'')
          else walk_up fs n parent)"

fun first_existing :: "file_system \<Rightarrow> path list \<Rightarrow> path option" where
  "first_existing fs [] = None"
| "first_existing fs (p # ps) = (if fs_exists fs p then Some p else first_existing fs ps)"

definition find_env_path :: "file_system \<Rightarrow> environment \<Rightarrow> path option" where
  "find_env_path fs env =
     (case operator_path fs env [''ENV_FILE'', ''DOTENV_PATH''] of
        Some p \<Rightarrow> Some p
      | None \<Rightarrow>
          (case (case fs_current_dir fs of
                   None \<Rightarrow> None
                 | Some wd \<Rightarrow> if fs_exists fs (join_path wd ''.env'') then Some (join_path wd ''.env'')
                              else walk_up fs 5 wd) of
             Some p \<Rightarrow> Some p
           | None \<Rightarrow>
               (case (case Option.bind (fs_current_exe fs) parent_dir of
                        None \<Rightarrow> None
                      | Some dir \<Rightarrow> if fs_exists fs (join_path dir ''.env'')
                                    then Some (join_path dir ''.env'') else None) of
                  Some p \<Rightarrow> Some p
                | None \<Rightarrow> first_existing fs [Absolute [''app'', ''.env''], Absolute [''.env'']])))"

text \<open>\<open>dotenv p\<close> is \<open>dotenvy::from_path\<close>, \<open>dotenv_default\<close> is \<open>dotenvy::dotenv\<close>; their errors are
  ignored.\<close>

definition load_dotenv ::
  "(path \<Rightarrow> environment \<Rightarrow> environment) \<Rightarrow> (environment \<Rightarrow> environment) \<Rightarrow> file_system
     \<Rightarrow> environment \<Rightarrow> environment" where
  "load_dotenv dotenv dotenv_default fs env =
     (case find_env_path fs env of Some p \<Rightarrow> dotenv p env | None \<Rightarrow> dotenv_default env)"

subsection \<open>Findings\<close>

datatype config_level = Level_Warning | Level_Error

fun level_as_str :: "config_level \<Rightarrow> string" where
  "level_as_str Level_Warning = ''warning''"
| "level_as_str Level_Error = ''error''"

record config_error =
  ce_field :: string
  ce_message :: string
  ce_level :: config_level

definition config_error_warn :: "string \<Rightarrow> string \<Rightarrow> config_error" where
  "config_error_warn fld msg = \<lparr>ce_field = fld, ce_message = msg, ce_level = Level_Warning\<rparr>"

definition config_error_json :: "config_error \<Rightarrow> jvalue" where
  "config_error_json e =
     JObj (member ''field'' (JStr (ce_field e)) @ member ''message'' (JStr (ce_message e))
       @ member ''level'' (JStr (level_as_str (ce_level e))))"

definition config_nonempty :: "environment \<Rightarrow> string \<Rightarrow> bool" where
  "config_nonempty env key = (case env key of Some v \<Rightarrow> v \<noteq> [] | None \<Rightarrow> False)"

definition audittrail_key_aliases :: "string list list" where
  "audittrail_key_aliases =
     [[''RABBITMQ_HOST'', ''RQ_HOST''],
      [''RABBITMQ_PORT'', ''RQ_PORT''],
      [''RABBITMQ_VIRTUAL_HOST_AUDITTRAIL'', ''RQ_VHOST''],
      [''RABBITMQ_USERNAME_AUDITTRAIL'', ''RQ_USERNAME''],
      [''RABBITMQ_PASSWORD_AUDITTRAIL'', ''RQ_PASSWORD''],
      [''RABBITMQ_QUEUE_AUDITTRAIL'', ''RQ_QUEUE_AUDITTRAIL'']]"

definition count_configured :: "string list list \<Rightarrow> (string \<Rightarrow> bool) \<Rightarrow> nat" where
  "count_configured aliases present = length (filter (list_ex present) aliases)"

definition quote_mark :: string where
  "quote_mark = [char_of (39 :: nat)]"

definition validated_env :: "environment \<Rightarrow> identity \<Rightarrow> string" where
  "validated_env env ident =
     (case env ''APP_ENV'' of
        Some v \<Rightarrow> if v \<noteq> [] then v else app_env_raw ident
      | None \<Rightarrow> app_env_raw ident)"

definition validate_configuration :: "environment \<Rightarrow> identity \<Rightarrow> config_error list" where
  "validate_configuration env ident =
     (let e1 = (if \<not> config_nonempty env ''APP_NAME''
                then [config_error_warn ''APP_NAME''
                        ''APP_NAME environment variable not set - using empty default''] else []);
          app_env = validated_env env ident;
          e2 = (if app_env = []
                then [config_error_warn ''APP_ENV''
                        ''APP_ENV environment variable not set - using empty default'']
                else if app_env \<notin> {''develop'', ''staging'', ''production''}
                then [config_error_warn ''APP_ENV''
                        (''APP_ENV has unexpected value '' @ quote_mark @ app_env @ quote_mark
                         @ '' (expected: develop, staging, production)'')]
                else []);
          e3 = (if \<not> config_nonempty env ''SENTRY_DSN''
                then [config_error_warn ''SENTRY_DSN'' ''SENTRY_DSN not set - error tracking disabled'']
                else []);
          total = length audittrail_key_aliases;
          configured = count_configured audittrail_key_aliases (config_nonempty env);
          e4 = (if configured > 0 \<and> configured < total
                then [config_error_warn ''RabbitMQ''
                        ''RabbitMQ audit trail partially configured - audit trail may not work'']
                else if configured = 0
                then [config_error_warn ''RabbitMQ''
                        ''RabbitMQ audit trail not configured - audit trail disabled'']
                else [])
      in e1 @ e2 @ e3 @ e4)"

definition initialize_app ::
  "(path \<Rightarrow> environment \<Rightarrow> environment) \<Rightarrow> (environment \<Rightarrow> environment) \<Rightarrow> file_system
     \<Rightarrow> environment \<times> identity \<Rightarrow> (config_error list + unit) \<times> environment \<times> identity" where
  "initialize_app dotenv dotenv_default fs s =
     (let env = load_dotenv dotenv dotenv_default fs (fst s);
          id0 = snd s;
          id1 = (case env ''APP_NAME'' of
                   Some v \<Rightarrow> if v \<noteq> [] then set_app_name v id0 else id0
                 | None \<Rightarrow> id0);
          id2 = (if config_nonempty env ''APP_ENV'' then set_app_env_raw (the (env ''APP_ENV'')) id1
                 else (case env ''APP_MODE'' of
                         Some m \<Rightarrow> if m \<noteq> [] then set_app_env_raw m id1 else id1
                       | None \<Rightarrow> id1));
          findings = validate_configuration env id2
      in (if findings = [] then Ok () else Err findings, env, id2))"

definition configuration_status :: "environment \<Rightarrow> identity \<Rightarrow> jvalue" where
  "configuration_status env ident =
     (let issues = validate_configuration env ident;
          error_count = length (filter (\<lambda>e. ce_level e = Level_Error) issues);
          warning_count = length (filter (\<lambda>e. ce_level e = Level_Warning) issues);
          status = (if 0 < error_count then ''unhealthy''
                    else if 0 < warning_count then ''degraded'' else ''healthy'')
      in JObj [(''status'', JStr status), (''errors'', JInt (int error_count)),
               (''warnings'', JInt (int warning_count)),
               (''issues'', JArr (map config_error_json issues))])"

subsection \<open>Lemmas\<close>

lemma validate_only_warns: "e \<in> set (validate_configuration env ident) \<Longrightarrow> ce_level e = Level_Warning"
  by (auto simp: validate_configuration_def Let_def config_error_warn_def split: if_splits)

lemma filter_warns:
  "filter (\<lambda>e. ce_level e = Level_Error) (validate_configuration env ident) = []"
  "filter (\<lambda>e. ce_level e = Level_Warning) (validate_configuration env ident) =
     validate_configuration env ident"
  by (auto simp: filter_empty_conv filter_id_conv dest: validate_only_warns)

lemma count_configured_le: "count_configured aliases present \<le> length aliases"
  by (simp add: count_configured_def)

lemma count_configured_all:
  "count_configured aliases present = length aliases \<longleftrightarrow> list_all (list_ex present) aliases"
proof (induction aliases)
  case (Cons row rows)
  have "length (filter (list_ex present) rows) \<noteq> Suc (length rows)"
    by (metis Suc_n_not_le_n length_filter_le)
  with Cons show ?case by (auto simp: count_configured_def)
qed (simp add: count_configured_def)

lemma validate_empty_iff:
  "validate_configuration env ident = [] \<longleftrightarrow>
     config_nonempty env ''APP_NAME'' \<and>
     validated_env env ident \<in> {''develop'', ''staging'', ''production''} \<and>
     config_nonempty env ''SENTRY_DSN'' \<and>
     list_all (list_ex (config_nonempty env)) audittrail_key_aliases"
  unfolding count_configured_all [symmetric]
  using count_configured_le [of audittrail_key_aliases "config_nonempty env"]
  by (auto simp: validate_configuration_def Let_def audittrail_key_aliases_def split: if_splits)

lemma first_existing_append:
  "first_existing fs (ps @ qs) =
     (case first_existing fs ps of Some p \<Rightarrow> Some p | None \<Rightarrow> first_existing fs qs)"
  by (induction ps) auto

subsection \<open>Properties\<close>

text \<open>The reference order: every place the search visits.\<close>

definition ancestors :: "nat \<Rightarrow> string list \<Rightarrow> string list list" where
  "ancestors n dir = map (\<lambda>i. take (length dir - i) dir) [1..<Suc (min n (length dir))]"

definition given_paths :: "environment \<Rightarrow> string list \<Rightarrow> path list" where
  "given_paths env keys = map Given (filter (\<lambda>p. p \<noteq> []) (List.map_filter env keys))"

definition env_places :: "file_system \<Rightarrow> environment \<Rightarrow> path list" where
  "env_places fs env =
     given_paths env [''ENV_FILE'', ''DOTENV_PATH''] @
     (case fs_current_dir fs of None \<Rightarrow> [] | Some wd \<Rightarrow> map (\<lambda>d. join_path d ''.env'') (wd # ancestors 5 wd)) @
     (case fs_current_exe fs of None \<Rightarrow> [] | Some [] \<Rightarrow> []
      | Some (c # cs) \<Rightarrow> [join_path (butlast (c # cs)) ''.env'']) @
     [Absolute [''app'', ''.env''], Absolute [''.env'']]"

lemma operator_path_first: "operator_path fs env keys = first_existing fs (given_paths env keys)"
  by (induction keys) (auto simp: given_paths_def map_filter_simps split: option.splits)

lemma ancestors_simps:
  "ancestors 0 dir = []"
  "ancestors n [] = []"
  "ancestors (Suc n) (dir @ [c]) = dir # ancestors n dir"
proof -
  show "ancestors 0 dir = []" "ancestors n [] = []"
    by (simp_all add: ancestors_def)
  have "[1..<Suc (min (Suc n) (length (dir @ [c])))] =
      Suc 0 # map Suc [1..<Suc (min n (length dir))]"
    by (simp add: map_Suc_upt upt_conv_Cons del: upt_Suc)
  then show "ancestors (Suc n) (dir @ [c]) = dir # ancestors n dir"
    by (simp add: ancestors_def del: upt_Suc)
qed

lemma walk_up_first: "walk_up fs n dir = first_existing fs (map (\<lambda>d. join_path d ''.env'') (ancestors n dir))"
proof (induction n arbitrary: dir)
  case (Suc n)
  show ?case
    by (cases dir rule: rev_cases) (simp_all add: parent_dir_def ancestors_simps Suc)
qed (simp add: ancestors_simps)

text \<open>\<open>find_env_path\<close> returns the first existing file of one fixed order: the operator's two
  variables, the working directory, up to five of its ancestors nearest first, the directory of the
  executable, \<open>/app/.env\<close> and \<open>/.env\<close>; and None only when none of them exists.\<close>

theorem find_env_path_order: "find_env_path fs env = first_existing fs (env_places fs env)"
  by (auto simp: find_env_path_def env_places_def operator_path_first walk_up_first
      first_existing_append parent_dir_def split: option.splits list.splits)

text \<open>After \<open>initialize_app\<close> the identity holds the loaded \<open>APP_NAME\<close> and the first non-empty of
  \<open>APP_ENV\<close> and \<open>APP_MODE\<close>, keeping what it held where neither is set, and the call returns \<open>Ok\<close>
  exactly when the name and the Sentry DSN are set, the environment is one of the three accepted
  names and each of the six audit-trail settings has one of its two spellings.\<close>

theorem initialize_app_outcome:
  "let (result, env, ident) = initialize_app dotenv dotenv_default fs (env0, ident0);
       pick = (\<lambda>key old. if config_nonempty env key then the (env key) else old) in
   env = load_dotenv dotenv dotenv_default fs env0 \<and>
   app_name ident = pick ''APP_NAME'' (app_name ident0) \<and>
   app_env_raw ident = pick ''APP_ENV'' (pick ''APP_MODE'' (app_env_raw ident0)) \<and>
   (result = Ok () \<longleftrightarrow>
      config_nonempty env ''APP_NAME'' \<and> config_nonempty env ''SENTRY_DSN'' \<and>
      app_env_raw ident \<in> {''develop'', ''staging'', ''production''} \<and>
      list_all (list_ex (config_nonempty env)) audittrail_key_aliases)"
proof -
  obtain env where env: "load_dotenv dotenv dotenv_default fs env0 = env"
    by simp
  show ?thesis
    by (cases "env ''APP_NAME''"; cases "env ''APP_ENV''"; cases "env ''APP_MODE''")
      (simp_all add: initialize_app_def env Let_def validate_empty_iff config_nonempty_def
        validated_env_def)
qed

text \<open>The status summary counts every finding as a warning: it is \<open>healthy\<close> exactly when
  validation is clean and \<open>degraded\<close> otherwise, and the \<open>unhealthy\<close> outcome with its error count
  that the code computes is never reached.\<close>

theorem configuration_status_levels:
  "field_of ''errors'' (configuration_status env ident) = Some (JInt 0) \<and>
   field_of ''warnings'' (configuration_status env ident) =
     Some (JInt (int (length (validate_configuration env ident)))) \<and>
   field_of ''status'' (configuration_status env ident) =
     Some (JStr (if validate_configuration env ident = [] then ''healthy'' else ''degraded''))"
  by (simp add: configuration_status_def filter_warns Let_def)

text \<open>An environment name that validation accepts is one \<open>AppEnv::parse\<close> knows, and is the
  canonical text of what it is parsed to; the aliases \<open>dev\<close>, \<open>developement\<close>, \<open>stg\<close> and \<open>prod\<close>, which
  the parser takes too, are reported as unexpected.\<close>

theorem accepted_environments:
  "(validated_env env ident \<in> {''develop'', ''staging'', ''production''} \<longleftrightarrow>
     (\<exists>e. app_env_parse (validated_env env ident) = Some e \<and>
       app_env_as_str e = validated_env env ident)) \<and>
   (\<exists>e. app_env_parse ''prod'' = Some e) \<and>
   validate_configuration (\<lambda>k. Some (if k = ''APP_ENV'' then ''prod'' else ''set'')) ident =
     [config_error_warn ''APP_ENV'' (''APP_ENV has unexpected value '' @ quote_mark @ ''prod'' @ quote_mark
        @ '' (expected: develop, staging, production)'')]"
proof -
  have "list_all (list_ex (config_nonempty (\<lambda>k. Some (if k = ''APP_ENV'' then ''prod'' else ''set''))))
      audittrail_key_aliases"
    by (simp add: audittrail_key_aliases_def config_nonempty_def)
  then have "count_configured audittrail_key_aliases
      (config_nonempty (\<lambda>k. Some (if k = ''APP_ENV'' then ''prod'' else ''set''))) = 6"
    unfolding count_configured_all [symmetric] by (simp add: audittrail_key_aliases_def)
  then show ?thesis
    by (auto simp: app_env_parse_def validate_configuration_def config_nonempty_def validated_env_def
        audittrail_key_aliases_def Let_def)
qed

end
