(* ===== verification/PcHttp.thy ===== *)
theory PcHttp
  imports PcText PcJson
begin

section \<open>pc-validate and pc-http: field rules, the response envelope, the base router\<close>

text \<open>
  \<open>crates/pc-validate/src/lib.rs\<close> and \<open>crates/pc-http/src/lib.rs\<close>. The two anchored patterns of
  pc-validate are the predicates they denote on ASCII classes. A service is a function of the
  request and the world it runs in; the layers of tower-http and the path router of axum are
  the fields of \<open>http_layers\<close>. A header map is a list of name and value, read at its first
  entry; only the order of names is not modelled. JSON bodies are values, not text.
\<close>

subsection \<open>pc-validate\<close>

definition key_char :: "char \<Rightarrow> bool" where
  "key_char b \<longleftrightarrow> is_digit b \<or> 65 \<le> code b \<and> code b \<le> 90 \<or> 97 \<le> code b \<and> code b \<le> 122
     \<or> b = CHR ''-'' \<or> b = CHR ''_''"

definition matches_numeric :: "string \<Rightarrow> bool" where
  "matches_numeric s =
     (let d = (case s of [] \<Rightarrow> s | b # r \<Rightarrow> if b = CHR ''-'' then r else s)
      in d \<noteq> [] \<and> list_all is_digit d)"

definition matches_key :: "string \<Rightarrow> bool" where
  "matches_key s \<longleftrightarrow> s \<noteq> [] \<and> list_all key_char s"

definition numeric_null_libs :: "string \<Rightarrow> bool" where
  "numeric_null_libs s \<longleftrightarrow> s = [] \<or> matches_numeric s"

definition char_libs :: "string \<Rightarrow> bool" where
  "char_libs s \<longleftrightarrow> s = [] \<or> matches_key s"

subsection \<open>The envelope\<close>

record 'a response_api =
  ra_code :: nat
  ra_status :: string
  ra_message :: string
  ra_internal_code :: string
  ra_data :: "'a option"

definition response_api_json :: "('a \<Rightarrow> jvalue) \<Rightarrow> 'a response_api \<Rightarrow> jvalue" where
  "response_api_json enc r =
     JObj (member ''code'' (JInt (int (ra_code r))) @ member ''status'' (JStr (ra_status r))
       @ member ''message'' (JStr (ra_message r)) @ skip_empty ''internal_code'' (ra_internal_code r)
       @ skip_none ''data'' (map_option enc (ra_data r)))"

definition success :: "string \<Rightarrow> 'a \<Rightarrow> 'a response_api" where
  "success msg d = \<lparr>ra_code = 200, ra_status = ''success'', ra_message = msg,
     ra_internal_code = [], ra_data = Some d\<rparr>"

definition accepted :: "unit response_api" where
  "accepted = \<lparr>ra_code = 202, ra_status = ''accepted'', ra_message = ''your request in process'',
     ra_internal_code = [], ra_data = None\<rparr>"

definition bad_request :: "string \<Rightarrow> string \<Rightarrow> unit response_api" where
  "bad_request msg internal = \<lparr>ra_code = 400, ra_status = ''bad request'', ra_message = msg,
     ra_internal_code = internal, ra_data = None\<rparr>"

definition unauthorized :: "string \<Rightarrow> unit response_api" where
  "unauthorized msg = \<lparr>ra_code = 401, ra_status = ''unauthorized'', ra_message = msg,
     ra_internal_code = [], ra_data = None\<rparr>"

definition internal_error :: "string \<Rightarrow> unit response_api" where
  "internal_error msg = \<lparr>ra_code = 500, ra_status = ''internal server error'', ra_message = msg,
     ra_internal_code = [], ra_data = None\<rparr>"

subsection \<open>Requests, responses, services\<close>

type_synonym header_map = "(string \<times> string) list"

definition header_get :: "string \<Rightarrow> header_map \<Rightarrow> string option" where
  "header_get name h = map_of h name"

definition header_insert :: "string \<Rightarrow> string \<Rightarrow> header_map \<Rightarrow> header_map" where
  "header_insert name v h = (name, v) # filter (\<lambda>e. fst e \<noteq> name) h"

lemma header_get_insert [simp]:
  "header_get n (header_insert name v h) = (if n = name then Some v else header_get n h)"
  by (induction h) (auto simp: header_get_def header_insert_def)

datatype http_method = GET | POST | PUT | PATCH | OTHER_METHOD string

record 'b http_request =
  rq_method :: http_method
  rq_path :: string
  rq_headers :: header_map
  rq_body :: 'b

datatype http_body = Json_Body jvalue | Text_Body string

record http_response =
  rs_code :: nat
  rs_headers :: header_map
  rs_body :: http_body

type_synonym ('b, 'w) service = "'b http_request \<Rightarrow> 'w \<Rightarrow> http_response \<times> 'w"

text \<open>\<open>HeaderValue::to_str\<close> and \<open>HeaderValue::from_str\<close>: visible ASCII and tab; the latter also
  takes the bytes from 128 on.\<close>

definition visible :: "char \<Rightarrow> bool" where
  "visible b \<longleftrightarrow> 32 \<le> code b \<and> code b < 127 \<or> code b = 9"

definition to_str :: "string \<Rightarrow> string option" where
  "to_str v = (if list_all visible v then Some v else None)"

definition header_value :: "string \<Rightarrow> string option" where
  "header_value v = (if list_all (\<lambda>b. visible b \<or> 128 \<le> code b) v then Some v else None)"

text \<open>\<open>StatusCode::from_u16\<close> takes 100 to 999.\<close>

definition into_response :: "('a \<Rightarrow> jvalue) \<Rightarrow> 'a response_api \<Rightarrow> http_response" where
  "into_response enc r =
     \<lparr>rs_code = (if 100 \<le> ra_code r \<and> ra_code r < 1000 then ra_code r else 500),
      rs_headers = [(''content-type'', ''application/json'')],
      rs_body = Json_Body (response_api_json enc r)\<rparr>"

definition no_data :: "unit \<Rightarrow> jvalue" where
  "no_data u = JNull"

lemma into_response_code [simp]:
  "rs_code (into_response enc (bad_request m i)) = 400"
  "rs_code (into_response enc (unauthorized m)) = 401"
  "rs_code (into_response enc (internal_error m)) = 500"
  "rs_code (into_response enc' accepted) = 202"
  "rs_code (into_response enc'' (success m d)) = 200"
  by (simp_all add: into_response_def bad_request_def unauthorized_def internal_error_def
      accepted_def success_def)

subsection \<open>Request ids\<close>

text \<open>\<open>hex\<close> is \<open>hex::encode\<close> and \<open>random\<close> the sixteen bytes \<open>rand::random\<close> draws.\<close>

definition generate_request_id :: "(bytes \<Rightarrow> string) \<Rightarrow> bytes \<Rightarrow> string" where
  "generate_request_id hex random = hex random"

definition get_or_generate_request_id ::
  "(bytes \<Rightarrow> string) \<Rightarrow> bytes \<Rightarrow> string option \<Rightarrow> string" where
  "get_or_generate_request_id hex random h =
     (case h of
        Some v \<Rightarrow> if v \<noteq> [] then v else generate_request_id hex random
      | None \<Rightarrow> generate_request_id hex random)"

definition make_request_id :: "(bytes \<Rightarrow> string) \<Rightarrow> bytes \<Rightarrow> string option" where
  "make_request_id hex random = header_value (generate_request_id hex random)"

subsection \<open>The content-type guard\<close>

definition unsupported_media_type :: "unit response_api" where
  "unsupported_media_type = \<lparr>ra_code = 415, ra_status = ''unsupported media type'',
     ra_message = ''content-type must be application/json'', ra_internal_code = [], ra_data = None\<rparr>"

definition json_content :: "header_map \<Rightarrow> bool" where
  "json_content h \<longleftrightarrow>
     (case header_get ''content-type'' h of
        None \<Rightarrow> False
      | Some v \<Rightarrow>
          (case to_str v of
             None \<Rightarrow> False
           | Some ct \<Rightarrow> starts_with (trim_start ct) ''application/json''))"

fun carries_body :: "http_method \<Rightarrow> bool" where
  "carries_body POST = True"
| "carries_body PUT = True"
| "carries_body PATCH = True"
| "carries_body GET = False"
| "carries_body (OTHER_METHOD m) = False"

definition content_type_guard :: "('b, 'w) service \<Rightarrow> ('b, 'w) service" where
  "content_type_guard next rq w =
     (if carries_body (rq_method rq) \<and> \<not> json_content (rq_headers rq)
      then (into_response no_data unsupported_media_type, w)
      else next rq w)"

subsection \<open>The base router\<close>

definition health_ok :: "('b, 'w) service" where
  "health_ok rq w = (\<lparr>rs_code = 200, rs_headers = [(''content-type'', ''text/plain; charset=utf-8'')],
     rs_body = Text_Body ''ok''\<rparr>, w)"

definition metrics :: "('b, 'w) service" where
  "metrics rq w = (\<lparr>rs_code = 200, rs_headers = [(''content-type'', ''text/plain; version=0.0.4'')],
     rs_body = Text_Body (''# pc-http metrics placeholder'' @ [newline])\<rparr>, w)"

record ('b, 'w) http_layers =
  hl_routes :: "(string \<times> ('b, 'w) service) list \<Rightarrow> ('b, 'w) service"
  hl_trace :: "('b, 'w) service \<Rightarrow> ('b, 'w) service"
  hl_propagate :: "('b, 'w) service \<Rightarrow> ('b, 'w) service"
  hl_set_request_id :: "('b, 'w) service \<Rightarrow> ('b, 'w) service"
  hl_if_not_present :: "string \<Rightarrow> string \<Rightarrow> ('b, 'w) service \<Rightarrow> ('b, 'w) service"
  hl_timeout :: "nat \<Rightarrow> duration \<Rightarrow> ('b, 'w) service \<Rightarrow> ('b, 'w) service"
  hl_body_limit :: "nat \<Rightarrow> ('b, 'w) service \<Rightarrow> ('b, 'w) service"

definition single_quote :: char where
  "single_quote = char_of (39 :: nat)"

definition base_routes :: "(string \<times> ('b, 'w) service) list" where
  "base_routes =
     [(''/health'', health_ok), (''/healthz'', health_ok), (''/readyz'', health_ok),
      (''/livez'', health_ok), (''/metrics'', metrics)]"

text \<open>\<open>Router::layer\<close> wraps what is there, so the layer added last sees a request first.\<close>

definition base_router :: "('b, 'w) http_layers \<Rightarrow> ('b, 'w) service" where
  "base_router l =
     (let s = hl_routes l base_routes;
          s = hl_trace l s;
          s = hl_propagate l s;
          s = hl_set_request_id l s;
          s = hl_if_not_present l ''x-content-type-options'' ''nosniff'' s;
          s = hl_if_not_present l ''x-frame-options'' ''DENY'' s;
          s = hl_if_not_present l ''x-xss-protection'' ''1; mode=block'' s;
          s = hl_if_not_present l ''strict-transport-security'' ''max-age=31536000'' s;
          s = hl_if_not_present l ''content-security-policy'' (''default-src '' @ [single_quote] @ ''self'' @ [single_quote]) s;
          s = hl_timeout l 408 (from_secs 30) s;
          s = hl_body_limit l (2 * 1024 * 1024) s
      in content_type_guard s)"

subsection \<open>Serving and shutting down\<close>

text \<open>
  On Unix. What the process sees is the list of events since the server began to listen; a future
  resolves after some number of them or never. \<open>ctrl_c\<close> resolves at the first SIGINT, and at once
  where its handler cannot be installed, since its result is dropped; the SIGTERM branch never
  resolves where its handler cannot be installed. \<open>tokio::select!\<close> takes the one that resolves
  first. Binding, accepting and draining belong to tokio and axum: \<open>bind\<close> is what binding the
  address gave and \<open>run\<close> serves on the listener until the shutdown future resolves.
\<close>

datatype process_event = Sigint | Sigterm | Other_Event

fun first_at :: "process_event \<Rightarrow> process_event list \<Rightarrow> nat option" where
  "first_at e [] = None"
| "first_at e (x # xs) = (if x = e then Some 1 else map_option Suc (first_at e xs))"

definition select_first :: "nat option \<Rightarrow> nat option \<Rightarrow> nat option" where
  "select_first a b =
     (case a of None \<Rightarrow> b | Some m \<Rightarrow> (case b of None \<Rightarrow> Some m | Some n \<Rightarrow> Some (min m n)))"

definition shutdown_signal :: "bool \<Rightarrow> bool \<Rightarrow> process_event list \<Rightarrow> nat option" where
  "shutdown_signal ctrl_c_installed terminate_installed events =
     select_first (if ctrl_c_installed then first_at Sigint events else Some 0)
       (if terminate_installed then first_at Sigterm events else None)"

definition serve_with_graceful_shutdown ::
  "('x + 'l) \<Rightarrow> ('l \<Rightarrow> nat option \<Rightarrow> 'x + unit) \<Rightarrow> bool \<Rightarrow> bool \<Rightarrow> process_event list \<Rightarrow> 'x + unit" where
  "serve_with_graceful_shutdown bind run ctrl_c_installed terminate_installed events =
     and_then bind (\<lambda>listener.
     and_then (run listener (shutdown_signal ctrl_c_installed terminate_installed events)) (\<lambda>_. Ok ()))"

lemma select_first_Suc:
  "select_first (map_option Suc a) (map_option Suc b) = map_option Suc (select_first a b)"
  by (simp add: select_first_def split: option.split)

lemma shutdown_signal_Cons:
  "shutdown_signal True True (e # events) =
     (if e = Other_Event then map_option Suc (shutdown_signal True True events) else Some 1)"
  by (cases e) (auto simp: shutdown_signal_def select_first_Suc select_first_def split: option.split)

text \<open>With both handlers in place the server is asked to stop at the first of the two signals, and
  only then; without the handler of SIGINT it is asked to stop before it has served anything.\<close>

lemma shutdown_at_first_signal:
  "shutdown_signal True True events = Some n \<longleftrightarrow>
     0 < n \<and> n \<le> length events \<and> events ! (n - 1) \<noteq> Other_Event \<and>
     (\<forall>e\<in>set (take (n - 1) events). e = Other_Event)"
proof (induction events arbitrary: n)
  case Nil
  show ?case by (auto simp: shutdown_signal_def select_first_def)
next
  case (Cons e events)
  show ?case
  proof (cases "e = Other_Event")
    case True
    with Cons [of "n - 1"] show ?thesis
      by (cases n; cases "n - 1") (auto simp: shutdown_signal_Cons nth_Cons')
  next
    case False
    then show ?thesis
      by (cases n; cases "n - 1") (auto simp: shutdown_signal_Cons)
  qed
qed

lemma shutdown_without_sigint_handler:
  "shutdown_signal False terminate_installed events = Some 0"
  by (simp add: shutdown_signal_def select_first_def split: option.split)

subsection \<open>Properties\<close>

text \<open>The headers of the hardened responses and their values.\<close>

definition secure_headers :: "(string \<times> string) list" where
  "secure_headers =
     [(''x-content-type-options'', ''nosniff''), (''x-frame-options'', ''DENY''),
      (''x-xss-protection'', ''1; mode=block''), (''strict-transport-security'', ''max-age=31536000''),
      (''content-security-policy'', ''default-src '' @ [single_quote] @ ''self'' @ [single_quote])]"

definition inner_stack :: "('b, 'w) http_layers \<Rightarrow> ('b, 'w) service" where
  "inner_stack l = hl_set_request_id l (hl_propagate l (hl_trace l (hl_routes l base_routes)))"

definition rejected_by_guard :: "'b http_request \<Rightarrow> bool" where
  "rejected_by_guard rq \<longleftrightarrow> carries_body (rq_method rq) \<and> \<not> json_content (rq_headers rq)"

text \<open>C37: The hardening of the base router and where it stops.  A POST, PUT or PATCH whose content
  type does not start with \<open>application/json\<close> is answered 415 before any layer or handler runs, with
  no header but the content type: no request id and none of the secure headers.  Every other
  response either comes from the timeout (408) or body-limit (413) layer, which are outside the
  header layers too, or carries all five secure headers, each with the configured value unless the
  layers below set one.  The hypotheses are what tower-http documents of its layers.\<close>

theorem router_secure_headers:
  assumes if_not_present: "\<And>name v s rq w n.
      header_get n (rs_headers (fst (hl_if_not_present l name v s rq w))) =
        (case header_get n (rs_headers (fst (s rq w))) of
           Some u \<Rightarrow> Some u | None \<Rightarrow> if n = name then Some v else None)"
    and timeout: "\<And>d s rq w.
      hl_timeout l 408 d s rq w = s rq w \<or> rs_code (fst (hl_timeout l 408 d s rq w)) = 408"
    and limit: "\<And>n s rq w.
      (\<exists>rq'. hl_body_limit l n s rq w = s rq' w) \<or> rs_code (fst (hl_body_limit l n s rq w)) = 413"
  shows "if rejected_by_guard rq
    then base_router l rq w = (into_response no_data unsupported_media_type, w) \<and>
      (\<forall>name. name \<noteq> ''content-type'' \<longrightarrow>
         header_get name (rs_headers (fst (base_router l rq w))) = None)
    else rs_code (fst (base_router l rq w)) \<in> {408, 413} \<or>
      (\<exists>rq'. \<forall>(name, v)\<in>set secure_headers.
         header_get name (rs_headers (fst (base_router l rq w))) =
           Some (unwrap_or (header_get name (rs_headers (fst (inner_stack l rq' w)))) v))"
proof (cases "rejected_by_guard rq")
  case True
  then show ?thesis
    by (simp add: base_router_def content_type_guard_def rejected_by_guard_def into_response_def
        header_get_def Let_def)
next
  case False
  let ?stack = "foldl (\<lambda>s (name, v). hl_if_not_present l name v s) (inner_stack l) secure_headers"
  have stack: "\<forall>(name, v)\<in>set secure_headers. \<forall>rq'.
      header_get name (rs_headers (fst (?stack rq' w))) =
        Some (unwrap_or (header_get name (rs_headers (fst (inner_stack l rq' w)))) v)"
    by (simp add: secure_headers_def if_not_present unwrap_or_def split: option.split)
  have router: "base_router l rq w =
      hl_body_limit l (2 * 1024 * 1024) (hl_timeout l 408 (from_secs 30) ?stack) rq w"
    using False
    by (auto simp: base_router_def content_type_guard_def rejected_by_guard_def secure_headers_def
        inner_stack_def Let_def)
  have "rs_code (fst (base_router l rq w)) \<in> {408, 413} \<or> (\<exists>rq'. base_router l rq w = ?stack rq' w)"
    unfolding router
    using limit [of "2 * 1024 * 1024" "hl_timeout l 408 (from_secs 30) ?stack" rq w]
      timeout [of "from_secs 30" ?stack _ w] by (metis insert_iff)
  with stack have "rs_code (fst (base_router l rq w)) \<in> {408, 413} \<or>
      (\<exists>rq'. \<forall>(name, v)\<in>set secure_headers.
         header_get name (rs_headers (fst (base_router l rq w))) =
           Some (unwrap_or (header_get name (rs_headers (fst (inner_stack l rq' w)))) v))"
    by (elim disjE exE) (auto simp: case_prod_unfold)
  with False show ?thesis by simp
qed

text \<open>Layers that do nothing but what is documented of them, on a request without a body.\<close>

definition plain_layers :: "(unit, nat) http_layers" where
  "plain_layers =
     \<lparr>hl_routes = (\<lambda>routes rq w. case map_of routes (rq_path rq) of
         Some s \<Rightarrow> s rq (w + 1)
       | None \<Rightarrow> (\<lparr>rs_code = 404, rs_headers = [], rs_body = Text_Body []\<rparr>, w)),
      hl_trace = (\<lambda>s. s), hl_propagate = (\<lambda>s. s), hl_set_request_id = (\<lambda>s. s),
      hl_if_not_present = (\<lambda>name v s rq w. case s rq w of (r, w') \<Rightarrow>
         (if header_get name (rs_headers r) = None
          then r\<lparr>rs_headers := header_insert name v (rs_headers r)\<rparr> else r, w')),
      hl_timeout = (\<lambda>code d s. s), hl_body_limit = (\<lambda>n s. s)\<rparr>"

lemma plain_if_not_present:
  "header_get n (rs_headers (fst (hl_if_not_present plain_layers name v s rq w))) =
     (case header_get n (rs_headers (fst (s rq w))) of
        Some u \<Rightarrow> Some u | None \<Rightarrow> if n = name then Some v else None)"
  by (auto simp: plain_layers_def split: prod.split option.split)

lemma plain_timeout:
  "hl_timeout plain_layers 408 d s rq w = s rq w \<or>
     rs_code (fst (hl_timeout plain_layers 408 d s rq w)) = 408"
  by (simp add: plain_layers_def)

lemma plain_body_limit:
  "(\<exists>rq'. hl_body_limit plain_layers n s rq w = s rq' w) \<or>
     rs_code (fst (hl_body_limit plain_layers n s rq w)) = 413"
  by (auto simp: plain_layers_def)

lemma router_secure_headers_witness:
  "base_router plain_layers
     \<lparr>rq_method = POST, rq_path = ''/health'', rq_headers = [], rq_body = ()\<rparr> 0 =
   (into_response no_data unsupported_media_type, 0)"
proof -
  let ?rq = "\<lparr>rq_method = POST, rq_path = ''/health'', rq_headers = [], rq_body = ()\<rparr>"
  have "rejected_by_guard ?rq"
    by (simp add: rejected_by_guard_def json_content_def header_get_def)
  with router_secure_headers [OF plain_if_not_present plain_timeout plain_body_limit, of ?rq 0]
  show ?thesis by simp
qed

end
