(* ===== verification/PcSnapbi.thy ===== *)
theory PcSnapbi
  imports PcJsonCompact
begin

section \<open>pc-snapbi: signatures, AES envelope, JWT\<close>

text \<open>
  \<open>crates/pc-snapbi/src/lib.rs\<close>. The primitives (SHA-256, HMAC-SHA512, hex, base64, RSA,
  AES-GCM, the JWT decoder, the JSON gate) are code of other crates: the fields of
  \<open>crypto\<close>. What is documented of them and used is stated as hypotheses of the properties
  (\<open>base64_ok\<close>, \<open>hex_ok\<close>, \<open>aead_ok\<close>). \<open>ct_eq\<close> decides equality of byte slices.
\<close>

subsection \<open>The primitives\<close>

text \<open>The decoder of JWTs parses keys of its own, from either PEM form, and is told what to check:
  of its \<open>Validation\<close>, these are the settings the code decides on.\<close>

record jwt_validation =
  va_algorithms :: "string list"
  va_validate_exp :: bool
  va_validate_aud :: bool
  va_required_spec_claims :: "string set"

record ('priv, 'pub, 'dk, 'x, 'c) crypto =
  cr_gate :: "bytes \<Rightarrow> string option"
  cr_sha256 :: "bytes \<Rightarrow> bytes"
  cr_hex :: "bytes \<Rightarrow> string"
  cr_hmac_sha512 :: "bytes \<Rightarrow> bytes \<Rightarrow> bytes"
  cr_b64_encode :: "bytes \<Rightarrow> string"
  cr_b64_decode :: "string \<Rightarrow> 'x + bytes"
  cr_private_pem :: "string \<Rightarrow> 'x + 'priv"
  cr_public_pem :: "string \<Rightarrow> 'x + 'pub"
  cr_rsa_sign :: "'priv \<Rightarrow> bytes \<Rightarrow> bytes"
  cr_rsa_sig_form :: "bytes \<Rightarrow> bool"
  cr_rsa_verify :: "'pub \<Rightarrow> bytes \<Rightarrow> bytes \<Rightarrow> bool"
  cr_aead_seal :: "bytes \<Rightarrow> bytes \<Rightarrow> bytes \<Rightarrow> 'x + bytes"
  cr_aead_open :: "bytes \<Rightarrow> bytes \<Rightarrow> bytes \<Rightarrow> 'x + bytes"
  cr_utf8 :: "bytes \<Rightarrow> bool"
  cr_decoding_key :: "string \<Rightarrow> 'x + 'dk"
  cr_jwt_decode :: "string \<Rightarrow> 'dk \<Rightarrow> jwt_validation \<Rightarrow> 'x + 'c"

definition base64_ok :: "('priv, 'pub, 'dk, 'x, 'c) crypto \<Rightarrow> bool" where
  "base64_ok c \<longleftrightarrow> (\<forall>b. cr_b64_decode c (cr_b64_encode c b) = Ok b)"

definition hex_ok :: "('priv, 'pub, 'dk, 'x, 'c) crypto \<Rightarrow> bool" where
  "hex_ok c \<longleftrightarrow> (\<forall>b. CHR '':'' \<notin> set (cr_hex c b) \<and> CHR ''|'' \<notin> set (cr_hex c b)) \<and> inj (cr_hex c)"

definition aead_ok :: "('priv, 'pub, 'dk, 'x, 'c) crypto \<Rightarrow> bool" where
  "aead_ok c \<longleftrightarrow>
     (\<forall>k n p s. cr_aead_seal c k n p = Ok s \<longrightarrow> cr_aead_open c k n s = Ok p)"

subsection \<open>Symmetric signatures\<close>

record sign_request =
  sr_method :: string
  sr_url :: string
  sr_token :: string
  sr_body :: bytes
  sr_ts :: string

text \<open>\<open>json_minify(body).unwrap_or_default()\<close> and the hash over it.\<close>

definition minified_body :: "('priv, 'pub, 'dk, 'x, 'c) crypto \<Rightarrow> bytes \<Rightarrow> bytes" where
  "minified_body c body = (case json_minify (cr_gate c) body of Inr m \<Rightarrow> m | Inl e \<Rightarrow> [])"

definition body_hash :: "('priv, 'pub, 'dk, 'x, 'c) crypto \<Rightarrow> bytes \<Rightarrow> string" where
  "body_hash c body = cr_hex c (cr_sha256 c (minified_body c body))"

definition symmetric_string_to_sign ::
  "('priv, 'pub, 'dk, 'x, 'c) crypto \<Rightarrow> sign_request \<Rightarrow> string" where
  "symmetric_string_to_sign c r =
     sr_method r @ '':'' @ sr_url r @ '':'' @ sr_token r @ '':'' @ body_hash c (sr_body r) @ '':'' @ sr_ts r"

definition symmetric_string_to_sign_v2 ::
  "('priv, 'pub, 'dk, 'x, 'c) crypto \<Rightarrow> sign_request \<Rightarrow> string" where
  "symmetric_string_to_sign_v2 c r =
     sr_method r @ ''|'' @ sr_url r @ ''|'' @ sr_token r @ ''|'' @ body_hash c (sr_body r) @ ''|'' @ sr_ts r"

definition symmetric_sign ::
  "('priv, 'pub, 'dk, 'x, 'c) crypto \<Rightarrow> bytes \<Rightarrow> sign_request \<Rightarrow> string" where
  "symmetric_sign c secret r =
     cr_b64_encode c (cr_hmac_sha512 c secret (symmetric_string_to_sign c r))"

definition symmetric_sign_v2 ::
  "('priv, 'pub, 'dk, 'x, 'c) crypto \<Rightarrow> bytes \<Rightarrow> sign_request \<Rightarrow> string" where
  "symmetric_sign_v2 c secret r =
     cr_b64_encode c (cr_hmac_sha512 c secret (symmetric_string_to_sign_v2 c r))"

definition symmetric_verify ::
  "('priv, 'pub, 'dk, 'x, 'c) crypto \<Rightarrow> bytes \<Rightarrow> sign_request \<Rightarrow> string \<Rightarrow> bool" where
  "symmetric_verify c secret r sig_b64 =
     (let expected = cr_hmac_sha512 c secret (symmetric_string_to_sign c r) in
      case cr_b64_decode c sig_b64 of
        Inl e \<Rightarrow> False
      | Inr provided \<Rightarrow> expected = provided)"

definition symmetric_verify_v2 ::
  "('priv, 'pub, 'dk, 'x, 'c) crypto \<Rightarrow> bytes \<Rightarrow> sign_request \<Rightarrow> string \<Rightarrow> bool" where
  "symmetric_verify_v2 c secret r sig_b64 =
     (let expected = cr_hmac_sha512 c secret (symmetric_string_to_sign_v2 c r) in
      case cr_b64_decode c sig_b64 of
        Inl e \<Rightarrow> False
      | Inr provided \<Rightarrow> expected = provided)"

text \<open>What a client relies on, for either separator: a request is signed and verified through
  one string, which depends on the body only through its hash.\<close>

locale mac_scheme =
  fixes c :: "('priv, 'pub, 'dk, 'x, 'c) crypto"
    and sts :: "sign_request \<Rightarrow> string"
    and sign :: "bytes \<Rightarrow> sign_request \<Rightarrow> string"
    and verify :: "bytes \<Rightarrow> sign_request \<Rightarrow> string \<Rightarrow> bool"
  assumes sign_sts: "sign k r = cr_b64_encode c (cr_hmac_sha512 c k (sts r))"
    and verify_sts: "verify k r s \<longleftrightarrow> cr_b64_decode c s = Ok (cr_hmac_sha512 c k (sts r))"
    and sts_body: "minified_body c b = minified_body c b' \<Longrightarrow>
      sts (r\<lparr>sr_body := b\<rparr>) = sts (r\<lparr>sr_body := b'\<rparr>)"
begin

lemma accepts_own: "base64_ok c \<Longrightarrow> verify k r (sign k r)"
  by (simp add: base64_ok_def sign_sts verify_sts)

lemma verify_iff_mac:
  "base64_ok c \<Longrightarrow>
     verify k' r' (sign k r) \<longleftrightarrow> cr_hmac_sha512 c k' (sts r') = cr_hmac_sha512 c k (sts r)"
  by (auto simp: base64_ok_def sign_sts verify_sts)

lemma same_minified:
  assumes "minified_body c b = minified_body c b'"
  shows "sign k (r\<lparr>sr_body := b\<rparr>) = sign k (r\<lparr>sr_body := b'\<rparr>) \<and>
    verify k (r\<lparr>sr_body := b\<rparr>) s = verify k (r\<lparr>sr_body := b'\<rparr>) s"
  unfolding sign_sts verify_sts sts_body [OF assms, of r] by simp

end

lemma sts_bodies:
  "minified_body c b = minified_body c b' \<Longrightarrow>
     symmetric_string_to_sign c (r\<lparr>sr_body := b\<rparr>) = symmetric_string_to_sign c (r\<lparr>sr_body := b'\<rparr>)"
  "minified_body c b = minified_body c b' \<Longrightarrow>
     symmetric_string_to_sign_v2 c (r\<lparr>sr_body := b\<rparr>) =
     symmetric_string_to_sign_v2 c (r\<lparr>sr_body := b'\<rparr>)"
  by (simp_all add: symmetric_string_to_sign_def symmetric_string_to_sign_v2_def body_hash_def)

lemma verify_unfold:
  "symmetric_verify c k r s \<longleftrightarrow>
     cr_b64_decode c s = Ok (cr_hmac_sha512 c k (symmetric_string_to_sign c r))"
  "symmetric_verify_v2 c k r s \<longleftrightarrow>
     cr_b64_decode c s = Ok (cr_hmac_sha512 c k (symmetric_string_to_sign_v2 c r))"
  unfolding symmetric_verify_def symmetric_verify_v2_def Let_def
  by (cases "cr_b64_decode c s"; fastforce)+

interpretation v1: mac_scheme c "symmetric_string_to_sign c" "symmetric_sign c" "symmetric_verify c"
  for c :: "('priv, 'pub, 'dk, 'x, 'c) crypto"
  by unfold_locales
    (simp add: symmetric_sign_def, simp add: verify_unfold, rule sts_bodies(1), assumption)

interpretation v2:
  mac_scheme c "symmetric_string_to_sign_v2 c" "symmetric_sign_v2 c" "symmetric_verify_v2 c"
  for c :: "('priv, 'pub, 'dk, 'x, 'c) crypto"
  by unfold_locales
    (simp add: symmetric_sign_v2_def, simp add: verify_unfold, rule sts_bodies(2), assumption)

lemma minified_malformed: "cr_gate c b = Some e \<Longrightarrow> minified_body c b = []"
  by (simp add: minified_body_def json_minify_def)

lemma minified_wellformed: "cr_gate c b = None \<Longrightarrow> minified_body c b = compact_bytes b"
  by (simp add: minified_body_def json_minify_def)

text \<open>Two splits of one text at its first separator agree.\<close>

lemma first_sep_unique:
  "(sep :: char) \<notin> set a \<Longrightarrow> sep \<notin> set a' \<Longrightarrow> a @ sep # b = a' @ sep # b' \<Longrightarrow>
     a = a' \<and> b = b'"
  by (metis split_once_char_hit option.inject prod.inject)

definition fields_free :: "char \<Rightarrow> sign_request \<Rightarrow> bool" where
  "fields_free sep r \<longleftrightarrow>
     sep \<notin> set (sr_method r) \<and> sep \<notin> set (sr_url r) \<and> sep \<notin> set (sr_token r)"

lemma joined_injective:
  assumes "fields_free sep r" "fields_free sep r'" "sep \<notin> set h" "sep \<notin> set h'"
    and "sr_method r @ [sep] @ sr_url r @ [sep] @ sr_token r @ [sep] @ h @ [sep] @ t =
      sr_method r' @ [sep] @ sr_url r' @ [sep] @ sr_token r' @ [sep] @ h' @ [sep] @ t'"
  shows "sr_method r = sr_method r' \<and> sr_url r = sr_url r' \<and> sr_token r = sr_token r' \<and> h = h' \<and> t = t'"
proof -
  from assms(5) have whole: "sr_method r @ sep # (sr_url r @ sep # (sr_token r @ sep # (h @ sep # t))) =
      sr_method r' @ sep # (sr_url r' @ sep # (sr_token r' @ sep # (h' @ sep # t')))"
    by simp
  have m: "sr_method r = sr_method r'" and
    rest: "sr_url r @ sep # (sr_token r @ sep # (h @ sep # t)) =
      sr_url r' @ sep # (sr_token r' @ sep # (h' @ sep # t'))"
    using assms(1,2) first_sep_unique [OF _ _ whole] by (auto simp: fields_free_def)
  have u: "sr_url r = sr_url r'" and
    rest2: "sr_token r @ sep # (h @ sep # t) = sr_token r' @ sep # (h' @ sep # t')"
    using assms(1,2) first_sep_unique [OF _ _ rest] by (auto simp: fields_free_def)
  have k: "sr_token r = sr_token r'" and rest3: "h @ sep # t = h' @ sep # t'"
    using assms(1,2) first_sep_unique [OF _ _ rest2] by (auto simp: fields_free_def)
  from m u k first_sep_unique [OF assms(3,4) rest3] show ?thesis by simp
qed

subsection \<open>Asymmetric signatures\<close>

datatype 'x snap_error =
  Bad_Public_Key 'x
| Bad_Private_Key 'x
| Bad_Signature_Base64 'x
| Aes_Failure 'x
| Neither_Base64_Nor_Pem 'x
| Ciphertext_Too_Short
| Nonce_Randomness 'x
| Not_Utf8
| Bad_Decoding_Key 'x
| Jwt_Rejected 'x

definition asymmetric_string_to_sign :: "string \<Rightarrow> string \<Rightarrow> string" where
  "asymmetric_string_to_sign client_key ts = client_key @ ''|'' @ ts"

definition public_key_from_pem ::
  "('priv, 'pub, 'dk, 'x, 'c) crypto \<Rightarrow> string \<Rightarrow> 'x snap_error + 'pub" where
  "public_key_from_pem c pem =
     (case cr_public_pem c pem of Inl e \<Rightarrow> Err (Bad_Public_Key e) | Inr k \<Rightarrow> Ok k)"

definition private_key_from_pem ::
  "('priv, 'pub, 'dk, 'x, 'c) crypto \<Rightarrow> string \<Rightarrow> 'x snap_error + 'priv" where
  "private_key_from_pem c pem =
     (case cr_private_pem c pem of Inl e \<Rightarrow> Err (Bad_Private_Key e) | Inr k \<Rightarrow> Ok k)"

definition rsa_sign ::
  "('priv, 'pub, 'dk, 'x, 'c) crypto \<Rightarrow> string \<Rightarrow> string \<Rightarrow> string \<Rightarrow> 'x snap_error + string" where
  "rsa_sign c priv_pem client_key ts =
     and_then (private_key_from_pem c priv_pem) (\<lambda>key.
       Ok (cr_b64_encode c (cr_rsa_sign c key (asymmetric_string_to_sign client_key ts))))"

definition rsa_verify ::
  "('priv, 'pub, 'dk, 'x, 'c) crypto \<Rightarrow> string \<Rightarrow> string \<Rightarrow> string \<Rightarrow> string \<Rightarrow> 'x snap_error + bool" where
  "rsa_verify c pub_pem client_key ts sig_b64 =
     and_then (public_key_from_pem c pub_pem) (\<lambda>key.
       case cr_b64_decode c sig_b64 of
         Inl e \<Rightarrow> Err (Bad_Signature_Base64 e)
       | Inr raw \<Rightarrow>
           if \<not> cr_rsa_sig_form c raw then Ok False
           else Ok (cr_rsa_verify c key (asymmetric_string_to_sign client_key ts) raw))"

subsection \<open>The AES envelope\<close>

definition derive_aes_key :: "('priv, 'pub, 'dk, 'x, 'c) crypto \<Rightarrow> bytes \<Rightarrow> bytes" where
  "derive_aes_key c key = (if length key = 32 then key else cr_sha256 c key)"

text \<open>The nonce is the answer of the system's random source.\<close>

definition encrypt_aes ::
  "('priv, 'pub, 'dk, 'x, 'c) crypto \<Rightarrow> 'x + bytes \<Rightarrow> bytes \<Rightarrow> string \<Rightarrow> 'x snap_error + string" where
  "encrypt_aes c random key plaintext =
     (case random of
        Inl e \<Rightarrow> Err (Nonce_Randomness e)
      | Inr nonce \<Rightarrow>
          (case cr_aead_seal c (derive_aes_key c key) nonce plaintext of
             Inl e \<Rightarrow> Err (Aes_Failure e)
           | Inr ciphertext \<Rightarrow> Ok (cr_b64_encode c (nonce @ ciphertext))))"

definition decrypt_aes ::
  "('priv, 'pub, 'dk, 'x, 'c) crypto \<Rightarrow> bytes \<Rightarrow> string \<Rightarrow> 'x snap_error + string" where
  "decrypt_aes c key input =
     (case cr_b64_decode c input of
        Inl err \<Rightarrow>
          if is_ok (private_key_from_pem c input) then Ok input
          else Err (Neither_Base64_Nor_Pem err)
      | Inr raw \<Rightarrow>
          if length raw < 12 then Err Ciphertext_Too_Short
          else
            (case cr_aead_open c (derive_aes_key c key) (take 12 raw) (drop 12 raw) of
               Inl e \<Rightarrow> Err (Aes_Failure e)
             | Inr plaintext \<Rightarrow> if cr_utf8 c plaintext then Ok plaintext else Err Not_Utf8))"

lemma encrypt_aes_Ok:
  "encrypt_aes c random key p = Ok out \<Longrightarrow>
     \<exists>nonce ct. random = Ok nonce \<and> cr_aead_seal c (derive_aes_key c key) nonce p = Ok ct \<and>
       out = cr_b64_encode c (nonce @ ct)"
  by (auto simp: encrypt_aes_def split: sum.splits)

subsection \<open>JWT\<close>

text \<open>\<open>exp\<close> is checked when a token carries one and never required.\<close>

definition rs256_validation :: jwt_validation where
  "rs256_validation =
     \<lparr>va_algorithms = [''RS256''], va_validate_exp = True, va_validate_aud = False,
      va_required_spec_claims = {}\<rparr>"

definition verify_jwt_rs256 ::
  "('priv, 'pub, 'dk, 'x, 'c) crypto \<Rightarrow> string \<Rightarrow> string \<Rightarrow> 'x snap_error + 'c" where
  "verify_jwt_rs256 c pub_pem token =
     (case cr_decoding_key c pub_pem of
        Inl e \<Rightarrow> Err (Bad_Decoding_Key e)
      | Inr key \<Rightarrow>
          (case cr_jwt_decode c token key rs256_validation of
             Inl e \<Rightarrow> Err (Jwt_Rejected e)
           | Inr claims \<Rightarrow> Ok claims))"

subsection \<open>Properties\<close>

text \<open>C20: A signature verifies for what it was made for, in both formats, and for no other key or
  request unless the MACs of the two strings to sign coincide: verification is exactly equality of
  MACs, whatever the signature's base64 text decodes from.\<close>

theorem symmetric_verify_exact:
  assumes "base64_ok c"
  shows "symmetric_verify c k r (symmetric_sign c k r) \<and>
    symmetric_verify_v2 c k r (symmetric_sign_v2 c k r) \<and>
    (symmetric_verify c k' r' (symmetric_sign c k r) \<longleftrightarrow>
      cr_hmac_sha512 c k' (symmetric_string_to_sign c r') = cr_hmac_sha512 c k (symmetric_string_to_sign c r)) \<and>
    (symmetric_verify_v2 c k' r' (symmetric_sign_v2 c k r) \<longleftrightarrow>
      cr_hmac_sha512 c k' (symmetric_string_to_sign_v2 c r') =
      cr_hmac_sha512 c k (symmetric_string_to_sign_v2 c r))"
  using assms v1.accepts_own v2.accepts_own v1.verify_iff_mac v2.verify_iff_mac by blast

text \<open>A concrete set of primitives for the witnesses.\<close>

definition nibbles :: "char \<Rightarrow> string" where
  "nibbles b = [char_of (97 + code b div 16), char_of (97 + code b mod 16)]"

definition demo_primitives :: "(unit, unit, unit, unit, unit) crypto" where
  "demo_primitives =
     \<lparr>cr_gate = (\<lambda>b. None), cr_sha256 = id, cr_hex = concat \<circ> map nibbles,
      cr_hmac_sha512 = (\<lambda>k m. k @ m), cr_b64_encode = id, cr_b64_decode = Ok,
      cr_private_pem = (\<lambda>p. Ok ()), cr_public_pem = (\<lambda>p. Ok ()), cr_rsa_sign = (\<lambda>k m. m),
      cr_rsa_sig_form = (\<lambda>s. True), cr_rsa_verify = (\<lambda>k m s. m = s),
      cr_aead_seal = (\<lambda>k n p. Ok (CHR ''t'' # p)), cr_aead_open = (\<lambda>k n s. Ok (tl s)),
      cr_utf8 = (\<lambda>b. True), cr_decoding_key = (\<lambda>p. Ok ()), cr_jwt_decode = (\<lambda>t k v. Ok ())\<rparr>"

definition demo_request :: "bytes \<Rightarrow> sign_request" where
  "demo_request body = \<lparr>sr_method = ''POST'', sr_url = ''/v1/pay'', sr_token = ''tok'', sr_body = body, sr_ts = ''2024''\<rparr>"

lemma demo_base64: "base64_ok demo_primitives"
  by (simp add: base64_ok_def demo_primitives_def)

lemma nibbles_facts: "nibbles b = nibbles b' \<longleftrightarrow> b = b'" "length (nibbles b) = 2"
  "x \<in> set (nibbles b) \<Longrightarrow> 97 \<le> code x \<and> code x < 113"
proof -
  have "code d < 256" for d
    by (metis char_of_char of_char_of mod_less_divisor zero_less_numeral)
  then have small: "code d div 16 < 16" for d
    by (simp add: less_mult_imp_div_less)
  have letter: "97 + code d div 16 < 256" "97 + code d mod 16 < 256" for d
    using small [of d] mod_less_divisor [of 16 "code d"] by linarith+
  have "nibbles b = nibbles b' \<longleftrightarrow> code b div 16 = code b' div 16 \<and> code b mod 16 = code b' mod 16"
    using letter [of b] letter [of b'] by (auto simp: nibbles_def)
  also have "\<dots> \<longleftrightarrow> code b = code b'"
    by (metis div_mult_mod_eq)
  finally show "nibbles b = nibbles b' \<longleftrightarrow> b = b'"
    by simp
  show "length (nibbles b) = 2"
    by (simp add: nibbles_def)
  show "97 \<le> code x \<and> code x < 113" if "x \<in> set (nibbles b)"
    using that small [of b] letter [of b] by (auto simp: nibbles_def)
qed

lemma demo_hex: "hex_ok demo_primitives"
proof -
  have "concat (map nibbles s) = concat (map nibbles t) \<Longrightarrow> s = t" for s t
  proof (induction s arbitrary: t)
    case (Cons b s)
    then obtain b' t' where "t = b' # t'" by (cases t) (auto simp: nibbles_def)
    with Cons show ?case by (simp add: nibbles_facts)
  next
    case Nil
    then show ?case by (cases t) (auto simp: nibbles_def)
  qed
  moreover have "CHR '':'' \<notin> set (nibbles b)" "CHR ''|'' \<notin> set (nibbles b)" for b
    using nibbles_facts(3) [of "CHR '':''" b] nibbles_facts(3) [of "CHR ''|''" b] by auto
  ultimately show ?thesis
    by (auto simp: hex_ok_def demo_primitives_def inj_def)
qed

theorem symmetric_verify_exact_witness:
  "symmetric_verify demo_primitives ''k'' (demo_request ''{}'') (symmetric_sign demo_primitives ''k'' (demo_request ''{}''))"
  using symmetric_verify_exact [OF demo_base64] by blast

text \<open>C28: The signature does not depend on the layout of a well-formed body: two bodies with the same
  lexemes, laid out with any white space, have the same signature and the same verdict on every
  signature, in both formats.\<close>

theorem signature_ignores_layout:
  assumes "layout_ok xs g" "layout_ok ys h" "map snd xs = map snd ys"
    and "cr_gate c (render xs g) = None" "cr_gate c (render ys h) = None"
  shows "symmetric_sign c k (r\<lparr>sr_body := render xs g\<rparr>) = symmetric_sign c k (r\<lparr>sr_body := render ys h\<rparr>) \<and>
    symmetric_sign_v2 c k (r\<lparr>sr_body := render xs g\<rparr>) = symmetric_sign_v2 c k (r\<lparr>sr_body := render ys h\<rparr>) \<and>
    symmetric_verify c k (r\<lparr>sr_body := render xs g\<rparr>) s = symmetric_verify c k (r\<lparr>sr_body := render ys h\<rparr>) s \<and>
    symmetric_verify_v2 c k (r\<lparr>sr_body := render xs g\<rparr>) s = symmetric_verify_v2 c k (r\<lparr>sr_body := render ys h\<rparr>) s"
proof -
  have "minified_body c (render xs g) = minified_body c (render ys h)"
    using assms by (simp add: minified_wellformed compact_bytes_render)
  from v1.same_minified [OF this] v2.same_minified [OF this] show ?thesis by blast
qed

theorem signature_ignores_layout_witness:
  "symmetric_sign demo_primitives ''k'' (demo_request ''[1 ]'') =
   symmetric_sign demo_primitives ''k'' (demo_request '' [1]'')"
  using signature_ignores_layout
      [of "[([], JPunct CHR ''[''), ([], JAtom ''1''), ('' '', JPunct CHR '']'')]" "[]"
          "[('' '', JPunct CHR ''[''), ([], JAtom ''1''), ([], JPunct CHR '']'')]" "[]"
          demo_primitives "''k''" "demo_request []"]
  by (simp add: layout_ok_def json_ws_def plain_byte_def byte_literals demo_primitives_def demo_request_def)

text \<open>Two inputs that a hash or a MAC does not tell apart.\<close>

definition collides :: "('a \<Rightarrow> 'b) \<Rightarrow> 'a \<Rightarrow> 'a \<Rightarrow> bool" where
  "collides f x y \<longleftrightarrow> x \<noteq> y \<and> f x = f y"

definition string_to_sign ::
  "char \<Rightarrow> ('priv, 'pub, 'dk, 'x, 'c) crypto \<Rightarrow> sign_request \<Rightarrow> string" where
  "string_to_sign sep c r =
     (if sep = CHR '':'' then symmetric_string_to_sign c r else symmetric_string_to_sign_v2 c r)"

text \<open>C27: What a signature pins down. When a request is accepted, in either format, under the
  signature of another, and no field of the two contains the separator, then method, URL, token, time
  stamp and minified body of the two are the same, or the pair of strings to sign collides under the
  keyed MAC, or the pair of minified bodies collides under SHA-256: any other forgery breaks one of
  the two primitives at inputs that can be read off.\<close>

theorem signature_binds_fields:
  assumes "base64_ok c" "hex_ok c" "fields_free sep r" "fields_free sep r'"
    and "sep = CHR '':'' \<and> symmetric_verify c k r' (symmetric_sign c k r) \<or>
      sep = CHR ''|'' \<and> symmetric_verify_v2 c k r' (symmetric_sign_v2 c k r)"
  shows "collides (cr_hmac_sha512 c k) (string_to_sign sep c r) (string_to_sign sep c r') \<or>
    sr_method r = sr_method r' \<and> sr_url r = sr_url r' \<and> sr_token r = sr_token r' \<and> sr_ts r = sr_ts r' \<and>
    (minified_body c (sr_body r) = minified_body c (sr_body r') \<or>
     collides (cr_sha256 c) (minified_body c (sr_body r)) (minified_body c (sr_body r')))"
proof (cases "string_to_sign sep c r = string_to_sign sep c r'")
  case False
  moreover have "cr_hmac_sha512 c k (string_to_sign sep c r') = cr_hmac_sha512 c k (string_to_sign sep c r)"
    using assms(5) v1.verify_iff_mac [OF assms(1)] v2.verify_iff_mac [OF assms(1)]
    by (auto simp: string_to_sign_def)
  ultimately show ?thesis by (simp add: collides_def)
next
  case True
  have "sep \<notin> set (body_hash c b)" for b
    using assms(2,5) by (auto simp: hex_ok_def body_hash_def)
  moreover have "sr_method r @ [sep] @ sr_url r @ [sep] @ sr_token r @ [sep] @ body_hash c (sr_body r) @ [sep] @ sr_ts r =
      sr_method r' @ [sep] @ sr_url r' @ [sep] @ sr_token r' @ [sep] @ body_hash c (sr_body r') @ [sep] @ sr_ts r'"
    using assms(5) True
    by (auto simp: string_to_sign_def symmetric_string_to_sign_def symmetric_string_to_sign_v2_def)
  ultimately have same: "sr_method r = sr_method r' \<and> sr_url r = sr_url r' \<and> sr_token r = sr_token r' \<and>
      body_hash c (sr_body r) = body_hash c (sr_body r') \<and> sr_ts r = sr_ts r'"
    using joined_injective [OF assms(3,4)] by blast
  then have "cr_sha256 c (minified_body c (sr_body r)) = cr_sha256 c (minified_body c (sr_body r'))"
    using assms(2) by (auto simp: hex_ok_def body_hash_def dest: injD)
  with same show ?thesis by (auto simp: collides_def)
qed

theorem signature_binds_fields_witness:
  "minified_body demo_primitives (sr_body (demo_request ''{ }'')) =
     minified_body demo_primitives (sr_body (demo_request ''{}''))"
proof -
  have "fields_free CHR '':'' (demo_request b)" for b
    by (simp add: fields_free_def demo_request_def)
  moreover have "symmetric_verify demo_primitives ''k'' (demo_request ''{}'')
      (symmetric_sign demo_primitives ''k'' (demo_request ''{ }''))"
    by (simp add: symmetric_verify_def symmetric_sign_def symmetric_string_to_sign_def body_hash_def
        minified_body_def json_minify_def compact_bytes_def demo_primitives_def demo_request_def json_ws_def
        byte_literals)
  moreover have "\<not> collides (cr_hmac_sha512 demo_primitives ''k'') m m'"
    "\<not> collides (cr_sha256 demo_primitives) b b'" for m m' b b'
    by (simp_all add: collides_def demo_primitives_def)
  ultimately show ?thesis
    using signature_binds_fields [OF demo_base64 demo_hex] by blast
qed

text \<open>Decryption undoes encryption: whatever \<open>encrypt_aes\<close> returns for a key and a text under a
  twelve-byte nonce, \<open>decrypt_aes\<close> with that key gives the text back; keys of any length work, since
  both derive the same 32 bytes.\<close>

theorem aes_roundtrip:
  assumes "base64_ok c" "aead_ok c" "length nonce = 12" "cr_utf8 c p"
    and "encrypt_aes c (Ok nonce) key p = Ok out"
  shows "decrypt_aes c key out = Ok p"
  using encrypt_aes_Ok [OF assms(5)] assms(1-4)
  by (auto simp: decrypt_aes_def base64_ok_def aead_ok_def)

theorem aes_roundtrip_witness:
  "decrypt_aes demo_primitives ''key'' (''123456789012'' @ ''thello'') = (Ok ''hello'' :: unit snap_error + string)"
proof -
  have "aead_ok demo_primitives" "cr_utf8 demo_primitives ''hello''"
    "encrypt_aes demo_primitives (Ok ''123456789012'') ''key'' ''hello'' = Ok (''123456789012'' @ ''thello'')"
    by (simp_all add: aead_ok_def demo_primitives_def encrypt_aes_def)
  from aes_roundtrip [OF demo_base64 this(1) _ this(2,3)] show ?thesis by simp
qed

end
