(* ===== verification/PcAuth.thy ===== *)
theory PcAuth
  imports PcRedis PcHttp PcSnapbi
begin

section \<open>pc-auth: CSRF, revocation and idempotency middlewares\<close>

text \<open>
  \<open>crates/pc-auth/src/lib.rs\<close>. A middleware is a service transformer: it is given \<open>next\<close> and
  answers a request in a world \<open>'w\<close> that the Redis pool and \<open>next\<close> read and change. The code of
  other crates (MD5, hex, the JSON parsers, the clock, the random source, the body reader, the
  texts of errors) is the record \<open>auth_env\<close>; the Redis operations, the JWT check and the
  responses are the models of pc-redis, pc-snapbi and pc-http.
\<close>

subsection \<open>Claims\<close>

text \<open>A value under \<open>MerchantId\<close>: \<open>Extra_Int\<close> is a JSON integer (serde_json keeps those of \<open>i64\<close> and
  of \<open>u64\<close>), \<open>Extra_Float m e\<close> the finite double \<open>m * 2 ^ e\<close>.\<close>

datatype extra_value =
  Extra_Int int
| Extra_Float int int
| Extra_Str string
| Extra_Other

record jwt_claims =
  cl_expired :: string
  cl_extra :: "(string \<times> extra_value) list"

datatype f64 = Not_Finite | Finite_Float int int

text \<open>\<open>v as f64\<close> for \<open>2 ^ 63 \<le> v < 2 ^ 64\<close>: the nearest multiple of 2048, ties to even.\<close>

definition u64_as_f64 :: "int \<Rightarrow> f64" where
  "u64_as_f64 v =
     (let q = v div 2048; r = v mod 2048
      in Finite_Float (if 1024 < r \<or> r = 1024 \<and> odd q then q + 1 else q) 11)"

definition float_integer :: "int \<Rightarrow> int \<Rightarrow> int option" where
  "float_integer m e =
     (if 0 \<le> e then Some (m * 2 ^ nat e)
      else if 2 ^ nat (- e) dvd m then Some (m div 2 ^ nat (- e)) else None)"

fun f64_to_i64 :: "f64 \<Rightarrow> int option" where
  "f64_to_i64 Not_Finite = None"
| "f64_to_i64 (Finite_Float m e) =
     (case float_integer m e of
        None \<Rightarrow> None
      | Some v \<Rightarrow> if - (2 ^ 63) \<le> v \<and> v \<le> 2 ^ 63 then Some (sat_i64 v) else None)"

fun extra_as_i64 :: "extra_value \<Rightarrow> int option" where
  "extra_as_i64 (Extra_Int i) = (if i64_min \<le> i \<and> i \<le> i64_max then Some i else None)"
| "extra_as_i64 (Extra_Float m e) = None"
| "extra_as_i64 (Extra_Str s) = None"
| "extra_as_i64 Extra_Other = None"

fun extra_as_u64 :: "extra_value \<Rightarrow> nat option" where
  "extra_as_u64 (Extra_Int i) = u64_try_from i"
| "extra_as_u64 (Extra_Float m e) = None"
| "extra_as_u64 (Extra_Str s) = None"
| "extra_as_u64 Extra_Other = None"

text \<open>\<open>as_f64\<close> is consulted for an integer only when it is above \<open>i64::MAX\<close>.\<close>

fun extra_as_f64 :: "extra_value \<Rightarrow> f64 option" where
  "extra_as_f64 (Extra_Int i) = (if i64_max < i then Some (u64_as_f64 i) else None)"
| "extra_as_f64 (Extra_Float m e) = Some (Finite_Float m e)"
| "extra_as_f64 (Extra_Str s) = None"
| "extra_as_f64 Extra_Other = None"

fun extra_as_str :: "extra_value \<Rightarrow> string option" where
  "extra_as_str (Extra_Str s) = Some s"
| "extra_as_str (Extra_Int i) = None"
| "extra_as_str (Extra_Float m e) = None"
| "extra_as_str Extra_Other = None"

definition or_else :: "'a option \<Rightarrow> 'a option \<Rightarrow> 'a option" where
  "or_else a b = (case a of None \<Rightarrow> b | Some x \<Rightarrow> Some x)"

definition merchant_id :: "(string \<times> extra_value) list \<Rightarrow> int option" where
  "merchant_id extra =
     (case map_of extra ''MerchantId'' of
        None \<Rightarrow> None
      | Some v \<Rightarrow>
          or_else (or_else (or_else (extra_as_i64 v)
            (Option.bind (extra_as_u64 v) i64_try_from))
            (Option.bind (extra_as_f64 v) f64_to_i64))
            (Option.bind (extra_as_str v) parse_i64))"

subsection \<open>The environment of the middlewares\<close>

record ('b, 'w, 'e, 'priv, 'pub, 'dk, 'x) auth_env =
  ae_env :: environment
  ae_exec :: "('w, 'e) redis_exec"
  ae_crypto :: "('priv, 'pub, 'dk, 'x, jwt_claims) crypto"
  ae_public_key_pem :: string
  ae_md5 :: "bytes \<Rightarrow> bytes"
  ae_random :: "'w \<Rightarrow> bytes \<times> 'w"
  ae_now_utc :: "'w \<Rightarrow> int"
  ae_datetime :: "string \<Rightarrow> int option"
  ae_to_bytes :: "nat \<Rightarrow> 'b \<Rightarrow> string + bytes"
  ae_from_bytes :: "bytes \<Rightarrow> 'b"
  ae_parse_json :: "bytes \<Rightarrow> string + jvalue"
  ae_parse_revoke :: "string \<Rightarrow> string + int"
  ae_to_json :: "jvalue \<Rightarrow> 'e + string"
  ae_pool_error :: "'e pool_error \<Rightarrow> string"
  ae_minify_error :: "json_minify_error \<Rightarrow> string"

definition revoked_statuses :: "int list" where
  "revoked_statuses = [3, 4, 7]"

definition request_id_header :: string where "request_id_header = ''x-request-id''"
definition csrf_header :: string where "csrf_header = ''x-xsrf-token''"
definition idem_header :: string where "idem_header = ''idempotency-key''"
definition session_header :: string where "session_header = ''session''"

definition header_text :: "'b http_request \<Rightarrow> string \<Rightarrow> string" where
  "header_text rq name =
     unwrap_or (Option.bind (header_get name (rq_headers rq)) to_str) []"

definition ensure_request_id ::
  "('b, 'w, 'e, 'priv, 'pub, 'dk, 'x) auth_env \<Rightarrow> 'b http_request \<Rightarrow> 'w
     \<Rightarrow> string \<times> 'b http_request \<times> 'w" where
  "ensure_request_id a rq w =
     (let h = Option.bind (header_get request_id_header (rq_headers rq)) to_str;
          (random, w1) = (if h = None \<or> h = Some [] then ae_random a w else ([], w));
          rid = get_or_generate_request_id (cr_hex (ae_crypto a)) random h
      in case header_value rid of
           Some v \<Rightarrow> (rid, rq\<lparr>rq_headers := header_insert request_id_header v (rq_headers rq)\<rparr>, w1)
         | None \<Rightarrow> (rid, rq, w1))"

definition with_request_id :: "http_response \<Rightarrow> string \<Rightarrow> http_response" where
  "with_request_id rs rid =
     (case header_value rid of
        Some v \<Rightarrow> rs\<lparr>rs_headers := header_insert request_id_header v (rs_headers rs)\<rparr>
      | None \<Rightarrow> rs)"

definition answer :: "string \<Rightarrow> unit response_api \<Rightarrow> 'w \<Rightarrow> http_response \<times> 'w" where
  "answer rid r w = (with_request_id (into_response no_data r) rid, w)"

definition run_next ::
  "('b, 'w) service \<Rightarrow> string \<Rightarrow> 'b http_request \<Rightarrow> 'w \<Rightarrow> http_response \<times> 'w" where
  "run_next next rid rq w = (let (rs, w') = next rq w in (with_request_id rs rid, w'))"

subsection \<open>CSRF\<close>

definition token_shape :: "string \<Rightarrow> bool" where
  "token_shape t \<longleftrightarrow> t \<noteq> [] \<and> length t \<le> 50 \<and> char_libs t"

definition verify_csrf ::
  "('b, 'w, 'e, 'priv, 'pub, 'dk, 'x) auth_env \<Rightarrow> ('b, 'w) service \<Rightarrow> ('b, 'w) service" where
  "verify_csrf a next rq0 w0 =
     (let (rid, rq, w1) = ensure_request_id a rq0 w0;
          token = header_text rq csrf_header
      in if token = [] \<or> 50 < length token \<or> \<not> char_libs token
         then answer rid (bad_request ''invalid validation'' []) w1
         else
           (let (r, w2) = redis_get (ae_exec a) (ae_env a) (csrf_key token) w1
            in case r of
                 Inr (Some v) \<Rightarrow> run_next next rid rq w2
               | Inr None \<Rightarrow> answer rid (unauthorized ''token invalid'') w2
               | Inl e \<Rightarrow> answer rid (internal_error (ae_pool_error a e)) w2))"

subsection \<open>Revocation\<close>

fun words_from :: "bool \<Rightarrow> string \<Rightarrow> nat" where
  "words_from inside [] = 0"
| "words_from inside (b # s) =
     (if b = CHR '' '' \<or> 9 \<le> code b \<and> code b \<le> 13 then words_from False s
      else (if inside then 0 else 1) + words_from True s)"

definition parse_go_datetime ::
  "('b, 'w, 'e, 'priv, 'pub, 'dk, 'x) auth_env \<Rightarrow> string \<Rightarrow> int option" where
  "parse_go_datetime a v = ae_datetime a v"

definition revoked :: "int \<Rightarrow> unit response_api" where
  "revoked s = \<lparr>ra_code = 401, ra_status = ''unauthorized'', ra_message = ''revoke jwt token'',
     ra_internal_code = show_int s, ra_data = None\<rparr>"

text \<open>The checks before Redis is asked: the merchant of a token that is verified, has an
  \<open>Expired\<close> in the future and names one.\<close>

definition token_merchant ::
  "('b, 'w, 'e, 'priv, 'pub, 'dk, 'x) auth_env \<Rightarrow> 'w \<Rightarrow> string \<Rightarrow> string + int" where
  "token_merchant a w auth =
     (case strip_prefix ''Bearer '' auth of
        None \<Rightarrow> Err (if words_from False auth = 2 then ''authorization token type does not match''
                     else ''invalid authorization token'')
      | Some token \<Rightarrow>
          (case verify_jwt_rs256 (ae_crypto a) (ae_public_key_pem a) token of
             Inl e \<Rightarrow> Err ''authorization token credentials do not match''
           | Inr claims \<Rightarrow>
               (case parse_go_datetime a (cl_expired claims) of
                  None \<Rightarrow> Err ''invalid authorization token credentials''
                | Some expired \<Rightarrow>
                    if ae_now_utc a w > expired then Err ''authorization token has expired''
                    else (case merchant_id (cl_extra claims) of
                            None \<Rightarrow> Err ''invalid authorization token merchant''
                          | Some m \<Rightarrow> Ok m))))"

definition revoke_token ::
  "('b, 'w, 'e, 'priv, 'pub, 'dk, 'x) auth_env \<Rightarrow> ('b, 'w) service \<Rightarrow> ('b, 'w) service" where
  "revoke_token a next rq0 w0 =
     (let (rid, rq, w1) = ensure_request_id a rq0 w0
      in case token_merchant a w1 (header_text rq ''authorization'') of
           Inl message \<Rightarrow> answer rid (unauthorized message) w1
         | Inr m \<Rightarrow>
             (let (r, w2) = redis_get (ae_exec a) (ae_env a) (revoke_token_key (show_int m)) w1
              in case r of
                   Inr None \<Rightarrow> run_next next rid rq w2
                 | Inr (Some raw) \<Rightarrow>
                     (case ae_parse_revoke a raw of
                        Inr s \<Rightarrow> if s \<in> set revoked_statuses then answer rid (revoked s) w2
                                 else run_next next rid rq w2
                      | Inl e \<Rightarrow> answer rid (internal_error e) w2)
                 | Inl e \<Rightarrow> answer rid (internal_error (ae_pool_error a e)) w2))"

subsection \<open>Idempotency\<close>

definition idempotency_key ::
  "('b, 'w, 'e, 'priv, 'pub, 'dk, 'x) auth_env \<Rightarrow> bytes \<Rightarrow> json_minify_error + string" where
  "idempotency_key a body =
     and_then (json_minify (cr_gate (ae_crypto a)) body)
       (\<lambda>minified. Ok (cr_hex (ae_crypto a) (ae_md5 a minified)))"

definition verify_idempotency_key ::
  "('b, 'w, 'e, 'priv, 'pub, 'dk, 'x) auth_env \<Rightarrow> string \<Rightarrow> bytes \<Rightarrow> json_minify_error + bool" where
  "verify_idempotency_key a submitted body =
     and_then (idempotency_key a body) (\<lambda>k. Ok (submitted = k))"

text \<open>The session in seconds; None is the refused header.\<close>

definition session_secs :: "string \<Rightarrow> nat option" where
  "session_secs raw =
     (if raw \<noteq> [] \<and> (60 < length raw \<or> \<not> numeric_null_libs raw) then None
      else
        (let parsed =
           (if raw = [] \<or> raw = ''0'' then Some 9
            else (case parse_i64 raw of
                    Some v \<Rightarrow> if 4 \<le> v then Some (unwrap_or (u64_try_from v) 9) else Some 9
                  | None \<Rightarrow> None))
         in map_option (\<lambda>s. if s < 4 then 9 else s) parsed))"

definition max_body :: nat where
  "max_body = 2 * 1024 * 1024"

text \<open>The checks on the request alone: the body bytes, its JSON value and the session.\<close>

definition idempotent_request ::
  "('b, 'w, 'e, 'priv, 'pub, 'dk, 'x) auth_env \<Rightarrow> 'b http_request
     \<Rightarrow> unit response_api + (string \<times> bytes \<times> jvalue \<times> nat)" where
  "idempotent_request a rq =
     (let key = header_text rq idem_header; session_raw = header_text rq session_header
      in if key = [] \<or> 50 < length key \<or> \<not> char_libs key
         then Err (bad_request ''invalid idempotency key format'' ''IDEM_INVALID_FORMAT'')
         else
           (case session_secs session_raw of
              None \<Rightarrow> Err (bad_request ''invalid session header format'' ''IDEM_INVALID_SESSION'')
            | Some session \<Rightarrow>
                if \<not> starts_with (header_text rq ''content-type'') ''application/json''
                then Err (bad_request ''idempotency requires application/json'' ''IDEM_INVALID_BODY'')
                else
                  (case ae_to_bytes a max_body (rq_body rq) of
                     Inl e \<Rightarrow> Err (internal_error e)
                   | Inr body \<Rightarrow>
                       (case ae_parse_json a body of
                          Inl e \<Rightarrow> Err (bad_request e ''IDEM_INVALID_BODY'')
                        | Inr value \<Rightarrow>
                            (case verify_idempotency_key a key body of
                               Inl e \<Rightarrow> Err (bad_request (ae_minify_error a e) ''IDEM_INVALID_BODY'')
                             | Inr False \<Rightarrow>
                                 Err (bad_request ''idempotency key does not match request body''
                                       ''IDEM_KEY_MISMATCH'')
                             | Inr True \<Rightarrow> Ok (key, body, value, session))))))"

definition in_process :: "jvalue \<Rightarrow> jvalue response_api" where
  "in_process cached = \<lparr>ra_code = 202, ra_status = ''accepted'',
     ra_message = ''your request in process'', ra_internal_code = [], ra_data = Some cached\<rparr>"

definition cached_value ::
  "('b, 'w, 'e, 'priv, 'pub, 'dk, 'x) auth_env \<Rightarrow> string \<Rightarrow> jvalue" where
  "cached_value a cached =
     (case ae_parse_json a cached of Inr v \<Rightarrow> v | Inl e \<Rightarrow> JStr cached)"

definition verify_idempotency ::
  "('b, 'w, 'e, 'priv, 'pub, 'dk, 'x) auth_env \<Rightarrow> ('b, 'w) service \<Rightarrow> ('b, 'w) service" where
  "verify_idempotency a next rq0 w0 =
     (let (rid, rq, w1) = ensure_request_id a rq0 w0
      in case idempotent_request a rq of
           Inl r \<Rightarrow> answer rid r w1
         | Inr (key, body, value, session) \<Rightarrow>
             (let (r, w2) = redis_get (ae_exec a) (ae_env a) key w1
              in case r of
                   Inr (Some cached) \<Rightarrow>
                     (with_request_id (into_response id (in_process (cached_value a cached))) rid, w2)
                 | Inr None \<Rightarrow>
                     (let (st, w3) = redis_store (ae_to_json a) (ae_exec a) (ae_env a) key value
                                       (from_secs session) w2
                      in case st of
                           Inl e \<Rightarrow> answer rid (internal_error (ae_pool_error a e)) w3
                         | Inr u \<Rightarrow> run_next next rid (rq\<lparr>rq_body := ae_from_bytes a body\<rparr>) w3)
                 | Inl e \<Rightarrow> answer rid (internal_error (ae_pool_error a e)) w2))"

subsection \<open>What lets a request through\<close>

lemma header_get_with_request_id:
  "header_value rid = Some rid \<Longrightarrow>
     header_get request_id_header (rs_headers (with_request_id rs rid)) = Some rid"
  by (simp add: with_request_id_def)

lemma answer_code [simp]:
  "rs_code (fst (answer rid r w)) = (if 100 \<le> ra_code r \<and> ra_code r < 1000 then ra_code r else 500)"
  "snd (answer rid r w) = w"
  by (simp_all add: answer_def with_request_id_def into_response_def split: option.split)

lemma header_value_Some: "header_value v = Some u \<Longrightarrow> u = v"
  by (simp add: header_value_def split: if_splits)

lemma visible_header_value: "list_all visible v \<Longrightarrow> header_value v = Some v"
  by (auto simp: header_value_def list_all_iff)

text \<open>The id a request gets is one a header can hold, when the hexadecimal digits are.\<close>

lemma ensure_request_id_valid:
  assumes "\<And>b. list_all visible (cr_hex (ae_crypto a) b)"
    and "ensure_request_id a rq w = (rid, rq', w')"
  shows "header_value rid = Some rid \<and> header_get request_id_header (rq_headers rq') = Some rid"
proof -
  define h where "h = Option.bind (header_get request_id_header (rq_headers rq)) to_str"
  have vis: "list_all visible (get_or_generate_request_id (cr_hex (ae_crypto a)) r h)" for r
    using assms(1) by (auto simp: h_def get_or_generate_request_id_def generate_request_id_def
        to_str_def split: option.splits if_splits bind_split)
  show ?thesis
    using assms(2) visible_header_value [OF vis]
    by (auto simp: ensure_request_id_def h_def [symmetric] Let_def split: prod.splits if_splits)
qed

lemma token_merchant_Ok:
  "token_merchant a w auth = Ok m \<Longrightarrow>
     \<exists>token claims t. auth = ''Bearer '' @ token \<and>
       verify_jwt_rs256 (ae_crypto a) (ae_public_key_pem a) token = Ok claims \<and>
       ae_datetime a (cl_expired claims) = Some t \<and> ae_now_utc a w \<le> t \<and>
       merchant_id (cl_extra claims) = Some m"
  by (fastforce simp: token_merchant_def parse_go_datetime_def strip_prefix_Some
      split: option.splits sum.splits if_splits)

lemma session_secs_bounds: "session_secs raw = Some n \<Longrightarrow> 4 \<le> n"
  by (auto simp: session_secs_def Let_def split: if_splits option.splits)

lemma idempotent_request_Ok:
  "idempotent_request a rq = Ok (key, body, v, session) \<Longrightarrow>
     key = header_text rq idem_header \<and> token_shape key \<and> 4 \<le> session \<and>
     session_secs (header_text rq session_header) = Some session \<and>
     ae_to_bytes a max_body (rq_body rq) = Ok body \<and> ae_parse_json a body = Ok v \<and>
     idempotency_key a body = Ok key"
  by (auto simp: idempotent_request_def Let_def token_shape_def verify_idempotency_key_def
      and_then_Ok_iff session_secs_bounds split: if_splits option.splits sum.splits bool.splits)

lemma idempotency_key_Ok:
  "idempotency_key a body = Ok key \<Longrightarrow>
     cr_gate (ae_crypto a) body = None \<and> key = cr_hex (ae_crypto a) (ae_md5 a (compact_bytes body))"
  by (auto simp: idempotency_key_def json_minify_def and_then_Ok_iff split: option.splits)

lemma idempotent_request_Err_code:
  "idempotent_request a rq = Inl r \<Longrightarrow> ra_code r \<in> {400, 500}"
  by (auto simp: idempotent_request_def Let_def bad_request_def internal_error_def
      split: if_splits option.splits sum.splits bool.splits)

text \<open>The id header is the only one \<open>ensure_request_id\<close> touches.\<close>

lemma ensure_request_id_keeps:
  assumes "ensure_request_id a rq0 w = (rid, rq, w1)"
  shows "idempotent_request a rq = idempotent_request a rq0"
    and "w1 = w \<or> w1 = snd (ae_random a w)"
proof -
  have "name \<noteq> request_id_header \<Longrightarrow> header_text rq name = header_text rq0 name" for name
    using assms by (auto simp: ensure_request_id_def Let_def header_text_def
        split: prod.splits option.splits if_splits)
  moreover have "rq_body rq = rq_body rq0"
    using assms by (auto simp: ensure_request_id_def Let_def split: prod.splits option.splits if_splits)
  ultimately have texts: "header_text rq idem_header = header_text rq0 idem_header"
    "header_text rq session_header = header_text rq0 session_header"
    "header_text rq ''content-type'' = header_text rq0 ''content-type''" "rq_body rq = rq_body rq0"
    by (simp_all add: idem_header_def session_header_def request_id_header_def)
  show "idempotent_request a rq = idempotent_request a rq0"
    unfolding idempotent_request_def texts ..
  show "w1 = w \<or> w1 = snd (ae_random a w)"
    using assms by (auto simp: ensure_request_id_def Let_def split: prod.splits option.splits if_splits)
qed

text \<open>Redis answers a GET of the key with this text.\<close>

definition holds :: "('b, 'w, 'e, 'priv, 'pub, 'dk, 'x) auth_env \<Rightarrow> string \<Rightarrow> string \<Rightarrow> 'w \<Rightarrow> bool" where
  "holds a k v w \<longleftrightarrow>
     fst (ae_exec a w (op_timeout (ae_env a)) (Get_Cmd k)) = Some (Ok (Reply_Bulk (Some v)))"

lemma redis_get_holds: "holds a k v w \<Longrightarrow> fst (redis_get (ae_exec a) (ae_env a) k w) = Ok (Some v)"
  by (auto simp: holds_def redis_get_def bounded_def Let_def split: prod.split)

text \<open>Setting a key with an expiry makes it readable: what the middleware relies on.\<close>

definition stores :: "('b, 'w, 'e, 'priv, 'pub, 'dk, 'x) auth_env \<Rightarrow> bool" where
  "stores a \<longleftrightarrow>
     (\<forall>w w' k v ms. ae_exec a w (op_timeout (ae_env a)) (PsetEx_Cmd k v ms) = (Some (Ok Reply_Unit), w')
        \<longrightarrow> holds a k v w') \<and>
     (\<forall>w k v ms reply. fst (ae_exec a w (op_timeout (ae_env a)) (PsetEx_Cmd k v ms)) = Some (Ok reply)
        \<longrightarrow> reply = Reply_Unit)"

lemma redis_store_holds:
  assumes "stores a" "1 \<le> secs" "ae_to_json a v = Ok json"
    and "redis_store (ae_to_json a) (ae_exec a) (ae_env a) k v (from_secs secs) w = (Ok (), w')"
  shows "holds a k json w'"
proof -
  have "as_millis (from_secs secs) \<noteq> 0"
    using assms(2) by (simp add: as_millis_def from_secs_def)
  then obtain ms where "store_cmd (ae_env a) k json (from_secs secs) = PsetEx_Cmd k json ms"
    by (simp add: store_cmd_eq)
  with assms(3,4) obtain reply where
    "ae_exec a w (op_timeout (ae_env a)) (PsetEx_Cmd k json ms) = (Some (Ok reply), w')"
    by (auto simp: redis_store_def bounded_def Let_def split: prod.splits option.splits sum.splits)
  with assms(1) show ?thesis
    unfolding stores_def by (metis fst_conv)
qed

subsection \<open>A concrete environment\<close>

text \<open>A world of stored texts, for the witnesses: every primitive is a total function.\<close>

fun demo_exec :: "((string \<Rightarrow> string option), unit) redis_exec" where
  "demo_exec w t (PsetEx_Cmd k v ms) = (Some (Ok Reply_Unit), w(k \<mapsto> v))"
| "demo_exec w t (Set_Cmd k v) = (Some (Ok Reply_Unit), w(k \<mapsto> v))"
| "demo_exec w t (Get_Cmd k) = (Some (Ok (Reply_Bulk (w k))), w)"
| "demo_exec w t (Del_Cmd k) = (Some (Ok Reply_Unit), w(k := None))"
| "demo_exec w t (Pttl_Cmd k) = (Some (Ok (Reply_Int (-1))), w)"
| "demo_exec w t Ping = (Some (Ok Reply_Unit), w)"

definition demo_crypto :: "(unit, unit, unit, unit, jwt_claims) crypto" where
  "demo_crypto =
     \<lparr>cr_gate = (\<lambda>b. None), cr_sha256 = id, cr_hex = (\<lambda>b. ''k''), cr_hmac_sha512 = (\<lambda>k m. m),
      cr_b64_encode = id, cr_b64_decode = Ok, cr_private_pem = (\<lambda>p. Ok ()), cr_public_pem = (\<lambda>p. Ok ()),
      cr_rsa_sign = (\<lambda>k m. m), cr_rsa_sig_form = (\<lambda>s. True), cr_rsa_verify = (\<lambda>k m s. m = s),
      cr_aead_seal = (\<lambda>k n p. Ok p), cr_aead_open = (\<lambda>k n s. Ok s), cr_utf8 = (\<lambda>b. True),
      cr_decoding_key = (\<lambda>p. Ok ()),
      cr_jwt_decode = (\<lambda>t k v. Ok \<lparr>cl_expired = [], cl_extra = []\<rparr>)\<rparr>"

definition demo_env ::
  "(string, (string \<Rightarrow> string option), unit, unit, unit, unit, unit) auth_env" where
  "demo_env =
     \<lparr>ae_env = (\<lambda>k. None), ae_exec = demo_exec, ae_crypto = demo_crypto, ae_public_key_pem = [],
      ae_md5 = id, ae_random = (\<lambda>w. ([], w)), ae_now_utc = (\<lambda>w. 0), ae_datetime = (\<lambda>s. Some 0),
      ae_to_bytes = (\<lambda>n b. Ok b), ae_from_bytes = id, ae_parse_json = (\<lambda>b. Ok (JStr b)),
      ae_parse_revoke = (\<lambda>s. Ok 0),
      ae_to_json = (\<lambda>v. case v of JStr s \<Rightarrow> Ok s | JNull \<Rightarrow> Ok [] | JBool b \<Rightarrow> Ok []
        | JInt i \<Rightarrow> Ok [] | JArr l \<Rightarrow> Ok [] | JObj l \<Rightarrow> Ok []),
      ae_pool_error = (\<lambda>e. []), ae_minify_error = (\<lambda>e. [])\<rparr>"

definition demo_post :: "string http_request" where
  "demo_post = \<lparr>rq_method = POST, rq_path = ''/pay'',
     rq_headers = [(''idempotency-key'', ''k''), (''content-type'', ''application/json'')],
     rq_body = ''7''\<rparr>"

definition demo_handler :: "(string, (string \<Rightarrow> string option)) service" where
  "demo_handler rq w = (\<lparr>rs_code = 200, rs_headers = [], rs_body = Text_Body (rq_body rq)\<rparr>, w)"

lemma demo_stores: "stores demo_env"
  by (auto simp: stores_def holds_def demo_env_def)

lemma demo_first_request:
  "ensure_request_id demo_env demo_post Map.empty =
     (''k'', demo_post\<lparr>rq_headers := header_insert ''x-request-id'' ''k'' (rq_headers demo_post)\<rparr>, Map.empty)"
  by (simp add: ensure_request_id_def demo_env_def demo_crypto_def demo_post_def header_get_def
      request_id_header_def get_or_generate_request_id_def generate_request_id_def header_value_def
      visible_def Let_def)

lemma demo_request_ok: "idempotent_request demo_env demo_post = Ok (''k'', ''7'', JStr ''7'', 9)"
  by (simp add: idempotent_request_def demo_post_def demo_env_def demo_crypto_def header_text_def
      header_get_def idem_header_def session_header_def to_str_def visible_def char_libs_def
      matches_key_def key_char_def session_secs_def Let_def starts_with_def verify_idempotency_key_def
      idempotency_key_def json_minify_def)

lemma f64_to_i64_bounds: "f64_to_i64 f = Some m \<Longrightarrow> i64_min \<le> m \<and> m \<le> i64_max"
  by (cases f) (auto simp: sat_i64_def width_defs split: option.splits if_splits)

lemma merchant_id_bounds:
  assumes "merchant_id extra = Some m"
  shows "i64_min \<le> m \<and> m \<le> i64_max"
proof -
  obtain v where v: "map_of extra ''MerchantId'' = Some v"
    using assms by (auto simp: merchant_id_def split: option.splits)
  show ?thesis
  proof (cases v)
    case (Extra_Int i)
    with v assms show ?thesis
      by (auto simp: merchant_id_def or_else_def i64_try_from_def bind_eq_Some_conv
          split: option.splits if_splits dest: f64_to_i64_bounds)
         (auto simp: width_defs)
  next
    case (Extra_Float f e)
    with v assms show ?thesis
      by (auto simp: merchant_id_def or_else_def dest: f64_to_i64_bounds split: option.splits
          simp del: f64_to_i64.simps)
  next
    case (Extra_Str t)
    with v assms show ?thesis by (auto simp: merchant_id_def or_else_def dest: parse_i64_bounds)
  next
    case Extra_Other
    with v assms show ?thesis by (simp add: merchant_id_def or_else_def)
  qed
qed

lemma merchant_id_i64:
  assumes "i64_min \<le> i" "i \<le> i64_max"
  shows "merchant_id [(''MerchantId'', Extra_Int i)] = Some i"
    and "merchant_id [(''MerchantId'', Extra_Float i 0)] = Some i"
    and "merchant_id [(''MerchantId'', Extra_Str (show_int i))] = Some i"
  using assms parse_i64_show_int [OF assms]
  by (simp_all add: merchant_id_def or_else_def float_integer_def sat_i64_def)
     (simp_all add: width_defs)

lemma merchant_id_overflow:
  "merchant_id [(''MerchantId'', Extra_Int (2 ^ 63))] = Some (2 ^ 63 - 1)"
  "merchant_id [(''MerchantId'', Extra_Int (2 ^ 64 - 1))] = None"
  by (simp_all add: merchant_id_def or_else_def width_defs u64_try_from_def i64_try_from_def
      u64_as_f64_def float_integer_def sat_i64_def)

subsection \<open>Properties\<close>

text \<open>\<open>verify_csrf\<close> hands a request on only when its \<open>X-Xsrf-Token\<close> is well formed and Redis
  holds the key \<open>csrf-<token>\<close>; every other request is answered 400, 401 or 500 whatever the
  handler behind it is.\<close>

theorem csrf_gate:
  "case ensure_request_id a rq0 w0 of (rid, rq, w1) \<Rightarrow>
     (let token = header_text rq csrf_header;
          (stored, w2) = redis_get (ae_exec a) (ae_env a) (''csrf-'' @ token) w1 in
      token_shape token \<and> (\<exists>v. stored = Ok (Some v)) \<and>
        verify_csrf a handler rq0 w0 = run_next handler rid rq w2 \<or>
      verify_csrf a handler rq0 w0 = verify_csrf a handler' rq0 w0 \<and>
        rs_code (fst (verify_csrf a handler rq0 w0)) \<in> {400, 401, 500})"
  by (auto simp: verify_csrf_def Let_def token_shape_def csrf_key_def bad_request_def
      unauthorized_def internal_error_def split: prod.splits sum.splits option.splits)

text \<open>\<open>revoke_token\<close> hands a request on only for a bearer token the JWT check accepts, whose
  \<open>Expired\<close> claim is not in the past, that names a merchant, and whose merchant has no revocation
  entry or one with a status other than 3, 4 and 7; every other request is answered 401 or 500
  whatever the handler is.\<close>

theorem revoke_gate:
  "case ensure_request_id a rq0 w0 of (rid, rq, w1) \<Rightarrow>
     (\<exists>token claims t m stored w2.
        header_text rq ''authorization'' = ''Bearer '' @ token \<and>
        verify_jwt_rs256 (ae_crypto a) (ae_public_key_pem a) token = Ok claims \<and>
        ae_datetime a (cl_expired claims) = Some t \<and> ae_now_utc a w1 \<le> t \<and>
        merchant_id (cl_extra claims) = Some m \<and>
        redis_get (ae_exec a) (ae_env a) (revoke_token_key (show_int m)) w1 = (Ok stored, w2) \<and>
        (stored = None \<or>
          (\<exists>raw s. stored = Some raw \<and> ae_parse_revoke a raw = Ok s \<and> s \<notin> {3, 4, 7})) \<and>
        revoke_token a handler rq0 w0 = run_next handler rid rq w2) \<or>
     (revoke_token a handler rq0 w0 = revoke_token a handler' rq0 w0 \<and>
        rs_code (fst (revoke_token a handler rq0 w0)) \<in> {401, 500})"
proof -
  obtain rid rq w1 where r: "ensure_request_id a rq0 w0 = (rid, rq, w1)"
    by (metis prod.exhaust)
  show ?thesis
  proof (cases "token_merchant a w1 (header_text rq ''authorization'')")
    case (Inl e)
    then show ?thesis by (simp add: r revoke_token_def unauthorized_def)
  next
    case (Inr m)
    obtain stored w2 where g:
      "redis_get (ae_exec a) (ae_env a) (revoke_token_key (show_int m)) w1 = (stored, w2)"
      by (metis prod.exhaust)
    from token_merchant_Ok [OF Inr] g show ?thesis
      by (auto simp: r revoke_token_def Inr revoked_statuses_def internal_error_def revoked_def
          split: sum.splits option.splits)
  qed
qed

text \<open>C11: \<open>verify_idempotency\<close> runs the handler only after it checked that the key is the MD5 of the
  minified body, found nothing under it, and stored the body under it; the handler gets that
  body. Every other request is answered 202, 400 or 500 whatever the handler is.\<close>

theorem idempotency_gate:
  "case ensure_request_id a rq0 w0 of (rid, rq, w1) \<Rightarrow>
     (\<exists>key body v session w2 w3.
        key = header_text rq idem_header \<and> token_shape key \<and> 4 \<le> session \<and>
        ae_to_bytes a max_body (rq_body rq) = Ok body \<and> ae_parse_json a body = Ok v \<and>
        key = cr_hex (ae_crypto a) (ae_md5 a (compact_bytes body)) \<and>
        redis_get (ae_exec a) (ae_env a) key w1 = (Ok None, w2) \<and>
        redis_store (ae_to_json a) (ae_exec a) (ae_env a) key v (from_secs session) w2 = (Ok (), w3) \<and>
        verify_idempotency a handler rq0 w0 =
          run_next handler rid (rq\<lparr>rq_body := ae_from_bytes a body\<rparr>) w3) \<or>
     (verify_idempotency a handler rq0 w0 = verify_idempotency a handler' rq0 w0 \<and>
        rs_code (fst (verify_idempotency a handler rq0 w0)) \<in> {202, 400, 500})"
proof -
  obtain rid rq w1 where r: "ensure_request_id a rq0 w0 = (rid, rq, w1)"
    by (metis prod.exhaust)
  show ?thesis
  proof (cases "idempotent_request a rq")
    case (Inl e)
    with idempotent_request_Err_code [OF Inl] show ?thesis
      by (auto simp: r verify_idempotency_def)
  next
    case (Inr b)
    obtain key body v session where b: "b = (key, body, v, session)"
      by (metis prod.exhaust)
    note ok = idempotent_request_Ok [OF Inr [unfolded b]]
    obtain stored w2 where g: "redis_get (ae_exec a) (ae_env a) key w1 = (stored, w2)"
      by (metis prod.exhaust)
    obtain st w3 where st: "redis_store (ae_to_json a) (ae_exec a) (ae_env a) key v
        (from_secs session) w2 = (st, w3)"
      by (metis prod.exhaust)
    note eqs = r verify_idempotency_def Inr b g st
    show ?thesis
    proof (cases "stored = Ok None \<and> st = Ok ()")
      case True
      with ok idempotency_key_Ok [of a body key] g st show ?thesis
        by (auto simp: eqs)
    next
      case False
      then show ?thesis
        by (auto simp: eqs internal_error_def into_response_def in_process_def with_request_id_def
            split: sum.splits option.splits)
    qed
  qed
qed

text \<open>C12: A request is not handled twice: once an idempotent request was handed on, the same
  request, with any handler behind it, is answered 202 with the stored body and changes nothing
  but what the lookup changes, as long as the key is still held. Assumed of the rest: Redis answers
  a GET after a SET with expiry, the handler and the random source leave that entry alone, and
  serde_json reads back what it wrote.\<close>

theorem idempotency_duplicate:
  assumes redis: "stores a"
    and req: "idempotent_request a rq0 = Ok (key, body, v, session)"
    and json: "ae_to_json a v = Ok json" "ae_parse_json a json = Ok v"
    and first: "ensure_request_id a rq0 w0 = (rid, rq, w1)"
      "redis_get (ae_exec a) (ae_env a) key w1 = (Ok None, w2)"
      "redis_store (ae_to_json a) (ae_exec a) (ae_env a) key v (from_secs session) w2 = (Ok (), w3)"
    and quiet: "\<And>w r. holds a key json w \<Longrightarrow> holds a key json (snd (handler r w))"
      "\<And>w. holds a key json w \<Longrightarrow> holds a key json (snd (ae_random a w))"
    and again: "ensure_request_id a rq0 (snd (verify_idempotency a handler rq0 w0)) = (rid', rq', w')"
  shows "verify_idempotency a handler' rq0 (snd (verify_idempotency a handler rq0 w0)) =
    (with_request_id (into_response id (in_process v)) rid',
     snd (redis_get (ae_exec a) (ae_env a) key w'))"
proof -
  have req1: "idempotent_request a rq = Ok (key, body, v, session)"
    "idempotent_request a rq' = Ok (key, body, v, session)"
    using req ensure_request_id_keeps(1) [OF first(1)] ensure_request_id_keeps(1) [OF again] by simp_all
  have "1 \<le> session"
    using idempotent_request_Ok [OF req] by simp
  then have "holds a key json w3"
    using redis_store_holds [OF redis _ json(1) first(3)] by simp
  moreover have "snd (verify_idempotency a handler rq0 w0) = snd (handler (rq\<lparr>rq_body := ae_from_bytes a body\<rparr>) w3)"
    by (simp add: verify_idempotency_def first req1 run_next_def split: prod.split)
  ultimately have "holds a key json (snd (verify_idempotency a handler rq0 w0))"
    using quiet(1) by simp
  then have "holds a key json w'"
    using ensure_request_id_keeps(2) [OF again] quiet(2) by auto
  then have get: "redis_get (ae_exec a) (ae_env a) key w' =
      (Ok (Some json), snd (redis_get (ae_exec a) (ae_env a) key w'))"
    using redis_get_holds by (metis prod.collapse)
  show ?thesis
    by (subst verify_idempotency_def, simp add: again req1, subst get,
        simp add: cached_value_def json)
qed

theorem idempotency_duplicate_witness:
  "rs_code (fst (verify_idempotency demo_env demo_handler demo_post
     (snd (verify_idempotency demo_env demo_handler demo_post Map.empty)))) = 202"
proof -
  let ?w = "snd (verify_idempotency demo_env demo_handler demo_post Map.empty)"
  have keep: "holds demo_env ''k'' ''7'' (snd (demo_handler r w))"
    "holds demo_env ''k'' ''7'' (snd (ae_random demo_env w))"
    if "holds demo_env ''k'' ''7'' w" for r w
    using that by (simp_all add: demo_handler_def demo_env_def)
  obtain rid rq w where again: "ensure_request_id demo_env demo_post ?w = (rid, rq, w)"
    by (metis prod.exhaust)
  have "ae_to_json demo_env (JStr ''7'') = Ok ''7''" "ae_parse_json demo_env ''7'' = Ok (JStr ''7'')"
    by (simp_all add: demo_env_def)
  moreover have "redis_get (ae_exec demo_env) (ae_env demo_env) ''k'' Map.empty = (Ok None, Map.empty)"
    by (simp add: redis_get_def bounded_def demo_env_def)
  moreover have "redis_store (ae_to_json demo_env) (ae_exec demo_env) (ae_env demo_env) ''k'' (JStr ''7'')
      (from_secs 9) Map.empty = (Ok (), [''k'' \<mapsto> ''7''])"
    by (simp add: redis_store_def bounded_def demo_env_def store_cmd_def Let_def)
  ultimately show ?thesis
    using idempotency_duplicate [OF demo_stores demo_request_ok _ _ demo_first_request
        _ _ keep again, where handler' = demo_handler]
    by (simp add: with_request_id_def into_response_def in_process_def split: option.split)
qed

text \<open>The three middlewares answer with the request id they work under, which is the client's
  when it sent a readable one; \<open>hex\<close> is assumed to write visible characters.\<close>

theorem auth_request_id:
  assumes hex: "\<And>b. list_all visible (cr_hex (ae_crypto a) b)"
    and id: "ensure_request_id a rq w = (rid, rq', w')"
  shows "header_get request_id_header (rs_headers (fst (verify_csrf a handler rq w))) = Some rid \<and>
    header_get request_id_header (rs_headers (fst (revoke_token a handler rq w))) = Some rid \<and>
    header_get request_id_header (rs_headers (fst (verify_idempotency a handler rq w))) = Some rid \<and>
    (header_text rq request_id_header = [] \<or> rid = header_text rq request_id_header)"
proof -
  note v = ensure_request_id_valid [OF hex id, THEN conjunct1]
  note set_id = header_get_with_request_id [OF v]
  have "header_text rq request_id_header = [] \<or> rid = header_text rq request_id_header"
    using id by (auto simp: ensure_request_id_def get_or_generate_request_id_def Let_def header_text_def
        split: prod.splits option.splits if_splits)
  with set_id show ?thesis
    by (auto simp: verify_csrf_def revoke_token_def verify_idempotency_def id answer_def run_next_def Let_def
        split: prod.splits sum.splits option.splits)
qed

theorem auth_request_id_witness:
  "header_get request_id_header (rs_headers (fst (verify_csrf demo_env demo_handler demo_post Map.empty)))
     = Some ''k''"
proof -
  have "list_all visible (cr_hex (ae_crypto demo_env) b)" for b
    by (simp add: demo_env_def demo_crypto_def visible_def)
  from auth_request_id [OF this demo_first_request, where handler = demo_handler] show ?thesis
    by blast
qed

text \<open>A merchant id is always an \<open>i64\<close>, and reading it is the identity on the \<open>i64\<close> values,
  written as a number, as a whole double or as digits; but \<open>2 ^ 63\<close>, which no \<open>i64\<close> holds, is read
  as \<open>i64::MAX\<close> (the double it rounds to passes the range check and saturates) while
  \<open>2 ^ 64 - 1\<close> is refused.\<close>

theorem merchant_id_range:
  "(case merchant_id extra of None \<Rightarrow> True | Some m \<Rightarrow> i64_min \<le> m \<and> m \<le> i64_max) \<and>
   merchant_id [(''MerchantId'', Extra_Int (sint (i :: 64 word)))] = Some (sint i) \<and>
   merchant_id [(''MerchantId'', Extra_Float (sint i) 0)] = Some (sint i) \<and>
   merchant_id [(''MerchantId'', Extra_Str (show_int (sint i)))] = Some (sint i) \<and>
   merchant_id [(''MerchantId'', Extra_Int (2 ^ 63))] = Some (2 ^ 63 - 1) \<and>
   merchant_id [(''MerchantId'', Extra_Int (2 ^ 64 - 1))] = None"
  using merchant_id_bounds [of extra] merchant_id_i64 [of "sint i"] merchant_id_overflow
    sint_range_size [of i] by (simp add: width_defs word_size split: option.split)

end
