(* ===== verification/PcLogGate.thy ===== *)
theory PcLogGate
  imports PcCore
begin

section \<open>The contract of a per-key log gate\<close>

text \<open>
  Every log macro asks a gate, per key, whether to print a line and how many lines of that key
  it swallowed before: the sampler (\<open>sampler.rs\<close>) and the window limiter (\<open>ratelimit.rs\<close>).
  Both keep their entries in a \<open>DashMap\<close>, which gives exclusive access to one key's entry
  during a check, so a check is one atomic step on the entry of its key. The locale states
  that: the verdict and the new entry of a key depend on that key's entry alone. What the
  callers rely on (interleaving with other keys changes nothing, a refused line reports no
  count) is proved once here and holds for both gates.
\<close>

type_synonym verdict = "bool \<times> int"

text \<open>A run of a gate over a sequence of checks, each an input (time, window) and a key.\<close>

fun gate_run ::
  "('s \<Rightarrow> 'i \<Rightarrow> 'k \<Rightarrow> 'v \<times> 's) \<Rightarrow> 's \<Rightarrow> ('i \<times> 'k) list \<Rightarrow> 'v list \<times> 's" where
  "gate_run check s [] = ([], s)"
| "gate_run check s ((i, k) # es) =
     (let (v, s1) = check s i k; (vs, s2) = gate_run check s1 es in (v # vs, s2))"

text \<open>The same for a single entry.\<close>

fun cell_run :: "('c \<Rightarrow> 'i \<Rightarrow> 'v \<times> 'c) \<Rightarrow> 'c \<Rightarrow> 'i list \<Rightarrow> 'v list \<times> 'c" where
  "cell_run stepc c [] = ([], c)"
| "cell_run stepc c (i # is) =
     (let (v, c1) = stepc c i; (vs, c2) = cell_run stepc c1 is in (v # vs, c2))"

definition inputs_of :: "'k \<Rightarrow> ('i \<times> 'k) list \<Rightarrow> 'i list" where
  "inputs_of k es = map fst (filter (\<lambda>e. snd e = k) es)"

definition verdicts_of :: "'k \<Rightarrow> 'v list \<Rightarrow> ('i \<times> 'k) list \<Rightarrow> 'v list" where
  "verdicts_of k vs es = map fst (filter (\<lambda>(v, e). snd e = k) (zip vs es))"

lemma inputs_of_simps [simp]:
  "inputs_of k [] = []"
  "inputs_of k (e # es) = (if snd e = k then fst e # inputs_of k es else inputs_of k es)"
  by (simp_all add: inputs_of_def)

lemma verdicts_of_simps [simp]:
  "verdicts_of k [] es = []"
  "verdicts_of k (v # vs) (e # es) =
     (if snd e = k then v # verdicts_of k vs es else verdicts_of k vs es)"
  by (simp_all add: verdicts_of_def)

lemma cell_run_Cons:
  "fst (cell_run stepc c (i # is)) = fst (stepc c i) # fst (cell_run stepc (snd (stepc c i)) is)"
  "snd (cell_run stepc c (i # is)) = snd (cell_run stepc (snd (stepc c i)) is)"
  by (simp_all add: split_beta Let_def)

lemma gate_run_Cons:
  "fst (gate_run check s ((i, k) # es)) =
     fst (check s i k) # fst (gate_run check (snd (check s i k)) es)"
  "snd (gate_run check s ((i, k) # es)) = snd (gate_run check (snd (check s i k)) es)"
  by (simp_all add: split_beta Let_def)

lemma length_gate_run [simp]: "length (fst (gate_run check s es)) = length es"
proof (induction es arbitrary: s)
  case (Cons e es)
  then show ?case
    by (cases e) (simp add: gate_run_Cons del: gate_run.simps)
qed simp

lemma cell_run_append:
  "cell_run stepc c (ts @ us) =
     (case cell_run stepc c ts of (vs, c') \<Rightarrow> case cell_run stepc c' us of (ws, c'') \<Rightarrow> (vs @ ws, c''))"
  by (induction ts arbitrary: c) (simp_all add: split_beta Let_def)

lemma length_cell_run [simp]: "length (fst (cell_run stepc c is)) = length is"
proof (induction "is" arbitrary: c)
  case (Cons e es)
  then show ?case by (simp add: cell_run_Cons del: cell_run.simps)
qed simp

locale keyed_gate =
  fixes check :: "'s \<Rightarrow> 'i \<Rightarrow> 'k \<Rightarrow> verdict \<times> 's"
    and cell :: "'s \<Rightarrow> 'k \<Rightarrow> 'c"
    and stepc :: "'c \<Rightarrow> 'i \<Rightarrow> verdict \<times> 'c"
  assumes check_verdict: "fst (check s i k) = fst (stepc (cell s k) i)"
    and check_own: "cell (snd (check s i k)) k = snd (stepc (cell s k) i)"
    and check_other: "k' \<noteq> k \<Longrightarrow> cell (snd (check s i k)) k' = cell s k'"
begin

text \<open>Checks of other keys in between change neither the verdicts nor the entry of a key.\<close>

lemma projection:
  "verdicts_of k (fst (gate_run check s es)) es = fst (cell_run stepc (cell s k) (inputs_of k es))"
  "cell (snd (gate_run check s es)) k = snd (cell_run stepc (cell s k) (inputs_of k es))"
proof (induction es arbitrary: s)
  case Nil
  {
    case 1 show ?case by simp
  next
    case 2 show ?case by simp
  }
next
  case (Cons e es)
  obtain i k' where e: "e = (i, k')" by (cases e)
  {
    case 1
    show ?case
      using Cons.IH(1) [of "snd (check s i k')"] check_verdict [of s i k'] check_own [of s i k']
        check_other [of k k' s i]
      by (auto simp: e gate_run_Cons cell_run_Cons simp del: gate_run.simps cell_run.simps)
  next
    case 2
    show ?case
      using Cons.IH(2) [of "snd (check s i k')"] check_own [of s i k'] check_other [of k k' s i]
      by (auto simp: e gate_run_Cons cell_run_Cons simp del: gate_run.simps cell_run.simps)
  }
qed

end

text \<open>A gate whose reports make sense: a refused line carries no count, and a count is never
  negative. \<open>good\<close> is the invariant of an entry.\<close>

locale emit_gate = keyed_gate check cell stepc
  for check :: "'s \<Rightarrow> 'i \<Rightarrow> 'k \<Rightarrow> verdict \<times> 's"
    and cell :: "'s \<Rightarrow> 'k \<Rightarrow> 'c"
    and stepc :: "'c \<Rightarrow> 'i \<Rightarrow> verdict \<times> 'c" +
  fixes good :: "'c \<Rightarrow> bool"
  assumes good_step: "good c \<Longrightarrow> good (snd (stepc c i))"
    and refused_silent: "good c \<Longrightarrow> \<not> fst (fst (stepc c i)) \<Longrightarrow> snd (fst (stepc c i)) = 0"
    and report_nonneg: "good c \<Longrightarrow> 0 \<le> snd (fst (stepc c i))"
begin

lemma good_check: "(\<forall>k. good (cell s k)) \<Longrightarrow> good (cell (snd (check s i k)) k')"
  by (cases "k' = k") (auto simp: check_own check_other good_step)

lemma run_reports:
  "(\<forall>k. good (cell s k)) \<Longrightarrow>
     \<forall>v \<in> set (fst (gate_run check s es)). 0 \<le> snd v \<and> (\<not> fst v \<longrightarrow> snd v = 0)"
proof (induction es arbitrary: s)
  case Nil
  then show ?case by simp
next
  case (Cons e es)
  obtain i k where e: "e = (i, k)" by (cases e)
  have "\<forall>k'. good (cell (snd (check s i k)) k')"
    using Cons.prems good_check by blast
  with Cons.IH have "\<forall>v \<in> set (fst (gate_run check (snd (check s i k)) es)).
      0 \<le> snd v \<and> (\<not> fst v \<longrightarrow> snd v = 0)"
    by blast
  moreover have "0 \<le> snd (fst (check s i k)) \<and>
      (\<not> fst (fst (check s i k)) \<longrightarrow> snd (fst (check s i k)) = 0)"
    using Cons.prems by (simp add: check_verdict refused_silent report_nonneg)
  ultimately show ?case by (simp add: e gate_run_Cons del: gate_run.simps)
qed

end

subsection \<open>Totals of a run\<close>

definition emitted :: "verdict list \<Rightarrow> int" where
  "emitted vs = int (length (filter fst vs))"

definition reported :: "verdict list \<Rightarrow> int" where
  "reported vs = sum_list (map snd (filter fst vs))"

lemma totals_simps [simp]:
  "emitted [] = 0"
  "reported [] = 0"
  "emitted (v # vs) = (if fst v then 1 + emitted vs else emitted vs)"
  "reported (v # vs) = (if fst v then snd v + reported vs else reported vs)"
  by (simp_all add: emitted_def reported_def)

lemma totals_append [simp]:
  "emitted (vs @ ws) = emitted vs + emitted ws"
  "reported (vs @ ws) = reported vs + reported ws"
  by (simp_all add: emitted_def reported_def)

text \<open>What the macros make of a verdict: \<open>Some\<close> of the count when the line is printed
  (\<open>sample\<close> and \<open>sample_window\<close> end in this match).\<close>

definition verdict_option :: "verdict \<Rightarrow> int option" where
  "verdict_option v = (if fst v then Some (snd v) else None)"

end
