(* ===== verification/PcWindow.thy ===== *)
theory PcWindow
  imports PcLogGate
begin

section \<open>pc-log: the window rate limiter\<close>

text \<open>
  \<open>crates/pc-log/src/ratelimit.rs\<close>. An entry remembers when its key was last printed and how
  many lines it swallowed since. The clock is read before the entry is locked and the window
  is chosen by each call, so an input of a check is a pair of both. The swallowed lines are
  counted in an \<open>i64\<close>, one per call since the last printed line; it is an \<open>int\<close> here.
\<close>

record rate_limit_entry =
  rl_last_emit :: "instant option"
  rl_suppressed :: int

type_synonym rate_limiter = "string \<Rightarrow> rate_limit_entry option"

definition rate_limiter_new :: rate_limiter where
  "rate_limiter_new = (\<lambda>_. None)"

definition rl_entry_or_insert :: "rate_limit_entry option \<Rightarrow> rate_limit_entry" where
  "rl_entry_or_insert e =
     (case e of Some e' \<Rightarrow> e' | None \<Rightarrow> \<lparr>rl_last_emit = None, rl_suppressed = 0\<rparr>)"

definition rl_within :: "rate_limit_entry \<Rightarrow> instant \<Rightarrow> duration \<Rightarrow> bool" where
  "rl_within e now window =
     (case rl_last_emit e of Some l \<Rightarrow> since now l < window | None \<Rightarrow> False)"

definition rl_cell_step ::
  "rate_limit_entry option \<Rightarrow> instant \<times> duration \<Rightarrow> verdict \<times> rate_limit_entry option" where
  "rl_cell_step c input =
     (let (now, window) = input in
      if window = 0 then ((True, 0), c)
      else
        let entry = rl_entry_or_insert c in
        if rl_within entry now window
        then ((False, 0), Some (entry\<lparr>rl_suppressed := rl_suppressed entry + 1\<rparr>))
        else ((True, rl_suppressed entry),
              Some (entry\<lparr>rl_suppressed := 0, rl_last_emit := Some now\<rparr>)))"

definition rl_check ::
  "rate_limiter \<Rightarrow> instant \<times> duration \<Rightarrow> string \<Rightarrow> verdict \<times> rate_limiter" where
  "rl_check s input key =
     (let (now, window) = input in
      if window = 0 then ((True, 0), s)
      else
        let entry = rl_entry_or_insert (s key) in
        if rl_within entry now window
        then ((False, 0), s(key \<mapsto> entry\<lparr>rl_suppressed := rl_suppressed entry + 1\<rparr>))
        else ((True, rl_suppressed entry),
              s(key \<mapsto> entry\<lparr>rl_suppressed := 0, rl_last_emit := Some now\<rparr>)))"

definition sample_window ::
  "rate_limiter \<Rightarrow> instant \<Rightarrow> string \<Rightarrow> duration \<Rightarrow> int option \<times> rate_limiter" where
  "sample_window s now key window =
     (let (v, s') = rl_check s (now, window) key in (verdict_option v, s'))"

text \<open>The lines an entry has swallowed and not yet reported.\<close>

definition rl_pending :: "rate_limit_entry option \<Rightarrow> int" where
  "rl_pending c = (case c of None \<Rightarrow> 0 | Some e \<Rightarrow> rl_suppressed e)"

lemmas rl_defs = rl_check_def rl_cell_step_def rl_entry_or_insert_def rl_within_def rl_pending_def

interpretation window_gate:
  emit_gate rl_check "\<lambda>s k. s k" rl_cell_step "\<lambda>c. 0 \<le> rl_pending c"
  by unfold_locales
    (auto simp: rl_defs Let_def split_beta split: option.splits if_splits)

lemma rl_cell_conserve_step:
  "rl_pending (snd (rl_cell_step c i)) +
     (if fst (fst (rl_cell_step c i)) then 1 + snd (fst (rl_cell_step c i)) else 0) =
   1 + rl_pending c"
  by (cases i) (auto simp: rl_defs Let_def split: option.splits)

lemma rl_cell_conserve:
  "emitted (fst (cell_run rl_cell_step c is)) + reported (fst (cell_run rl_cell_step c is)) +
     rl_pending (snd (cell_run rl_cell_step c is)) = int (length is) + rl_pending c"
proof (induction "is" arbitrary: c)
  case Nil
  then show ?case by simp
next
  case (Cons i "is")
  from Cons [of "snd (rl_cell_step c i)"] rl_cell_conserve_step [of c i]
  show ?case
    by (auto simp: cell_run_Cons simp del: cell_run.simps split: if_splits)
qed

subsection \<open>Spacing of the printed lines\<close>

text \<open>The times at which a sequence of checks printed.\<close>

definition emit_times :: "verdict list \<Rightarrow> (instant \<times> duration) list \<Rightarrow> instant list" where
  "emit_times vs is = map (fst \<circ> snd) (filter (fst \<circ> fst) (zip vs is))"

lemma emit_times_simps [simp]:
  "emit_times [] is = []"
  "emit_times (v # vs) (i # is) =
     (if fst v then fst i # emit_times vs is else emit_times vs is)"
  by (simp_all add: emit_times_def)

definition spaced :: "duration \<Rightarrow> instant list \<Rightarrow> bool" where
  "spaced w ts = successively (\<lambda>a b. a + w \<le> b) ts"

lemma rl_step_within:
  "0 < w \<Longrightarrow> rl_last_emit e = Some l \<Longrightarrow> t - l < w \<Longrightarrow>
     rl_cell_step (Some e) (t, w) =
       ((False, 0), Some (e\<lparr>rl_suppressed := rl_suppressed e + 1\<rparr>))"
  by (simp add: rl_defs since_def)

lemma rl_step_after:
  "0 < w \<Longrightarrow> rl_last_emit e = Some l \<Longrightarrow> \<not> t - l < w \<Longrightarrow>
     rl_cell_step (Some e) (t, w) =
       ((True, rl_suppressed e), Some (e\<lparr>rl_suppressed := 0, rl_last_emit := Some t\<rparr>))"
  by (simp add: rl_defs since_def)

lemma rl_spaced_from:
  assumes "0 < w" "sorted (l # ts)" "rl_last_emit e = Some l"
  shows "spaced w (l # emit_times (fst (cell_run rl_cell_step (Some e) (map (\<lambda>t. (t, w)) ts)))
    (map (\<lambda>t. (t, w)) ts))"
  using assms
proof (induction ts arbitrary: l e)
  case Nil
  then show ?case by (simp add: spaced_def)
next
  case (Cons t ts)
  show ?case
  proof (cases "t - l < w")
    case True
    with Cons.prems Cons.IH [of l "e\<lparr>rl_suppressed := rl_suppressed e + 1\<rparr>"] show ?thesis
      by (simp add: rl_step_within cell_run_Cons del: cell_run.simps)
  next
    case False
    with Cons.prems have "l + w \<le> t" by auto
    with Cons.prems False Cons.IH [of t "e\<lparr>rl_suppressed := 0, rl_last_emit := Some t\<rparr>"]
    show ?thesis
      by (simp add: rl_step_after cell_run_Cons spaced_def del: cell_run.simps)
  qed
qed

lemma rl_spaced_fresh:
  assumes "0 < w" "sorted ts"
  shows "spaced w (emit_times (fst (cell_run rl_cell_step None (map (\<lambda>t. (t, w)) ts)))
    (map (\<lambda>t. (t, w)) ts))"
proof (cases ts)
  case Nil
  then show ?thesis by (simp add: spaced_def)
next
  case (Cons t rest)
  have first: "rl_cell_step None (t, w) =
      ((True, 0), Some \<lparr>rl_last_emit = Some t, rl_suppressed = 0\<rparr>)"
    using assms(1) by (simp add: rl_defs)
  with Cons assms rl_spaced_from [of w t rest "\<lparr>rl_last_emit = Some t, rl_suppressed = 0\<rparr>"]
  show ?thesis by (simp add: cell_run_Cons del: cell_run.simps)
qed

subsection \<open>Properties\<close>

text \<open>C26: No line is lost by the window limiter: over any interleaving of checks, with any windows,
  the lines of a key that were printed, those they reported as swallowed and those the entry still
  holds back are together all lines of that key; every report is at least zero and a refused line
  reports nothing.\<close>

theorem window_conserves:
  "let (vs, s') = gate_run rl_check rate_limiter_new es; own = verdicts_of key vs es in
   emitted own + reported own + rl_pending (s' key) = int (length (inputs_of key es)) \<and>
   list_all (\<lambda>v. 0 \<le> snd v \<and> (fst v \<or> snd v = 0)) vs"
proof -
  obtain vs s' where run: "gate_run rl_check rate_limiter_new es = (vs, s')"
    by (metis prod.exhaust)
  have "\<forall>k. 0 \<le> rl_pending (rate_limiter_new k)"
    by (simp add: rate_limiter_new_def rl_pending_def)
  from window_gate.run_reports [OF this, of es]
  have "list_all (\<lambda>v. 0 \<le> snd v \<and> (fst v \<or> snd v = 0)) vs"
    by (auto simp: run list_all_iff)
  moreover have "emitted (verdicts_of key vs es) + reported (verdicts_of key vs es) + rl_pending (s' key) =
      int (length (inputs_of key es))"
    using rl_cell_conserve [of "rate_limiter_new key" "inputs_of key es"]
    unfolding window_gate.projection [where k = key and s = rate_limiter_new and es = es, symmetric] run
    by (simp add: rate_limiter_new_def rl_pending_def)
  ultimately show ?thesis by (simp add: run)
qed

text \<open>At most one line per window: when the calls of a key use one positive window and the clock
  does not run backwards, any two printed lines of that key are at least a window apart, whatever
  happens on other keys.\<close>

theorem window_spacing:
  assumes "0 < w" "sorted ts" "inputs_of key es = map (\<lambda>t. (t, w)) ts"
  shows "spaced w (emit_times (verdicts_of key (fst (gate_run rl_check rate_limiter_new es)) es)
    (inputs_of key es))"
  using rl_spaced_fresh [OF assms(1,2)] assms(3)
  by (simp add: window_gate.projection(1) rate_limiter_new_def)

theorem window_spacing_witness:
  "let es = [((0, 10), ''a''), ((4, 3), ''b''), ((6, 10), ''a''), ((11, 10), ''a'')] in
   spaced 10 (emit_times (verdicts_of ''a'' (fst (gate_run rl_check rate_limiter_new es)) es)
     (inputs_of ''a'' es))"
  using window_spacing [of 10 "[0, 6, 11]" "''a''"
      "[((0, 10), ''a''), ((4, 3), ''b''), ((6, 10), ''a''), ((11, 10), ''a'')]"]
  by (simp del: gate_run.simps)

end
