(* ===== verification/PcBreaker.thy ===== *)
theory PcBreaker
  imports PcWindow
begin

section \<open>pc-resilience: the circuit breaker\<close>

text \<open>
  \<open>crates/pc-resilience/src/breaker.rs\<close>. Every method locks the one mutex for its whole body,
  so a method is one atomic step; the clock reads of one method (\<open>t.elapsed()\<close> and
  \<open>Instant::now()\<close>, both under the lock) are one instant, an argument. \<open>call\<close> is not atomic:
  other calls run between its admission and the recording of its outcome, so a run of the
  breaker is a sequence of the four low-level steps (\<open>breaker_event\<close>). The failure counter
  is a \<open>u32\<close> and wraps (\<open>+= 1\<close> in a release build).

  The first part states what a client of a tripping breaker relies on; both breakers of the
  repository, this one and the pair of atomics in \<open>pc-audit\<close>, are shown to provide it.
\<close>

subsection \<open>The trip contract\<close>

text \<open>A sequence of recorded outcomes: \<open>None\<close> a success, \<open>Some t\<close> a failure at time \<open>t\<close>.\<close>

fun record_outcomes ::
  "('s \<Rightarrow> 's) \<Rightarrow> ('s \<Rightarrow> instant \<Rightarrow> 's) \<Rightarrow> 's \<Rightarrow> instant option list \<Rightarrow> 's" where
  "record_outcomes succ_op fail_op s [] = s"
| "record_outcomes succ_op fail_op s (None # os) = record_outcomes succ_op fail_op (succ_op s) os"
| "record_outcomes succ_op fail_op s (Some t # os) =
     record_outcomes succ_op fail_op (fail_op s t) os"

lemma record_outcomes_append:
  "record_outcomes ok fail s (os @ ps) =
     record_outcomes ok fail (record_outcomes ok fail s os) ps"
  by (induction ok fail s os rule: record_outcomes.induct) auto

text \<open>The longest run of failures a sequence of outcomes reaches, starting from \<open>n\<close>.\<close>

fun peak_streak :: "nat \<Rightarrow> instant option list \<Rightarrow> nat" where
  "peak_streak n [] = n"
| "peak_streak n (None # os) = max n (peak_streak 0 os)"
| "peak_streak n (Some t # os) = peak_streak (Suc n) os"

lemma peak_streak_ge: "n \<le> peak_streak n os"
  by (induction n os rule: peak_streak.induct) auto

text \<open>The failures a sequence of outcomes ends with, starting from \<open>n\<close>.\<close>

fun final_streak :: "nat \<Rightarrow> instant option list \<Rightarrow> nat" where
  "final_streak n [] = n"
| "final_streak n (None # os) = final_streak 0 os"
| "final_streak n (Some t # os) = final_streak (Suc n) os"

lemma peak_streak_failures: "peak_streak n (map Some ts) = n + length ts"
  by (induction ts arbitrary: n) auto

locale trip_breaker =
  fixes admits :: "'s \<Rightarrow> instant \<Rightarrow> bool"
    and calm :: "'s \<Rightarrow> instant \<Rightarrow> bool"
    and succeed :: "'s \<Rightarrow> 's"
    and failed :: "'s \<Rightarrow> instant \<Rightarrow> 's"
    and streak :: "'s \<Rightarrow> nat"
    and limit :: "'s \<Rightarrow> nat"
    and until :: "'s \<Rightarrow> instant \<Rightarrow> instant"
  assumes calm_admits: "calm s t0 \<Longrightarrow> t0 \<le> t \<Longrightarrow> admits s t"
    and calm_succeed: "calm s t0 \<Longrightarrow> calm (succeed s) t0"
    and streak_succeed: "streak (succeed s) = 0"
    and calm_failed: "calm s t0 \<Longrightarrow> Suc (streak s) < limit s \<Longrightarrow>
      calm (failed s t) t0 \<and> streak (failed s t) = Suc (streak s)"
    and limit_succeed: "limit (succeed s) = limit s"
    and limit_failed: "limit (failed s t) = limit s"
    and trips: "calm s t0 \<Longrightarrow> Suc (streak s) = limit s \<Longrightarrow>
      (t \<le> t' \<and> t' < until s t \<longrightarrow> \<not> admits (failed s t) t') \<and>
      (until s t \<le> t' \<longrightarrow> admits (failed s t) t')"
    and until_succeed: "until (succeed s) = until s"
    and until_failed: "until (failed s t) = until s"
begin

text \<open>Outcomes that never reach \<open>limit\<close> failures in a row leave the breaker admitting.\<close>

lemma outcomes_calm:
  "calm s t0 \<Longrightarrow> peak_streak (streak s) os < limit s \<Longrightarrow>
     calm (record_outcomes succeed failed s os) t0"
proof (induction os arbitrary: s)
  case Nil
  then show ?case by simp
next
  case (Cons oc os)
  show ?case
  proof (cases oc)
    case None
    with Cons show ?thesis by (simp add: calm_succeed streak_succeed limit_succeed)
  next
    case (Some t)
    with Cons.prems have "Suc (streak s) < limit s"
      using peak_streak_ge [of "Suc (streak s)" os] by simp
    with Cons Some show ?thesis by (simp add: calm_failed limit_failed)
  qed
qed

lemma streak_run:
  "calm s t0 \<Longrightarrow> streak s + length ts < limit s \<Longrightarrow>
     streak (record_outcomes succeed failed s (map Some ts)) = streak s + length ts \<and>
     calm (record_outcomes succeed failed s (map Some ts)) t0"
  by (induction ts arbitrary: s) (auto simp: calm_failed limit_failed)

lemma streak_outcomes:
  "calm s t0 \<Longrightarrow> peak_streak (streak s) os < limit s \<Longrightarrow>
     streak (record_outcomes succeed failed s os) = final_streak (streak s) os"
proof (induction os arbitrary: s)
  case (Cons oc os)
  show ?case
  proof (cases oc)
    case None
    with Cons show ?thesis by (simp add: calm_succeed streak_succeed limit_succeed)
  next
    case (Some t)
    with Cons.prems have "Suc (streak s) < limit s"
      using peak_streak_ge [of "Suc (streak s)" os] by simp
    with Cons Some show ?thesis by (simp add: calm_failed limit_failed)
  qed
qed simp

lemma limit_outcomes [simp]: "limit (record_outcomes succeed failed s os) = limit s"
proof (induction os arbitrary: s)
  case (Cons oc os)
  then show ?case by (cases oc) (simp_all add: limit_succeed limit_failed)
qed simp

lemma until_outcomes [simp]: "until (record_outcomes succeed failed s os) = until s"
proof (induction os arbitrary: s)
  case (Cons oc os)
  then show ?case by (cases oc) (simp_all add: until_succeed until_failed)
qed simp

text \<open>Exactly \<open>limit\<close> failures in a row trip it, from the last failure to the end of the
  cooldown and not beyond.\<close>

lemma outcomes_trip:
  assumes "calm s t0" and "streak s = 0" and "Suc (length ts) = limit s" and "t \<le> t'"
  shows "admits (record_outcomes succeed failed s (map Some (ts @ [t]))) t' \<longleftrightarrow> until s t \<le> t'"
proof -
  let ?s = "record_outcomes succeed failed s (map Some ts)"
  from assms streak_run [of s t0 ts] have "calm ?s t0" "Suc (streak ?s) = limit ?s"
    by simp_all
  from trips [OF this, of t t'] assms(4) show ?thesis
    by (auto simp: record_outcomes_append)
qed

text \<open>And more generally: the failure that completes a run of \<open>limit\<close>, after outcomes without one.\<close>

lemma outcomes_trip_after:
  assumes "calm s t0" and "peak_streak (streak s) os < limit s"
    and "Suc (final_streak (streak s) os) = limit s" and "t \<le> t'"
  shows "admits (record_outcomes succeed failed s (os @ [Some t])) t' \<longleftrightarrow> until s t \<le> t'"
proof -
  let ?s = "record_outcomes succeed failed s os"
  from assms outcomes_calm [of s t0 os] streak_outcomes [of s t0 os]
  have "calm ?s t0" "Suc (streak ?s) = limit ?s"
    by simp_all
  from trips [OF this, of t t'] assms(4) show ?thesis
    by (auto simp: record_outcomes_append)
qed

end

subsection \<open>State and steps\<close>

datatype breaker_state = Closed | Open | HalfOpen

record breaker =
  cb_threshold :: "32 word"
  cb_cooldown :: duration
  cb_state :: breaker_state
  cb_failures :: "32 word"
  cb_opened_at :: "instant option"
  cb_probe_started :: "instant option"

definition default_threshold :: "32 word" where
  "default_threshold = 10"

definition default_cooldown :: duration where
  "default_cooldown = from_secs 30"

definition breaker_new :: "32 word \<Rightarrow> duration \<Rightarrow> breaker" where
  "breaker_new threshold cooldown =
     \<lparr>cb_threshold = max threshold 1, cb_cooldown = cooldown, cb_state = Closed,
      cb_failures = 0, cb_opened_at = None, cb_probe_started = None\<rparr>"

definition breaker_default :: breaker where
  "breaker_default = breaker_new default_threshold default_cooldown"

definition current_state :: "breaker \<Rightarrow> breaker_state" where
  "current_state b = cb_state b"

definition current_failures :: "breaker \<Rightarrow> 32 word" where
  "current_failures b = cb_failures b"

definition none_or_elapsed :: "instant option \<Rightarrow> instant \<Rightarrow> duration \<Rightarrow> bool" where
  "none_or_elapsed o' now cooldown =
     (case o' of None \<Rightarrow> True | Some t \<Rightarrow> since now t \<ge> cooldown)"

definition try_acquire :: "breaker \<Rightarrow> instant \<Rightarrow> bool \<times> breaker" where
  "try_acquire g now =
     (case cb_state g of
        Closed \<Rightarrow> (True, g)
      | Open \<Rightarrow>
          if none_or_elapsed (cb_opened_at g) now (cb_cooldown g)
          then (True, g\<lparr>cb_state := HalfOpen, cb_probe_started := Some now\<rparr>)
          else (False, g)
      | HalfOpen \<Rightarrow>
          if none_or_elapsed (cb_probe_started g) now (cb_cooldown g)
          then (True, g\<lparr>cb_probe_started := Some now\<rparr>)
          else (False, g))"

definition record_success :: "breaker \<Rightarrow> breaker" where
  "record_success g =
     g\<lparr>cb_failures := 0, cb_state := Closed, cb_opened_at := None, cb_probe_started := None\<rparr>"

definition record_failure :: "breaker \<Rightarrow> instant \<Rightarrow> breaker" where
  "record_failure g now =
     (let g1 = g\<lparr>cb_failures := cb_failures g + 1\<rparr> in
      if cb_state g1 = HalfOpen \<or> cb_failures g1 \<ge> cb_threshold g1
      then g1\<lparr>cb_state := Open, cb_opened_at := Some now, cb_probe_started := None\<rparr>
      else g1)"

definition record_cancel :: "breaker \<Rightarrow> breaker" where
  "record_cancel g = g"

datatype 'e breaker_error = Breaker_Open | Breaker_Inner 'e

fun breaker_error_is_open :: "'e breaker_error \<Rightarrow> bool" where
  "breaker_error_is_open Breaker_Open = True"
| "breaker_error_is_open (Breaker_Inner e) = False"

text \<open>\<open>call\<close> with nothing in between: admission at \<open>t\<close>, the outcome \<open>r\<close> of the operation, its
  recording at \<open>u\<close>. The operation runs only when it is admitted (the first component of the
  result counts its runs).\<close>

definition call_after ::
  "('e \<Rightarrow> bool) \<Rightarrow> 'e + 'a \<Rightarrow> instant \<Rightarrow> breaker \<Rightarrow> ('e breaker_error + 'a) \<times> breaker" where
  "call_after is_cancellation r u g =
     (case r of
        Inr v \<Rightarrow> (Ok v, record_success g)
      | Inl e \<Rightarrow>
          if is_cancellation e then (Err (Breaker_Inner e), record_cancel g)
          else (Err (Breaker_Inner e), record_failure g u))"

definition breaker_call ::
  "('e \<Rightarrow> bool) \<Rightarrow> breaker \<Rightarrow> instant \<Rightarrow> 'e + 'a \<Rightarrow> instant
     \<Rightarrow> nat \<times> ('e breaker_error + 'a) \<times> breaker" where
  "breaker_call is_cancellation g t r u =
     (let (permitted, g1) = try_acquire g t in
      if \<not> permitted then (0, Err Breaker_Open, g1)
      else (1, call_after is_cancellation r u g1))"

subsection \<open>Runs\<close>

datatype breaker_event = Acquire instant | Success | Failure instant | Cancel

fun breaker_step :: "breaker \<Rightarrow> breaker_event \<Rightarrow> breaker" where
  "breaker_step g (Acquire t) = snd (try_acquire g t)"
| "breaker_step g Success = record_success g"
| "breaker_step g (Failure t) = record_failure g t"
| "breaker_step g Cancel = record_cancel g"

definition breaker_run :: "breaker \<Rightarrow> breaker_event list \<Rightarrow> breaker" where
  "breaker_run g es = foldl breaker_step g es"

text \<open>What holds of a breaker between steps: the two \<open>None\<close> cases of \<open>try_acquire\<close> never
  arise, and a closed breaker is below its threshold.\<close>

definition breaker_ok :: "breaker \<Rightarrow> bool" where
  "breaker_ok g \<longleftrightarrow>
     0 < cb_threshold g \<and>
     (case cb_state g of
        Closed \<Rightarrow> cb_opened_at g = None \<and> cb_probe_started g = None \<and>
          cb_failures g < cb_threshold g
      | Open \<Rightarrow> cb_opened_at g \<noteq> None \<and> cb_probe_started g = None
      | HalfOpen \<Rightarrow> cb_opened_at g \<noteq> None \<and> cb_probe_started g \<noteq> None)"

lemmas breaker_step_defs =
  try_acquire_def record_success_def record_failure_def record_cancel_def none_or_elapsed_def

lemma max_one_pos [simp]: "0 < max (w :: 32 word) 1"
  by (simp add: less_max_iff_disj)

lemma breaker_ok_new [simp]: "breaker_ok (breaker_new n d)"
  by (simp add: breaker_ok_def breaker_new_def)

lemma breaker_ok_step: "breaker_ok g \<Longrightarrow> breaker_ok (breaker_step g e)"
  by (cases e)
    (auto simp: breaker_ok_def breaker_step_defs Let_def not_le
      split: breaker_state.splits option.splits if_splits)

lemma breaker_ok_run: "breaker_ok g \<Longrightarrow> breaker_ok (breaker_run g es)"
  by (induction es arbitrary: g) (auto simp: breaker_run_def breaker_ok_step)

lemma breaker_config_step [simp]:
  "cb_threshold (breaker_step g e) = cb_threshold g"
  "cb_cooldown (breaker_step g e) = cb_cooldown g"
  by (cases e; simp add: breaker_step_defs Let_def split: breaker_state.splits option.splits)+

lemma breaker_config_run [simp]:
  "cb_threshold (breaker_run g es) = cb_threshold g"
  "cb_cooldown (breaker_run g es) = cb_cooldown g"
  by (induction es arbitrary: g) (simp_all add: breaker_run_def)

subsection \<open>The breaker provides the trip contract\<close>

definition breaker_admits :: "breaker \<Rightarrow> instant \<Rightarrow> bool" where
  "breaker_admits g t = fst (try_acquire g t)"

definition breaker_calm :: "breaker \<Rightarrow> instant \<Rightarrow> bool" where
  "breaker_calm g t0 \<longleftrightarrow> breaker_ok g \<and> cb_state g = Closed"

definition breaker_until :: "breaker \<Rightarrow> instant \<Rightarrow> instant" where
  "breaker_until g t = t + cb_cooldown g"

lemma word_suc_below:
  "Suc (unat (c :: 32 word)) \<le> unat (n :: 32 word) \<Longrightarrow> unat (c + 1) = Suc (unat c)"
proof -
  assume "Suc (unat c) \<le> unat n"
  moreover have "unat n < 2 ^ LENGTH(32)" by (rule unsigned_less)
  ultimately show ?thesis by (simp add: unat_word_ariths)
qed

lemma breaker_calm_cases:
  "breaker_calm g t0 \<Longrightarrow>
     0 < cb_threshold g \<and> cb_state g = Closed \<and> cb_opened_at g = None \<and>
     cb_probe_started g = None \<and> cb_failures g < cb_threshold g"
  by (auto simp: breaker_calm_def breaker_ok_def)

lemma breaker_below:
  assumes "breaker_calm g t0" "Suc (unat (cb_failures g)) < unat (cb_threshold g)"
  shows "record_failure g t = g\<lparr>cb_failures := cb_failures g + 1\<rparr>"
    and "unat (cb_failures g + 1) = Suc (unat (cb_failures g))"
  using assms word_suc_below [of "cb_failures g" "cb_threshold g"] breaker_calm_cases [OF assms(1)]
  by (auto simp: record_failure_def Let_def word_le_nat_alt)

lemma breaker_at_limit:
  assumes "breaker_calm g t0" "Suc (unat (cb_failures g)) = unat (cb_threshold g)"
  shows "record_failure g t =
    g\<lparr>cb_failures := cb_threshold g, cb_state := Open, cb_opened_at := Some t,
      cb_probe_started := None\<rparr>"
proof -
  have "cb_failures g + 1 = cb_threshold g"
    using assms(2) word_suc_below [of "cb_failures g" "cb_threshold g"]
    by (simp add: word_unat_eq_iff)
  then show ?thesis by (simp add: record_failure_def Let_def)
qed

interpretation resilience_trip:
  trip_breaker breaker_admits breaker_calm record_success record_failure
    "\<lambda>g. unat (cb_failures g)" "\<lambda>g. unat (cb_threshold g)" breaker_until
proof unfold_locales
  fix s :: breaker and t0 t t' :: instant
  assume calm: "breaker_calm s t0"
  from breaker_calm_cases [OF this] show "t0 \<le> t \<Longrightarrow> breaker_admits s t"
    by (simp add: breaker_admits_def try_acquire_def)
  from breaker_calm_cases [OF calm] show "breaker_calm (record_success s) t0"
    by (simp add: breaker_calm_def breaker_ok_def record_success_def)
  assume below: "Suc (unat (cb_failures s)) < unat (cb_threshold s)"
  with breaker_below(1) [OF calm this, of t] breaker_below(2) [OF calm this]
    breaker_calm_cases [OF calm]
  show "breaker_calm (record_failure s t) t0 \<and>
      unat (cb_failures (record_failure s t)) = Suc (unat (cb_failures s))"
    by (simp add: breaker_calm_def breaker_ok_def word_less_nat_alt)
next
  fix s :: breaker and t0 t t' :: instant
  assume "breaker_calm s t0" "Suc (unat (cb_failures s)) = unat (cb_threshold s)"
  from breaker_at_limit [OF this, of t]
  show "(t \<le> t' \<and> t' < breaker_until s t \<longrightarrow> \<not> breaker_admits (record_failure s t) t') \<and>
      (breaker_until s t \<le> t' \<longrightarrow> breaker_admits (record_failure s t) t')"
    by (auto simp: breaker_admits_def breaker_until_def try_acquire_def none_or_elapsed_def
        since_def)
qed (auto simp: record_success_def record_failure_def breaker_until_def Let_def fun_eq_iff)

subsection \<open>Probes\<close>

text \<open>The times at which a run lets calls through, whoever makes them and whatever else happens.\<close>

fun event_times :: "breaker_event list \<Rightarrow> instant list" where
  "event_times [] = []"
| "event_times (Acquire t # es) = t # event_times es"
| "event_times (Failure t # es) = t # event_times es"
| "event_times (Success # es) = event_times es"
| "event_times (Cancel # es) = event_times es"

fun admitted :: "breaker \<Rightarrow> breaker_event list \<Rightarrow> instant list" where
  "admitted g [] = []"
| "admitted g (Acquire t # es) =
     (if fst (try_acquire g t) then t # admitted (breaker_step g (Acquire t)) es
      else admitted (breaker_step g (Acquire t)) es)"
| "admitted g (e # es) = admitted (breaker_step g e) es"

text \<open>A breaker that lets nobody through before \<open>cooldown\<close> after \<open>l\<close>.\<close>

definition held_from :: "instant \<Rightarrow> breaker \<Rightarrow> bool" where
  "held_from l g \<longleftrightarrow>
     (case cb_state g of
        Closed \<Rightarrow> False
      | Open \<Rightarrow> (\<exists>t. cb_opened_at g = Some t \<and> l \<le> t)
      | HalfOpen \<Rightarrow> (\<exists>t. cb_probe_started g = Some t \<and> l \<le> t))"

lemma held_acquire:
  assumes "held_from l g" "l \<le> t"
  shows "if fst (try_acquire g t)
    then l + cb_cooldown g \<le> t \<and> held_from t (snd (try_acquire g t))
    else held_from l (snd (try_acquire g t))"
  using assms
  by (auto simp: held_from_def try_acquire_def none_or_elapsed_def since_def
      split: breaker_state.splits)

lemma held_failure: "held_from l g \<Longrightarrow> l \<le> t \<Longrightarrow> held_from l (record_failure g t)"
  by (auto simp: held_from_def record_failure_def Let_def split: breaker_state.splits)

lemma held_spaced:
  assumes "held_from l g" "sorted (l # event_times es)" "Success \<notin> set es"
  shows "spaced (cb_cooldown g) (l # admitted g es)"
  using assms
proof (induction es arbitrary: g l)
  case Nil
  then show ?case by (simp add: spaced_def)
next
  case (Cons e es)
  show ?case
  proof (cases e)
    case (Acquire t)
    with Cons.prems have step: "if fst (try_acquire g t)
        then l + cb_cooldown g \<le> t \<and> held_from t (snd (try_acquire g t))
        else held_from l (snd (try_acquire g t))"
      by (intro held_acquire) simp_all
    have config: "cb_cooldown (snd (try_acquire g t)) = cb_cooldown g"
      using breaker_config_step(2) [of g "Acquire t"] by simp
    show ?thesis
    proof (cases "fst (try_acquire g t)")
      case True
      with step Cons.IH [of t "snd (try_acquire g t)"] Cons.prems Acquire config show ?thesis
        by (simp add: spaced_def)
    next
      case False
      with step Cons.IH [of l "snd (try_acquire g t)"] Cons.prems Acquire config show ?thesis
        by simp
    qed
  next
    case (Failure t)
    with Cons.prems held_failure [of l g t] breaker_config_step(2) [of g "Failure t"]
      Cons.IH [of l "record_failure g t"] show ?thesis by simp
  qed (use Cons in \<open>simp_all add: record_cancel_def\<close>)
qed

text \<open>The outcomes recorded in a run; while no run of failures reaches the threshold, admissions and
  cancellations change nothing.\<close>

fun outcomes :: "breaker_event list \<Rightarrow> instant option list" where
  "outcomes [] = []"
| "outcomes (Acquire t # es) = outcomes es"
| "outcomes (Success # es) = None # outcomes es"
| "outcomes (Failure t # es) = Some t # outcomes es"
| "outcomes (Cancel # es) = outcomes es"

lemma breaker_run_append: "breaker_run g (es @ ds) = breaker_run (breaker_run g es) ds"
  by (simp add: breaker_run_def)

lemma breaker_run_simps: "breaker_run g [] = g" "breaker_run g (e # es) = breaker_run (breaker_step g e) es"
  by (simp_all add: breaker_run_def)

lemma calm_run:
  "breaker_calm g t0 \<Longrightarrow> peak_streak (unat (cb_failures g)) (outcomes es) < unat (cb_threshold g) \<Longrightarrow>
     breaker_run g es = record_outcomes record_success record_failure g (outcomes es)"
proof (induction es arbitrary: g)
  case Nil
  then show ?case by (simp add: breaker_run_def)
next
  case (Cons e es)
  show ?case
  proof (cases e)
    case (Acquire t)
    with Cons breaker_calm_cases [OF Cons.prems(1)] show ?thesis
      by (simp add: breaker_run_def try_acquire_def)
  next
    case Success
    with Cons resilience_trip.calm_succeed [OF Cons.prems(1)] show ?thesis
      by (simp add: breaker_run_def record_success_def)
  next
    case (Failure t)
    with Cons.prems(2) have "Suc (unat (cb_failures g)) < unat (cb_threshold g)"
      using peak_streak_ge [of "Suc (unat (cb_failures g))" "outcomes es"] by simp
    with Cons Failure resilience_trip.calm_failed [OF Cons.prems(1) this, of t] show ?thesis
      by (simp add: breaker_run_def resilience_trip.limit_failed)
  next
    case Cancel
    with Cons show ?thesis by (simp add: breaker_run_def record_cancel_def)
  qed
qed

lemma blocked_asks:
  "(\<And>u. u \<in> set us \<Longrightarrow> \<not> fst (try_acquire g u)) \<Longrightarrow>
     admitted g (map Acquire us) = [] \<and> breaker_run g (map Acquire us) = g"
proof (induction us)
  case (Cons u us)
  from Cons.prems [of u] have "\<not> fst (try_acquire g u)" by simp
  moreover from this have "snd (try_acquire g u) = g"
    by (auto simp: try_acquire_def split: breaker_state.splits if_splits)
  ultimately show ?case using Cons by (simp add: breaker_run_def)
qed (simp add: breaker_run_def)

text \<open>Cancelled calls leave no trace in a run.\<close>

lemma breaker_run_cancel:
  "breaker_run g (filter (\<lambda>e. e \<noteq> Cancel) es) = breaker_run g es"
  by (induction es arbitrary: g) (auto simp: breaker_run_def record_cancel_def)


subsection \<open>Properties\<close>

text \<open>C2: The breaker trips on consecutive failures and on nothing else.  Take a closed breaker, with
  whatever count of failures it has, and any run of admissions, successes, failures and
  cancellations.  As long as no run of failures in it, the count at the start included, reaches the
  threshold, the breaker stays closed and admits every call.  The failure at \<open>t\<close> that completes a run
  of \<open>threshold\<close> opens it: however many calls ask in the cooldown, each is blocked and none moves its
  end; and exactly from \<open>t + cooldown\<close> on one is admitted.\<close>

theorem breaker_trips:
  assumes "breaker_ok g" "cb_state g = Closed"
    and "peak_streak (unat (cb_failures g)) (outcomes es) < unat (cb_threshold g)"
  shows "cb_state (breaker_run g es) = Closed \<and> fst (try_acquire (breaker_run g es) t') \<and>
    (Suc (final_streak (unat (cb_failures g)) (outcomes es)) = unat (cb_threshold g) \<and>
     set asked \<subseteq> {t ..< t + cb_cooldown g} \<and> t \<le> t' \<longrightarrow>
       admitted (breaker_run g (es @ [Failure t])) (map Acquire asked) = [] \<and>
       (fst (try_acquire (breaker_run g (es @ [Failure t] @ map Acquire asked)) t') \<longleftrightarrow>
          t + cb_cooldown g \<le> t'))"
proof -
  let ?h = "breaker_run g es" and ?n = "unat (cb_failures g)"
  have calm: "breaker_calm g u" for u
    using assms(1,2) by (simp add: breaker_calm_def)
  note run = calm_run [OF calm assms(3)]
  have h: "breaker_calm ?h u" for u
    unfolding run by (rule resilience_trip.outcomes_calm [OF calm assms(3)])
  have trips: "breaker_admits (breaker_run g (es @ [Failure t])) u \<longleftrightarrow> breaker_until g t \<le> u"
    if "Suc (final_streak ?n (outcomes es)) = unat (cb_threshold g)" "t \<le> u" for u
    using resilience_trip.outcomes_trip_after [OF calm assms(3) that]
    by (simp add: breaker_run_append breaker_run_simps run record_outcomes_append)
  have blocked: "admitted (breaker_run g (es @ [Failure t])) (map Acquire us) = [] \<and>
      breaker_run g (es @ [Failure t] @ map Acquire us) = breaker_run g (es @ [Failure t])"
    if "Suc (final_streak ?n (outcomes es)) = unat (cb_threshold g)" "set us \<subseteq> {t ..< t + cb_cooldown g}" for us
    using that(2)
  proof -
    have "\<not> fst (try_acquire (breaker_run g (es @ [Failure t])) u)" if "u \<in> set us" for u
      using trips [of u] that \<open>set us \<subseteq> _\<close> \<open>Suc _ = _\<close>
      by (force simp: breaker_admits_def breaker_until_def)
    then show ?thesis
      using blocked_asks [of us "breaker_run g (es @ [Failure t])"]
      by (simp add: breaker_run_append breaker_run_simps)
  qed
  show ?thesis
    using h [of t'] breaker_calm_cases [OF h] resilience_trip.calm_admits [OF h, of t' t']
      blocked [of asked] trips [of t']
    by (auto simp: breaker_admits_def breaker_until_def)
qed

theorem breaker_trips_witness:
  "fst (try_acquire (breaker_run ((breaker_new 3 10)\<lparr>cb_failures := 1\<rparr>) [Failure 1, Acquire 2, Success, Failure 3, Cancel, Failure 4]) 5) \<and>
   \<not> fst (try_acquire (breaker_run ((breaker_new 3 10)\<lparr>cb_failures := 1\<rparr>)
     ([Failure 1, Acquire 2, Success, Failure 3, Cancel, Failure 4] @ [Failure 6] @ map Acquire [7, 9])) 15)"
proof -
  let ?g = "(breaker_new 3 10)\<lparr>cb_failures := 1\<rparr>"
  let ?es = "[Failure 1, Acquire 2, Success, Failure 3, Cancel, Failure 4]"
  have "breaker_ok ?g" "cb_state ?g = Closed" "unat (cb_failures ?g) = 1" "unat (cb_threshold ?g) = 3"
    "cb_cooldown ?g = 10"
    by (simp_all add: breaker_ok_def breaker_new_def)
  with breaker_trips [of ?g ?es 5 "[7, 9]" 6] breaker_trips [of ?g ?es 15 "[7, 9]" 6] show ?thesis
    by simp
qed

text \<open>The state invariant: whatever sequence of admissions, successes, failures and cancellations
  a new breaker goes through, a closed breaker is below its threshold with no timestamps, an open one
  carries the time of its last failure, a half-open one that of its probe, and threshold and cooldown
  never change; so the \<open>None\<close> timestamps of \<open>try_acquire\<close> are never met. Cancellations leave no trace.\<close>

theorem breaker_invariant:
  "breaker_ok (breaker_run (breaker_new n d) es) \<and>
   cb_threshold (breaker_run (breaker_new n d) es) = max n 1 \<and>
   cb_cooldown (breaker_run (breaker_new n d) es) = d \<and>
   breaker_run (breaker_new n d) (filter (\<lambda>e. e \<noteq> Cancel) es) = breaker_run (breaker_new n d) es"
  by (simp add: breaker_ok_run breaker_run_cancel) (simp add: breaker_new_def)

text \<open>C3: No thundering herd: from the moment a breaker opened until somebody reports a success,
  the calls it lets through are a cooldown apart, and the first comes no earlier than a cooldown
  after it opened, however many callers ask in between, and whatever failures and cancellations of
  earlier calls or of probes are recorded meanwhile.\<close>

theorem breaker_no_herd:
  assumes "cb_state g = Open" "cb_opened_at g = Some opened"
    and "sorted (opened # event_times es)" "Success \<notin> set es"
  shows "spaced (cb_cooldown g) (opened # admitted g es)"
  using assms by (intro held_spaced) (simp_all add: held_from_def)

theorem breaker_no_herd_witness:
  "admitted (record_failure (breaker_new 1 10) 1) [Acquire 5, Acquire 12, Acquire 13, Failure 14, Cancel, Acquire 22, Acquire 24] = [12, 24] \<and>
   spaced 10 (1 # admitted (record_failure (breaker_new 1 10) 1)
     [Acquire 5, Acquire 12, Acquire 13, Failure 14, Cancel, Acquire 22, Acquire 24])"
  using breaker_no_herd [of "record_failure (breaker_new 1 10) 1" 1
      "[Acquire 5, Acquire 12, Acquire 13, Failure 14, Cancel, Acquire 22, Acquire 24]"]
  by (simp add: breaker_step_defs breaker_new_def since_def)

text \<open>The contract of \<open>call\<close>: the operation runs at most once and only when \<open>try_acquire\<close> admits
  it; a blocked call reports \<open>Open\<close> and leaves the breaker as it was; an admitted one returns the
  operation's own result, and a success always leaves the breaker closed and clear, an error that is
  a cancellation leaves only the admission, and any other error counts as one failure.\<close>

theorem breaker_call_contract:
  "case breaker_call is_cancellation g t r u of (runs, result, g') \<Rightarrow>
     runs = (if fst (try_acquire g t) then 1 else 0) \<and>
     (result = Err Breaker_Open \<longleftrightarrow> runs = 0) \<and>
     (if runs = 0 then g' = g
      else case r of
             Inr v \<Rightarrow> result = Ok v \<and> cb_state g' = Closed \<and> cb_failures g' = 0 \<and>
               fst (try_acquire g' t')
           | Inl e \<Rightarrow> result = Err (Breaker_Inner e) \<and>
               g' = (if is_cancellation e then snd (try_acquire g t)
                     else record_failure (snd (try_acquire g t)) u))"
proof (cases "fst (try_acquire g t)")
  case False
  then have "snd (try_acquire g t) = g"
    by (auto simp: try_acquire_def split: breaker_state.splits if_splits)
  with False show ?thesis by (simp add: breaker_call_def split_beta)
next
  case True
  then show ?thesis
    by (cases r) (simp_all add: breaker_call_def split_beta call_after_def record_cancel_def
        record_success_def try_acquire_def)
qed

text \<open>The documented cooldown is not kept when an outcome arrives late: a call admitted while the
  breaker was closed that succeeds after it opened closes it at once, and one that fails then moves
  the start of the cooldown forward.\<close>

theorem breaker_late_outcomes:
  assumes "cb_state g = Open" "cb_opened_at g = Some opened" "opened \<le> t" "t < opened + cb_cooldown g"
    and "cb_threshold g \<le> cb_failures g" "cb_failures g < cb_failures g + 1" "t < u"
  shows "\<not> fst (try_acquire g t) \<and> fst (try_acquire (record_success g) t) \<and>
    cb_opened_at (record_failure g u) = Some u"
proof -
  have "\<not> cb_cooldown g \<le> since t opened"
    using assms(3,4) by (simp add: since_def not_le)
  moreover have "cb_threshold g \<le> cb_failures g + 1"
    using assms(5,6) by simp
  ultimately show ?thesis
    using assms(1,2) by (simp add: breaker_step_defs Let_def)
qed

theorem breaker_late_outcomes_witness:
  "\<not> fst (try_acquire (record_failure (breaker_new 1 10) 5) 8) \<and>
   fst (try_acquire (record_success (record_failure (breaker_new 1 10) 5)) 8)"
  using breaker_late_outcomes [of "record_failure (breaker_new 1 10) 5" 5 8 9]
  by (simp add: record_failure_def breaker_new_def)

end
