(* ===== verification/PcTimer.thy ===== *)
theory PcTimer
  imports PcPrelude
begin

section \<open>pc-log: the time stamp\<close>

text \<open>
  \<open>crates/pc-log/src/timer.rs\<close>. The clock and the time zone belong to the \<open>time\<close> crate: what
  \<open>now_local\<close> (which may fail) and \<open>now_utc\<close> return are arguments, as civil times. The format
  description is spelled out: zero-padded fields, the year with four digits (the \<open>time\<close> crate's
  range without \<open>large-dates\<close>), milliseconds cut from the nanoseconds. Formatting such a time
  does not fail.
\<close>

record civil_time =
  ct_year :: nat
  ct_month :: nat
  ct_day :: nat
  ct_hour :: nat
  ct_minute :: nat
  ct_second :: nat
  ct_nanosecond :: nat

definition civil_ok :: "civil_time \<Rightarrow> bool" where
  "civil_ok t \<longleftrightarrow> ct_year t \<le> 9999 \<and> ct_month t \<in> {1..12} \<and> ct_day t \<in> {1..31} \<and>
     ct_hour t < 24 \<and> ct_minute t < 60 \<and> ct_second t < 60 \<and> ct_nanosecond t < 10 ^ 9"

definition zero_pad :: "nat \<Rightarrow> nat \<Rightarrow> string" where
  "zero_pad w n = replicate (w - length (show_nat n)) (CHR ''0'') @ show_nat n"

definition render_time :: "civil_time \<Rightarrow> string" where
  "render_time t =
     zero_pad 4 (ct_year t) @ ''-'' @ zero_pad 2 (ct_month t) @ ''-'' @ zero_pad 2 (ct_day t) @ '' '' @
     zero_pad 2 (ct_hour t) @ '':'' @ zero_pad 2 (ct_minute t) @ '':'' @ zero_pad 2 (ct_second t) @
     ''.'' @ zero_pad 3 (ct_nanosecond t div 1000000)"

definition format_time :: "'x + civil_time \<Rightarrow> civil_time \<Rightarrow> string" where
  "format_time now_local now_utc =
     render_time (case now_local of Inr t \<Rightarrow> t | Inl e \<Rightarrow> now_utc)"

lemma length_show_nat: "0 < w \<Longrightarrow> n < 10 ^ w \<Longrightarrow> length (show_nat n) \<le> w"
proof (induction n arbitrary: w rule: show_nat.induct)
  case (1 n)
  show ?case
  proof (cases "n < 10")
    case True
    with 1(2) show ?thesis by (subst show_nat.simps) simp
  next
    case False
    with 1(2,3) obtain v where w: "w = Suc v" "0 < v"
      by (cases w; cases "w - 1") auto
    with 1(3) have "n div 10 < 10 ^ v" by (simp add: div_less_iff_less_mult mult.commute)
    with 1(1) [OF False w(2)] False w show ?thesis by (subst show_nat.simps) simp
  qed
qed

lemma dec_value_zeros: "dec_value 0 (replicate k (CHR ''0'') @ s) = dec_value 0 s"
  by (induction k) (simp_all add: digit_val_def)

lemma read_dec_zero_pad [simp]: "read_dec (zero_pad w n) = Some n"
  using show_nat_digits [of n]
  by (simp add: read_dec_def zero_pad_def dec_value_zeros dec_value_show_nat list_all_iff is_digit_def
      ball_Un)

lemma length_zero_pad: "0 < w \<Longrightarrow> n < 10 ^ w \<Longrightarrow> length (zero_pad w n) = w"
  using length_show_nat [of w n] by (simp add: zero_pad_def)

lemma take_drop_field:
  "length a = i \<Longrightarrow> length b = w \<Longrightarrow> take w (drop i (a @ b @ c)) = b"
  by simp

subsection \<open>Properties\<close>

text \<open>The columns of a time stamp.  Whether the local offset is known or the clock falls back to
  UTC, every time stamp has 23 characters, and its fields stand at fixed columns: reading the digits
  there gives back the year, month, day, hour, minute, second and the millisecond the time lies in.\<close>

theorem timestamp_columns:
  assumes "civil_ok (case now_local of Inr t \<Rightarrow> t | Inl e \<Rightarrow> now_utc)"
  shows "let t = (case now_local of Inr t \<Rightarrow> t | Inl e \<Rightarrow> now_utc); s = format_time now_local now_utc
    in length s = 23 \<and> read_dec (take 4 s) = Some (ct_year t) \<and>
       read_dec (take 2 (drop 5 s)) = Some (ct_month t) \<and> read_dec (take 2 (drop 8 s)) = Some (ct_day t) \<and>
       read_dec (take 2 (drop 11 s)) = Some (ct_hour t) \<and>
       read_dec (take 2 (drop 14 s)) = Some (ct_minute t) \<and>
       read_dec (take 2 (drop 17 s)) = Some (ct_second t) \<and>
       read_dec (drop 20 s) = Some (ct_nanosecond t div 1000000) \<and>
       map ((!) s) [4, 7, 10, 13, 16, 19] = ''-- ::.''"
proof -
  obtain t where t: "(case now_local of Inr t \<Rightarrow> t | Inl e \<Rightarrow> now_utc) = t" by simp
  with assms have ok: "civil_ok t" by simp
  have len: "length (zero_pad 4 (ct_year t)) = 4" "length (zero_pad 2 (ct_month t)) = 2"
    "length (zero_pad 2 (ct_day t)) = 2" "length (zero_pad 2 (ct_hour t)) = 2"
    "length (zero_pad 2 (ct_minute t)) = 2" "length (zero_pad 2 (ct_second t)) = 2"
    "length (zero_pad 3 (ct_nanosecond t div 1000000)) = 3"
    using ok by (auto simp: civil_ok_def intro!: length_zero_pad)
  show ?thesis
    unfolding format_time_def t Let_def render_time_def
    by (simp add: len nth_append)
qed

text \<open>A time in the last microseconds of a millisecond.\<close>

theorem timestamp_columns_witness:
  "read_dec (drop 20 (format_time (Inl ()) \<lparr>ct_year = 2026, ct_month = 1, ct_day = 2, ct_hour = 3,
     ct_minute = 4, ct_second = 5, ct_nanosecond = 7999999\<rparr>)) = Some 7"
proof -
  let ?t = "\<lparr>ct_year = 2026, ct_month = 1, ct_day = 2, ct_hour = 3, ct_minute = 4, ct_second = 5,
    ct_nanosecond = 7999999\<rparr>"
  have "civil_ok (case Inl () of Inr t \<Rightarrow> t | Inl e \<Rightarrow> ?t)" by (simp add: civil_ok_def)
  from timestamp_columns [OF this] show ?thesis by (simp add: Let_def)
qed

end
