(* ===== verification/PcAudit.thy ===== *)
theory PcAudit
  imports PcJson PcBreaker PcTimer "HOL-Library.Multiset"
begin

section \<open>pc-audit: envelopes and the asynchronous publisher\<close>

text \<open>
  \<open>crates/pc-audit/src/lib.rs\<close>. First the bodies and their JSON members as the derived
  encoders write them, then the payload constructors, then the publisher: its breaker (two
  atomics), \<open>submit\<close>, and the worker loop as steps of one shared state.
\<close>

subsection \<open>Constants\<close>

definition cmd_process :: string where "cmd_process = ''audit-trail-process''"
definition cmd_data :: string where "cmd_data = ''audit-trail-data''"
definition cmd_trx :: string where "cmd_trx = ''audit-trail-trx''"
definition cmd_trace :: string where "cmd_trace = ''transaction-trace''"
definition trace_kind_hop :: string where "trace_kind_hop = ''hop''"
definition trace_kind_milestone :: string where "trace_kind_milestone = ''milestone''"
definition trace_kind_poll :: string where "trace_kind_poll = ''poll''"
definition trace_leg_create_order :: string where "trace_leg_create_order = ''create_order''"
definition trace_leg_callback :: string where "trace_leg_callback = ''callback''"
definition trace_leg_lifecycle :: string where "trace_leg_lifecycle = ''lifecycle''"
definition trace_dir_inbound :: string where "trace_dir_inbound = ''inbound''"
definition trace_dir_outbound :: string where "trace_dir_outbound = ''outbound''"
definition trace_dir_internal :: string where "trace_dir_internal = ''internal''"

definition trx_states :: "string list" where
  "trx_states =
     [''request_received'', ''request_validated'', ''order_created'', ''channel_selected'',
      ''channel_processed'', ''vendor_request_sent'', ''vendor_token_acquired'', ''qr_generated'',
      ''vendor_request_failed'', ''transaction_updated'', ''payment_notified'', ''response_returned'',
      ''order_expired'', ''payment_received'', ''status_checked'']"

definition trx_statuses :: "string list" where
  "trx_statuses = [''processing'', ''success'', ''failed'', ''expired'']"

subsection \<open>Bodies and their members\<close>

record message_payload =
  mp_id :: int
  mp_command :: string
  mp_time :: string
  mp_module_id :: string
  mp_data :: jvalue

definition message_payload_json :: "message_payload \<Rightarrow> jvalue" where
  "message_payload_json p = JObj
     (member ''Id'' (JInt (mp_id p)) @ member ''Command'' (JStr (mp_command p)) @
      member ''Time'' (JStr (mp_time p)) @ member ''ModuleId'' (JStr (mp_module_id p)) @
      member ''Data'' (mp_data p))"

record data_audit_process =
  dp_time :: string
  dp_info :: string

definition data_audit_process_json :: "data_audit_process \<Rightarrow> jvalue" where
  "data_audit_process_json d = JObj
     (member ''Time'' (JStr (dp_time d)) @ member ''Info'' (JStr (dp_info d)))"

record audit_trail_process =
  atp_subject :: string
  atp_function :: string
  atp_description :: string
  atp_key :: "string list option"
  atp_data :: data_audit_process

definition audit_trail_process_json :: "audit_trail_process \<Rightarrow> jvalue" where
  "audit_trail_process_json a = JObj
     (skip_empty ''Subject'' (atp_subject a) @ skip_empty ''Function'' (atp_function a) @
      skip_empty ''Description'' (atp_description a) @ member ''Key'' (opt_strings (atp_key a)) @
      member ''Data'' (data_audit_process_json (atp_data a)))"

record request_audit =
  rq_time :: string
  rq_path :: string
  rq_query_string :: "jvalue option"
  rq_header :: "jvalue option"
  rq_param :: "jvalue option"
  rq_body :: "jvalue option"
  rq_ip_address :: string
  rq_browser_id :: int
  rq_latitude :: string
  rq_longitude :: string

definition request_audit_json :: "request_audit \<Rightarrow> jvalue" where
  "request_audit_json r = JObj
     (member ''Time'' (JStr (rq_time r)) @ skip_empty ''Path'' (rq_path r) @
      skip_none ''QueryString'' (rq_query_string r) @ skip_none ''Header'' (rq_header r) @
      skip_none ''Param'' (rq_param r) @ skip_none ''Body'' (rq_body r) @
      skip_empty ''IpAddress'' (rq_ip_address r) @ skip_zero ''BrowserId'' (rq_browser_id r) @
      skip_empty ''Latitude'' (rq_latitude r) @ skip_empty ''Longitude'' (rq_longitude r))"

record detail =
  dt_status_code :: int
  dt_message :: string
  dt_data :: "jvalue option"

definition detail_json :: "detail \<Rightarrow> jvalue" where
  "detail_json d = JObj
     (member ''StatusCode'' (JInt (dt_status_code d)) @ member ''Message'' (JStr (dt_message d)) @
      skip_none ''Data'' (dt_data d))"

record response_audit =
  rs_time :: string
  rs_detail :: detail

definition response_audit_json :: "response_audit \<Rightarrow> jvalue" where
  "response_audit_json r = JObj
     (member ''Time'' (JStr (rs_time r)) @ member ''Detail'' (detail_json (rs_detail r)))"

record request_and_response =
  rr_request :: request_audit
  rr_response :: response_audit

definition request_and_response_json :: "request_and_response \<Rightarrow> jvalue" where
  "request_and_response_json r = JObj
     (member ''Request'' (request_audit_json (rr_request r)) @
      member ''Response'' (response_audit_json (rr_response r)))"

record audit_trail_data =
  atd_subject :: string
  atd_function :: string
  atd_description :: string
  atd_key :: "string list option"
  atd_source :: string
  atd_communication_type :: string
  atd_data :: request_and_response

definition audit_trail_data_json :: "audit_trail_data \<Rightarrow> jvalue" where
  "audit_trail_data_json a = JObj
     (skip_empty ''Subject'' (atd_subject a) @ skip_empty ''Function'' (atd_function a) @
      skip_empty ''Description'' (atd_description a) @ member ''Key'' (opt_strings (atd_key a)) @
      member ''Source'' (JStr (atd_source a)) @
      member ''CommunicationType'' (JStr (atd_communication_type a)) @
      member ''Data'' (request_and_response_json (atd_data a)))"

record audit_trail_trx =
  tx_reff_no :: string
  tx_order_no :: string
  tx_ticket_id :: string
  tx_status :: string
  tx_state :: string
  tx_message :: string
  tx_service :: string
  tx_function :: string
  tx_description :: string
  tx_communication_type :: string
  tx_event_time :: string
  tx_duration_ms :: int
  tx_amount :: string
  tx_currency :: string
  tx_merchant_no :: string
  tx_payment_code :: string
  tx_qr_value :: string
  tx_rrn :: string
  tx_error_code :: string
  tx_vendor_name :: string
  tx_request :: "jvalue option"
  tx_response :: "jvalue option"
  tx_metadata :: "(string \<times> jvalue) list"
  tx_created_at :: string

definition serialize_created_at :: "string \<Rightarrow> string" where
  "serialize_created_at value = (if value = [] then ''0001-01-01T00:00:00Z'' else value)"

definition audit_trail_trx_json :: "audit_trail_trx \<Rightarrow> jvalue" where
  "audit_trail_trx_json t = JObj
     (member ''reffNo'' (JStr (tx_reff_no t)) @ member ''orderNo'' (JStr (tx_order_no t)) @
      skip_empty ''ticketId'' (tx_ticket_id t) @ member ''status'' (JStr (tx_status t)) @
      member ''state'' (JStr (tx_state t)) @ member ''message'' (JStr (tx_message t)) @
      member ''service'' (JStr (tx_service t)) @ member ''function'' (JStr (tx_function t)) @
      member ''description'' (JStr (tx_description t)) @
      member ''communicationType'' (JStr (tx_communication_type t)) @
      member ''eventTime'' (JStr (tx_event_time t)) @ skip_zero ''durationMs'' (tx_duration_ms t) @
      skip_empty ''amount'' (tx_amount t) @ skip_empty ''currency'' (tx_currency t) @
      skip_empty ''merchantNo'' (tx_merchant_no t) @ skip_empty ''paymentCode'' (tx_payment_code t) @
      skip_empty ''qrValue'' (tx_qr_value t) @ skip_empty ''rrn'' (tx_rrn t) @
      skip_empty ''errorCode'' (tx_error_code t) @ skip_empty ''vendorName'' (tx_vendor_name t) @
      skip_none ''request'' (tx_request t) @ skip_none ''response'' (tx_response t) @
      (if tx_metadata t = [] then [] else member ''metadata'' (JObj (tx_metadata t))) @
      member ''createdAt'' (JStr (serialize_created_at (tx_created_at t))))"

record trace_http =
  th_method :: string
  th_url :: string
  th_status :: int

definition trace_http_json :: "trace_http \<Rightarrow> jvalue" where
  "trace_http_json h = JObj
     (skip_empty ''method'' (th_method h) @ skip_empty ''url'' (th_url h) @
      skip_zero ''status'' (th_status h))"

record transaction_trace =
  tt_v :: int
  tt_event :: string
  tt_kind :: string
  tt_leg :: string
  tt_direction :: string
  tt_service :: string
  tt_function :: string
  tt_peer :: string
  tt_transport :: string
  tt_status :: string
  tt_m_id :: int
  tt_merchant_code :: string
  tt_trx_id :: int
  tt_trx_no :: string
  tt_trx_reference_no :: string
  tt_trx_pay_code1 :: string
  tt_trx_pc_id :: int
  tt_ticket_id :: string
  tt_external_id :: string
  tt_request_id :: string
  tt_traceparent :: string
  tt_callback_direction :: string
  tt_attempt_id :: string
  tt_cycle :: int
  tt_attempt :: int
  tt_http :: "trace_http option"
  tt_request :: "jvalue option"
  tt_response :: "jvalue option"
  tt_message :: string
  tt_error_code :: string
  tt_duration_ms :: int
  tt_event_time :: string

definition transaction_trace_json :: "transaction_trace \<Rightarrow> jvalue" where
  "transaction_trace_json t = JObj
     (member ''v'' (JInt (tt_v t)) @ member ''event'' (JStr (tt_event t)) @
      member ''kind'' (JStr (tt_kind t)) @ member ''leg'' (JStr (tt_leg t)) @
      member ''direction'' (JStr (tt_direction t)) @ member ''service'' (JStr (tt_service t)) @
      member ''function'' (JStr (tt_function t)) @ skip_empty ''peer'' (tt_peer t) @
      member ''transport'' (JStr (tt_transport t)) @ member ''status'' (JStr (tt_status t)) @
      skip_zero ''mId'' (tt_m_id t) @ skip_empty ''merchantCode'' (tt_merchant_code t) @
      skip_zero ''trxId'' (tt_trx_id t) @ skip_empty ''trxNo'' (tt_trx_no t) @
      skip_empty ''trxReferenceNo'' (tt_trx_reference_no t) @
      skip_empty ''trxPayCode1'' (tt_trx_pay_code1 t) @ skip_zero ''trxPcId'' (tt_trx_pc_id t) @
      skip_empty ''ticketId'' (tt_ticket_id t) @ skip_empty ''externalId'' (tt_external_id t) @
      skip_empty ''requestId'' (tt_request_id t) @ skip_empty ''traceparent'' (tt_traceparent t) @
      skip_empty ''callbackDirection'' (tt_callback_direction t) @
      skip_empty ''attemptId'' (tt_attempt_id t) @ skip_zero ''cycle'' (tt_cycle t) @
      skip_zero ''attempt'' (tt_attempt t) @
      skip_none ''http'' (map_option trace_http_json (tt_http t)) @
      skip_none ''request'' (tt_request t) @ skip_none ''response'' (tt_response t) @
      skip_empty ''message'' (tt_message t) @ skip_empty ''errorCode'' (tt_error_code t) @
      skip_zero ''durationMs'' (tt_duration_ms t) @ member ''eventTime'' (JStr (tt_event_time t)))"

subsection \<open>Envelopes\<close>

text \<open>The process-wide counter is an \<open>i64\<close> incremented with \<open>fetch_add\<close>, which wraps. What a payload
  says of its process, the identity and the two renderings of the clock, is \<open>audit_env\<close>.\<close>

definition wrap_i64 :: "int \<Rightarrow> int" where
  "wrap_i64 x = (x + 2 ^ 63) mod 2 ^ 64 - 2 ^ 63"

definition next_audit_id :: "int \<Rightarrow> int \<times> int" where
  "next_audit_id counter = (wrap_i64 (counter + 1), wrap_i64 (counter + 1))"

record audit_env =
  ae_identity :: identity
  ae_datetime_now :: string
  ae_rfc3339_now :: string

text \<open>Its value at the time a payload is built. \<open>now_utc\<close>, the local offset, which may be unknown, the
  shift to it and the RFC 3339 text are the \<open>time\<close> crate's.\<close>

definition local_now ::
  "(civil_time \<Rightarrow> 'o \<Rightarrow> civil_time) \<Rightarrow> civil_time \<Rightarrow> 'x + 'o \<Rightarrow> civil_time" where
  "local_now to_offset now_utc offset =
     (case offset of Inl e \<Rightarrow> now_utc | Inr o' \<Rightarrow> to_offset now_utc o')"

definition datetime_text :: "civil_time \<Rightarrow> string" where
  "datetime_text t =
     zero_pad 4 (ct_year t) @ ''-'' @ zero_pad 2 (ct_month t) @ ''-'' @ zero_pad 2 (ct_day t) @ '' '' @
     zero_pad 2 (ct_hour t) @ '':'' @ zero_pad 2 (ct_minute t) @ '':'' @ zero_pad 2 (ct_second t)"

definition rfc3339_now :: "(civil_time \<Rightarrow> 'y + string) \<Rightarrow> civil_time \<Rightarrow> string" where
  "rfc3339_now rfc3339 t = (case rfc3339 t of Inr s \<Rightarrow> s | Inl e \<Rightarrow> [])"

definition audit_env_now ::
  "identity \<Rightarrow> (civil_time \<Rightarrow> 'o \<Rightarrow> civil_time) \<Rightarrow> (civil_time \<Rightarrow> 'y + string) \<Rightarrow> civil_time \<Rightarrow> 'x + 'o
     \<Rightarrow> audit_env" where
  "audit_env_now ident to_offset rfc3339 now_utc offset =
     (let t = local_now to_offset now_utc offset
      in \<lparr>ae_identity = ident, ae_datetime_now = datetime_text t, ae_rfc3339_now = rfc3339_now rfc3339 t\<rparr>)"

text \<open>The time of an envelope is the head of the time stamp the log prints for the same moment.\<close>

lemma datetime_text_stamp:
  assumes "civil_ok (local_now to_offset now_utc offset)"
  shows "ae_datetime_now (audit_env_now ident to_offset rfc3339 now_utc offset) =
    take 19 (render_time (local_now to_offset now_utc offset))"
proof -
  let ?t = "local_now to_offset now_utc offset"
  have "length (datetime_text ?t) = 19"
    using assms by (simp add: datetime_text_def civil_ok_def length_zero_pad)
  moreover have "render_time ?t = datetime_text ?t @ ''.'' @ zero_pad 3 (ct_nanosecond ?t div 1000000)"
    by (simp add: render_time_def datetime_text_def)
  ultimately show ?thesis by (simp add: audit_env_now_def Let_def)
qed

definition message_payload_new ::
  "audit_env \<Rightarrow> string \<Rightarrow> jvalue \<Rightarrow> int \<Rightarrow> message_payload \<times> int" where
  "message_payload_new env command data counter =
     (let (n, counter') = next_audit_id counter in
      (\<lparr>mp_id = n, mp_command = command, mp_time = ae_datetime_now env,
        mp_module_id = app_name (ae_identity env), mp_data = data\<rparr>, counter'))"

definition process_payload ::
  "audit_env \<Rightarrow> string \<Rightarrow> string \<Rightarrow> string \<Rightarrow> string list option \<Rightarrow> int
     \<Rightarrow> message_payload option \<times> int" where
  "process_payload env func description info keys counter =
     (if func = [] \<or> description = [] then (None, counter)
      else
        let (p, c) = message_payload_new env cmd_process
          (audit_trail_process_json
            \<lparr>atp_subject = app_name (ae_identity env), atp_function = func,
             atp_description = description, atp_key = keys,
             atp_data = \<lparr>dp_time = ae_datetime_now env, dp_info = info\<rparr>\<rparr>) counter
        in (Some p, c))"

definition data_payload ::
  "audit_env \<Rightarrow> string \<Rightarrow> string \<Rightarrow> string \<Rightarrow> string \<Rightarrow> string list option \<Rightarrow> request_and_response
     \<Rightarrow> int \<Rightarrow> message_payload option \<times> int" where
  "data_payload env func description source communication_type keys data counter =
     (if func = [] \<or> dt_status_code (rs_detail (rr_response data)) = 0 then (None, counter)
      else
        let (p, c) = message_payload_new env cmd_data
          (audit_trail_data_json
            \<lparr>atd_subject = app_name (ae_identity env), atd_function = func,
             atd_description = description, atd_key = keys, atd_source = source,
             atd_communication_type = communication_type, atd_data = data\<rparr>) counter
        in (Some p, c))"

definition trx_payload ::
  "audit_env \<Rightarrow> audit_trail_trx \<Rightarrow> int \<Rightarrow> message_payload option \<times> int" where
  "trx_payload env d counter =
     (if tx_reff_no d = [] \<and> tx_order_no d = [] then (None, counter)
      else
        let d1 = (if tx_service d = [] then d\<lparr>tx_service := app_name (ae_identity env)\<rparr> else d);
            d2 = (if tx_event_time d1 = [] then d1\<lparr>tx_event_time := ae_rfc3339_now env\<rparr> else d1);
            (p, c) = message_payload_new env cmd_trx (audit_trail_trx_json d2) counter
        in (Some p, c))"

definition has_any_trace_key :: "transaction_trace \<Rightarrow> bool" where
  "has_any_trace_key t \<longleftrightarrow>
     tt_trx_id t \<noteq> 0 \<or> tt_trx_no t \<noteq> [] \<or> tt_trx_reference_no t \<noteq> [] \<or>
     tt_trx_pay_code1 t \<noteq> [] \<or> tt_ticket_id t \<noteq> [] \<or> tt_merchant_code t \<noteq> [] \<or> tt_m_id t \<noteq> 0"

definition trace_payload ::
  "audit_env \<Rightarrow> transaction_trace \<Rightarrow> int \<Rightarrow> message_payload option \<times> int" where
  "trace_payload env t counter =
     (if tt_event t = [] \<or> \<not> has_any_trace_key t then (None, counter)
      else
        let t1 = (if tt_v t = 0 then t\<lparr>tt_v := 1\<rparr> else t);
            t2 = (if tt_kind t1 = [] then t1\<lparr>tt_kind := trace_kind_hop\<rparr> else t1);
            t3 = (if tt_service t2 = [] then t2\<lparr>tt_service := app_name (ae_identity env)\<rparr> else t2);
            t4 = (if tt_event_time t3 = [] then t3\<lparr>tt_event_time := ae_rfc3339_now env\<rparr> else t3);
            (p, c) = message_payload_new env cmd_trace (transaction_trace_json t4) counter
        in (Some p, c))"

lemma next_audit_id_in_range:
  "- (2 ^ 63) \<le> c \<Longrightarrow> c < 2 ^ 63 - 1 \<Longrightarrow> next_audit_id c = (c + 1, c + 1)"
  by (simp add: next_audit_id_def wrap_i64_def)

lemma map_of_members:
  "map_of (member n v @ ms) k = (if k = n then Some v else map_of ms k)"
  "map_of (skip_empty n s @ ms) k = (if k = n \<and> s \<noteq> [] then Some (JStr s) else map_of ms k)"
  "map_of (skip_zero n i @ ms) k = (if k = n \<and> i \<noteq> 0 then Some (JInt i) else map_of ms k)"
  "map_of (skip_none n o' @ ms) k = (if k = n \<and> o' \<noteq> None then o' else map_of ms k)"
  by (auto simp: member_defs split: option.splits)





subsection \<open>Properties\<close>

lemma map_of_last_member: "map_of (member n v) k = (if k = n then Some v else None)"
  by (simp add: member_def)

lemmas trace_fields = transaction_trace_json_def map_of_members map_of_last_member

text \<open>A trace that is sent can be found: \<open>trace_payload\<close> skips a trace without event or without any
  search key, leaving the id counter alone, and what it sends under the trace command always carries
  the event, a non-zero version, a kind, and at least one of the seven search keys in its JSON, where
  empty members are left out.\<close>

theorem trace_payload_searchable:
  "case trace_payload env t counter of
     (None, counter') \<Rightarrow> counter' = counter \<and> \<not> (tt_event t \<noteq> [] \<and> has_any_trace_key t)
   | (Some p, counter') \<Rightarrow>
       mp_command p = ''transaction-trace'' \<and> tt_event t \<noteq> [] \<and> counter' = mp_id p \<and>
       field_of ''event'' (mp_data p) = Some (JStr (tt_event t)) \<and>
       field_of ''v'' (mp_data p) = Some (JInt (if tt_v t = 0 then 1 else tt_v t)) \<and>
       field_of ''kind'' (mp_data p) = Some (JStr (if tt_kind t = [] then ''hop'' else tt_kind t)) \<and>
       list_ex (\<lambda>k. field_of k (mp_data p) \<noteq> None)
         [''trxId'', ''trxNo'', ''trxReferenceNo'', ''trxPayCode1'', ''ticketId'', ''merchantCode'', ''mId'']"
proof -
  define t1 where "t1 = (if tt_v t = 0 then t\<lparr>tt_v := 1\<rparr> else t)"
  define t2 where "t2 = (if tt_kind t1 = [] then t1\<lparr>tt_kind := trace_kind_hop\<rparr> else t1)"
  define t3 where "t3 = (if tt_service t2 = [] then t2\<lparr>tt_service := app_name (ae_identity env)\<rparr> else t2)"
  define t4 where "t4 = (if tt_event_time t3 = [] then t3\<lparr>tt_event_time := ae_rfc3339_now env\<rparr> else t3)"
  have s1: "tt_event t1 = tt_event t" "tt_v t1 = (if tt_v t = 0 then 1 else tt_v t)"
    "tt_kind t1 = tt_kind t" "has_any_trace_key t1 = has_any_trace_key t"
    by (simp_all add: t1_def has_any_trace_key_def)
  have s2: "tt_event t2 = tt_event t1" "tt_v t2 = tt_v t1"
    "tt_kind t2 = (if tt_kind t1 = [] then ''hop'' else tt_kind t1)"
    "has_any_trace_key t2 = has_any_trace_key t1"
    by (simp_all add: t2_def has_any_trace_key_def trace_kind_hop_def)
  have s3: "tt_event t3 = tt_event t2" "tt_v t3 = tt_v t2" "tt_kind t3 = tt_kind t2"
    "has_any_trace_key t3 = has_any_trace_key t2"
    by (simp_all add: t3_def has_any_trace_key_def)
  have s4: "tt_event t4 = tt_event t3" "tt_v t4 = tt_v t3" "tt_kind t4 = tt_kind t3"
    "has_any_trace_key t4 = has_any_trace_key t3"
    by (simp_all add: t4_def has_any_trace_key_def)
  note same = s4 s3 s2 s1
  have send: "trace_payload env t counter =
      (if tt_event t = [] \<or> \<not> has_any_trace_key t then (None, counter)
       else let (p, c) = message_payload_new env cmd_trace (transaction_trace_json t4) counter in (Some p, c))"
    by (simp only: trace_payload_def t1_def t2_def t3_def t4_def Let_def)
  have found: "field_of ''event'' (transaction_trace_json t4) = Some (JStr (tt_event t))"
    "field_of ''v'' (transaction_trace_json t4) = Some (JInt (if tt_v t = 0 then 1 else tt_v t))"
    "field_of ''kind'' (transaction_trace_json t4) = Some (JStr (if tt_kind t = [] then ''hop'' else tt_kind t))"
    by (simp_all add: trace_fields same del: map_of_append)
  have keys: "field_of ''trxId'' (transaction_trace_json t4) = None \<longleftrightarrow> tt_trx_id t4 = 0"
    "field_of ''trxNo'' (transaction_trace_json t4) = None \<longleftrightarrow> tt_trx_no t4 = []"
    "field_of ''trxReferenceNo'' (transaction_trace_json t4) = None \<longleftrightarrow> tt_trx_reference_no t4 = []"
    "field_of ''trxPayCode1'' (transaction_trace_json t4) = None \<longleftrightarrow> tt_trx_pay_code1 t4 = []"
    "field_of ''ticketId'' (transaction_trace_json t4) = None \<longleftrightarrow> tt_ticket_id t4 = []"
    "field_of ''merchantCode'' (transaction_trace_json t4) = None \<longleftrightarrow> tt_merchant_code t4 = []"
    "field_of ''mId'' (transaction_trace_json t4) = None \<longleftrightarrow> tt_m_id t4 = 0"
    by (simp_all add: trace_fields del: map_of_append)
  have "list_ex (\<lambda>k. field_of k (transaction_trace_json t4) \<noteq> None)
      [''trxId'', ''trxNo'', ''trxReferenceNo'', ''trxPayCode1'', ''ticketId'', ''merchantCode'', ''mId'']"
    if "has_any_trace_key t4"
    using that unfolding has_any_trace_key_def keys [symmetric] list_ex_iff by auto
  with found show ?thesis
    unfolding send same(4,8,12,16) by (auto simp: message_payload_new_def next_audit_id_def cmd_trace_def)
qed

end
