(* ===== verification/PcAuditPublisher.thy ===== *)
theory PcAuditPublisher
  imports PcAudit
begin

section \<open>pc-audit: the publisher\<close>

text \<open>
  \<open>AuditPublisher\<close> of \<open>crates/pc-audit/src/lib.rs\<close>: a bounded queue, a pool of workers that
  take from it one at a time (the receiver is behind a mutex), and a breaker made of two
  atomics, \<open>failures\<close> and \<open>open_until_ms\<close>. Each atomic access is one step, and \<open>pub_step\<close>
  interleaves submitters and workers at that grain.

  The queue is \<open>tokio::sync::mpsc\<close>: \<open>queue_ops\<close> are its operations, and \<open>queue_ok\<close> states the
  documented contract the code relies on (a bounded first-in first-out queue). \<open>ready\<close>,
  \<open>marshal\<close> and the outcome of \<open>publish\<close> belong to other crates and are free choices of a step.
\<close>

subsection \<open>The breaker\<close>

record audit_breaker =
  ab_threshold :: nat
  ab_cooldown_ms :: nat
  ab_failures :: nat
  ab_open_until_ms :: nat

text \<open>\<open>now_millis\<close> saturates at \<open>u64::MAX\<close>; a time here is a value it returned.\<close>

definition now_millis :: "nat \<Rightarrow> nat" where
  "now_millis ms_since_epoch = min u64_max ms_since_epoch"

definition breaker_cooldown_ms :: "duration \<Rightarrow> nat" where
  "breaker_cooldown_ms cooldown = (if as_millis cooldown \<le> u64_max then as_millis cooldown else u64_max)"

definition audit_breaker_new :: "nat \<Rightarrow> duration \<Rightarrow> audit_breaker" where
  "audit_breaker_new threshold cooldown =
     \<lparr>ab_threshold = max threshold 1, ab_cooldown_ms = breaker_cooldown_ms cooldown,
      ab_failures = 0, ab_open_until_ms = 0\<rparr>"

definition circuit_open :: "audit_breaker \<Rightarrow> nat \<Rightarrow> bool" where
  "circuit_open b now \<longleftrightarrow> now < ab_open_until_ms b"

definition consecutive_failures :: "audit_breaker \<Rightarrow> nat" where
  "consecutive_failures b = ab_failures b"

text \<open>\<open>record_failure\<close> is two atomic steps; \<open>fetch_add\<close> on a \<open>usize\<close> wraps.\<close>

definition count_failure :: "audit_breaker \<Rightarrow> nat \<times> audit_breaker" where
  "count_failure b =
     (let cnt = (ab_failures b + 1) mod 2 ^ 64 in (cnt, b\<lparr>ab_failures := cnt\<rparr>))"

definition open_until :: "audit_breaker \<Rightarrow> nat \<Rightarrow> nat" where
  "open_until b now = sat_add_u64 now (ab_cooldown_ms b)"

definition trip_if_due :: "nat \<Rightarrow> nat \<Rightarrow> audit_breaker \<Rightarrow> audit_breaker" where
  "trip_if_due cnt now b =
     (if cnt \<ge> ab_threshold b then b\<lparr>ab_open_until_ms := open_until b now\<rparr> else b)"

definition audit_record_failure :: "audit_breaker \<Rightarrow> nat \<Rightarrow> audit_breaker" where
  "audit_record_failure b now = (let (cnt, b') = count_failure b in trip_if_due cnt now b')"

definition audit_record_success :: "audit_breaker \<Rightarrow> audit_breaker" where
  "audit_record_success b = b\<lparr>ab_failures := 0\<rparr>"

lemmas audit_breaker_defs =
  circuit_open_def count_failure_def open_until_def trip_if_due_def audit_record_failure_def
  audit_record_success_def

text \<open>The breaker provides the trip contract shared with \<open>pc-resilience\<close>: it is calm from
  \<open>t0\<close> on when it is not open at \<open>t0\<close> and below its threshold.\<close>

definition audit_admits :: "audit_breaker \<Rightarrow> instant \<Rightarrow> bool" where
  "audit_admits b t = (\<not> circuit_open b t)"

definition audit_calm :: "audit_breaker \<Rightarrow> instant \<Rightarrow> bool" where
  "audit_calm b t0 \<longleftrightarrow>
     ab_open_until_ms b \<le> t0 \<and> ab_failures b < ab_threshold b \<and> ab_threshold b \<le> u64_max"

lemma audit_below:
  "audit_calm b t0 \<Longrightarrow> Suc (ab_failures b) < ab_threshold b \<Longrightarrow>
     audit_record_failure b t = b\<lparr>ab_failures := Suc (ab_failures b)\<rparr>"
  by (simp add: audit_calm_def audit_breaker_defs Let_def u64_max_def)

lemma audit_at_limit:
  "audit_calm b t0 \<Longrightarrow> Suc (ab_failures b) = ab_threshold b \<Longrightarrow>
     audit_record_failure b t =
       b\<lparr>ab_failures := ab_threshold b, ab_open_until_ms := open_until b t\<rparr>"
  by (simp add: audit_calm_def audit_breaker_defs Let_def u64_max_def)

interpretation audit_trip:
  trip_breaker audit_admits audit_calm audit_record_success audit_record_failure
    ab_failures ab_threshold open_until
proof unfold_locales
  fix s :: audit_breaker and t0 t t' :: instant
  assume calm: "audit_calm s t0"
  then show "t0 \<le> t \<Longrightarrow> audit_admits s t"
    by (simp add: audit_calm_def audit_admits_def circuit_open_def)
  from calm show "audit_calm (audit_record_success s) t0"
    by (simp add: audit_calm_def audit_record_success_def)
  assume "Suc (ab_failures s) < ab_threshold s"
  with audit_below [OF calm this, of t] calm
  show "audit_calm (audit_record_failure s t) t0 \<and>
      ab_failures (audit_record_failure s t) = Suc (ab_failures s)"
    by (simp add: audit_calm_def)
next
  fix s :: audit_breaker and t0 t t' :: instant
  assume "audit_calm s t0" "Suc (ab_failures s) = ab_threshold s"
  from audit_at_limit [OF this, of t]
  show "(t \<le> t' \<and> t' < open_until s t \<longrightarrow> \<not> audit_admits (audit_record_failure s t) t') \<and>
      (open_until s t \<le> t' \<longrightarrow> audit_admits (audit_record_failure s t) t')"
    by (simp add: audit_admits_def circuit_open_def)
qed (auto simp: audit_breaker_defs Let_def fun_eq_iff)

subsection \<open>Queue and publisher\<close>

datatype try_send_failure = Channel_Full | Channel_Closed

record 'q queue_ops =
  qp_try_send :: "'q \<Rightarrow> message_payload \<Rightarrow> try_send_failure + 'q"
  qp_recv :: "'q \<Rightarrow> (message_payload \<times> 'q) option"

definition queue_ok :: "'q queue_ops \<Rightarrow> ('q \<Rightarrow> message_payload list) \<Rightarrow> nat \<Rightarrow> bool" where
  "queue_ok ops contents capacity \<longleftrightarrow>
     (\<forall>q m q'. qp_try_send ops q m = Inr q' \<longrightarrow>
        contents q' = contents q @ [m] \<and> length (contents q) < capacity) \<and>
     (\<forall>q m q'. qp_recv ops q = Some (m, q') \<longrightarrow> contents q = m # contents q')"

record audit_config =
  cf_worker_count :: nat
  cf_buffer_size :: nat
  cf_message_ttl :: string
  cf_breaker_threshold :: nat
  cf_breaker_cooldown :: duration

definition audit_config_default :: audit_config where
  "audit_config_default =
     \<lparr>cf_worker_count = 10, cf_buffer_size = 1000, cf_message_ttl = [],
      cf_breaker_threshold = 10, cf_breaker_cooldown = from_secs 30\<rparr>"

text \<open>Where a worker is in its loop: waiting; holding a message it has just received; about to
  publish it; about to store the deadline after counting a failure.\<close>

datatype worker =
  Waiting
| Received message_payload
| Publishing message_payload bytes
| Counted nat

datatype fate = Published message_payload bytes | Discarded message_payload

record 'q publisher =
  pb_queue :: 'q
  pb_breaker :: audit_breaker
  pb_stopped :: bool
  pb_ttl :: string
  pb_workers :: "worker list"
  pb_accepted :: "message_payload list"
  pb_fates :: "fate list"

definition publisher_new :: "'q \<Rightarrow> audit_config \<Rightarrow> 'q publisher" where
  "publisher_new fresh config =
     \<lparr>pb_queue = fresh,
      pb_breaker = audit_breaker_new (cf_breaker_threshold config) (cf_breaker_cooldown config),
      pb_stopped = False, pb_ttl = cf_message_ttl config,
      pb_workers = replicate (max (cf_worker_count config) 1) Waiting,
      pb_accepted = [], pb_fates = []\<rparr>"

definition channel_capacity :: "audit_config \<Rightarrow> nat" where
  "channel_capacity config = max (cf_buffer_size config) 1"

definition submit ::
  "'q queue_ops \<Rightarrow> nat \<Rightarrow> message_payload \<Rightarrow> 'q publisher \<Rightarrow> bool \<times> 'q publisher" where
  "submit ops now payload p =
     (if pb_stopped p then (False, p)
      else if circuit_open (pb_breaker p) now then (False, p)
      else
        (case qp_try_send ops (pb_queue p) payload of
           Inr q \<Rightarrow> (True, p\<lparr>pb_queue := q, pb_accepted := pb_accepted p @ [payload]\<rparr>)
         | Inl e \<Rightarrow> (False, p)))"

text \<open>The steps of worker \<open>i\<close>.\<close>

definition worker_recv :: "'q queue_ops \<Rightarrow> nat \<Rightarrow> 'q publisher \<Rightarrow> 'q publisher" where
  "worker_recv ops i p =
     (case qp_recv ops (pb_queue p) of
        None \<Rightarrow> p
      | Some (payload, q) \<Rightarrow>
          p\<lparr>pb_queue := q, pb_workers := (pb_workers p)[i := Received payload]\<rparr>)"

text \<open>After receiving: the breaker check, the readiness check, the marshalling. The failure of
  the readiness check counts (the deadline is stored in a later step).\<close>

definition worker_check ::
  "('e + bytes) \<Rightarrow> nat \<Rightarrow> nat \<Rightarrow> bool \<Rightarrow> message_payload \<Rightarrow> 'q publisher \<Rightarrow> 'q publisher" where
  "worker_check marshalled now i ready payload p =
     (if circuit_open (pb_breaker p) now then
        p\<lparr>pb_workers := (pb_workers p)[i := Waiting],
          pb_fates := pb_fates p @ [Discarded payload]\<rparr>
      else if \<not> ready then
        (let (cnt, b) = count_failure (pb_breaker p) in
         p\<lparr>pb_breaker := b, pb_workers := (pb_workers p)[i := Counted cnt],
           pb_fates := pb_fates p @ [Discarded payload]\<rparr>)
      else
        (case marshalled of
           Inr body \<Rightarrow> p\<lparr>pb_workers := (pb_workers p)[i := Publishing payload body]\<rparr>
         | Inl err \<Rightarrow>
             p\<lparr>pb_workers := (pb_workers p)[i := Waiting],
               pb_fates := pb_fates p @ [Discarded payload]\<rparr>))"

definition worker_published ::
  "nat \<Rightarrow> bool \<Rightarrow> message_payload \<Rightarrow> bytes \<Rightarrow> 'q publisher \<Rightarrow> 'q publisher" where
  "worker_published i success payload body p =
     (if success then
        p\<lparr>pb_breaker := audit_record_success (pb_breaker p),
          pb_workers := (pb_workers p)[i := Waiting],
          pb_fates := pb_fates p @ [Published payload body]\<rparr>
      else
        (let (cnt, b) = count_failure (pb_breaker p) in
         p\<lparr>pb_breaker := b, pb_workers := (pb_workers p)[i := Counted cnt],
           pb_fates := pb_fates p @ [Discarded payload]\<rparr>))"

definition worker_trip :: "nat \<Rightarrow> nat \<Rightarrow> nat \<Rightarrow> 'q publisher \<Rightarrow> 'q publisher" where
  "worker_trip now i cnt p =
     p\<lparr>pb_breaker := trip_if_due cnt now (pb_breaker p),
       pb_workers := (pb_workers p)[i := Waiting]\<rparr>"

definition publisher_stop :: "'q publisher \<Rightarrow> 'q publisher" where
  "publisher_stop p = p\<lparr>pb_stopped := True\<rparr>"

inductive pub_step ::
  "'q queue_ops \<Rightarrow> (message_payload \<Rightarrow> 'e + bytes) \<Rightarrow> 'q publisher \<Rightarrow> 'q publisher \<Rightarrow> bool"
  for ops :: "'q queue_ops" and marsh :: "message_payload \<Rightarrow> 'e + bytes"
where
  Submit: "pub_step ops marsh p (snd (submit ops now payload p))"
| Recv: "i < length (pb_workers p) \<Longrightarrow> pb_workers p ! i = Waiting \<Longrightarrow>
    pub_step ops marsh p (worker_recv ops i p)"
| Check: "i < length (pb_workers p) \<Longrightarrow> pb_workers p ! i = Received payload \<Longrightarrow>
    pub_step ops marsh p (worker_check (marsh payload) now i ready payload p)"
| Publish: "i < length (pb_workers p) \<Longrightarrow> pb_workers p ! i = Publishing payload body \<Longrightarrow>
    pub_step ops marsh p (worker_published i success payload body p)"
| Trip: "i < length (pb_workers p) \<Longrightarrow> pb_workers p ! i = Counted cnt \<Longrightarrow>
    pub_step ops marsh p (worker_trip now i cnt p)"
| Stop: "pub_step ops marsh p (publisher_stop p)"

definition pub_reachable ::
  "'q queue_ops \<Rightarrow> (message_payload \<Rightarrow> 'e + bytes) \<Rightarrow> 'q \<Rightarrow> audit_config \<Rightarrow> 'q publisher \<Rightarrow> bool" where
  "pub_reachable ops marsh fresh config p \<longleftrightarrow> (pub_step ops marsh)\<^sup>*\<^sup>* (publisher_new fresh config) p"

subsection \<open>Conservation\<close>

fun in_hand :: "worker \<Rightarrow> message_payload multiset" where
  "in_hand Waiting = {#}"
| "in_hand (Received m) = {#m#}"
| "in_hand (Publishing m b) = {#m#}"
| "in_hand (Counted n) = {#}"

fun fate_payload :: "fate \<Rightarrow> message_payload" where
  "fate_payload (Published m b) = m"
| "fate_payload (Discarded m) = m"

definition held :: "worker list \<Rightarrow> message_payload multiset" where
  "held ws = sum_list (map in_hand ws)"

text \<open>Every accepted message is in exactly one place, as often as it was accepted; the queue
  holds a suffix of the accepted sequence, within capacity; a published body is the
  marshalled form of its message.\<close>

definition pub_inv ::
  "('q \<Rightarrow> message_payload list) \<Rightarrow> nat \<Rightarrow> (message_payload \<Rightarrow> 'e + bytes) \<Rightarrow> 'q publisher \<Rightarrow> bool" where
  "pub_inv contents capacity marsh p \<longleftrightarrow>
     mset (pb_accepted p) =
       mset (contents (pb_queue p)) + held (pb_workers p) + mset (map fate_payload (pb_fates p)) \<and>
     suffix (contents (pb_queue p)) (pb_accepted p) \<and>
     length (contents (pb_queue p)) \<le> capacity \<and>
     (\<forall>m b. Publishing m b \<in> set (pb_workers p) \<longrightarrow> marsh m = Ok b) \<and>
     (\<forall>m b. Published m b \<in> set (pb_fates p) \<longrightarrow> marsh m = Ok b)"

lemma held_update:
  "i < length ws \<Longrightarrow> held (ws[i := w]) + in_hand (ws ! i) = held ws + in_hand w"
proof (induction ws arbitrary: i)
  case (Cons v ws)
  then show ?case by (cases i) (auto simp: held_def ac_simps)
qed simp

lemma publishing_update:
  "Publishing m b \<in> set (ws[i := w]) \<Longrightarrow> Publishing m b \<in> set ws \<or> w = Publishing m b"
  using set_update_subset_insert [of ws i w] by auto

lemma pub_invI:
  assumes "mset (pb_accepted p) =
      mset (contents (pb_queue p)) + held (pb_workers p) + mset (map fate_payload (pb_fates p))"
    and "suffix (contents (pb_queue p)) (pb_accepted p)"
    and "length (contents (pb_queue p)) \<le> capacity"
    and "\<And>m b. Publishing m b \<in> set (pb_workers p) \<Longrightarrow> marsh m = Ok b"
    and "\<And>m b. Published m b \<in> set (pb_fates p) \<Longrightarrow> marsh m = Ok b"
  shows "pub_inv contents capacity marsh p"
  using assms by (simp add: pub_inv_def)

lemma pub_invD:
  assumes "pub_inv contents capacity marsh p"
  shows "mset (pb_accepted p) =
      mset (contents (pb_queue p)) + held (pb_workers p) + mset (map fate_payload (pb_fates p))"
    and "suffix (contents (pb_queue p)) (pb_accepted p)"
    and "length (contents (pb_queue p)) \<le> capacity"
    and "Publishing m b \<in> set (pb_workers p) \<Longrightarrow> marsh m = Ok b"
    and "Published m b \<in> set (pb_fates p) \<Longrightarrow> marsh m = Ok b"
  using assms by (auto simp: pub_inv_def)

lemma sum_replicate_empty [simp]: "sum_list (replicate n {#}) = {#}"
  by (induction n) auto

lemma pub_inv_new:
  "contents fresh = [] \<Longrightarrow> pub_inv contents capacity marsh (publisher_new fresh config)"
  by (rule pub_invI) (auto simp: publisher_new_def held_def sum_list_replicate)

lemma pub_inv_submit:
  assumes "queue_ok ops contents capacity" "pub_inv contents capacity marsh p"
  shows "pub_inv contents capacity marsh (snd (submit ops now payload p))"
proof (cases "fst (submit ops now payload p)")
  case False
  then have "snd (submit ops now payload p) = p"
    by (auto simp: submit_def split: if_splits sum.splits)
  with assms(2) show ?thesis by simp
next
  case True
  then obtain q where q: "qp_try_send ops (pb_queue p) payload = Inr q"
    and s: "snd (submit ops now payload p) =
      p\<lparr>pb_queue := q, pb_accepted := pb_accepted p @ [payload]\<rparr>"
    by (auto simp: submit_def split: if_splits sum.splits)
  from q assms(1) have "contents q = contents (pb_queue p) @ [payload]"
    "length (contents (pb_queue p)) < capacity"
    by (auto simp: queue_ok_def)
  with pub_invD [OF assms(2)] show ?thesis
    unfolding s by (intro pub_invI) (auto simp: suffix_def)
qed

lemma pub_inv_recv:
  assumes "queue_ok ops contents capacity" "pub_inv contents capacity marsh p"
    and "i < length (pb_workers p)" "pb_workers p ! i = Waiting"
  shows "pub_inv contents capacity marsh (worker_recv ops i p)"
proof (cases "qp_recv ops (pb_queue p)")
  case None
  with assms(2) show ?thesis by (simp add: worker_recv_def)
next
  case (Some mq)
  obtain m q where mq: "mq = (m, q)" by (cases mq)
  with Some assms(1) have c: "contents (pb_queue p) = m # contents q"
    by (simp add: queue_ok_def)
  have h: "held ((pb_workers p)[i := Received m]) = held (pb_workers p) + {#m#}"
    using held_update [OF assms(3), of "Received m"] assms(4) by simp
  from c h pub_invD [OF assms(2)] Some mq show ?thesis
    by (intro pub_invI)
      (auto simp: worker_recv_def dest: publishing_update suffix_ConsD)
qed

text \<open>A step that ends a message's stay with worker \<open>i\<close>.\<close>

lemma pub_inv_finish:
  assumes "pub_inv contents capacity marsh p" "i < length (pb_workers p)"
    and "in_hand (pb_workers p ! i) = {#m#}" "in_hand w = {#}" "fate_payload f = m"
    and "\<And>b. f = Published m b \<Longrightarrow> marsh m = Ok b"
  shows "pub_inv contents capacity marsh
    (p\<lparr>pb_breaker := bk, pb_workers := (pb_workers p)[i := w], pb_fates := pb_fates p @ [f]\<rparr>)"
proof -
  have h: "held (pb_workers p) = held ((pb_workers p)[i := w]) + {#m#}"
    using held_update [OF assms(2), of w] assms(3,4) by simp
  have "w \<noteq> Publishing m' b'" for m' b' using assms(4) by (cases w) auto
  then have w: "Publishing m' b' \<in> set ((pb_workers p)[i := w]) \<Longrightarrow>
      Publishing m' b' \<in> set (pb_workers p)" for m' b'
    using publishing_update by metis
  from h w pub_invD [OF assms(1)] assms(5,6) show ?thesis
    by (intro pub_invI) auto
qed

lemma pub_inv_check:
  assumes "pub_inv contents capacity marsh p"
    and "i < length (pb_workers p)" "pb_workers p ! i = Received m"
  shows "pub_inv contents capacity marsh (worker_check (marsh m) now i ready m p)"
proof -
  have finish: "pub_inv contents capacity marsh
      (p\<lparr>pb_breaker := bk, pb_workers := (pb_workers p)[i := w], pb_fates := pb_fates p @ [Discarded m]\<rparr>)"
    if "in_hand w = {#}" for w bk
    using that assms(3) by (intro pub_inv_finish [OF assms(1,2), of m]) auto
  from finish [of Waiting "pb_breaker p"] have discard: "pub_inv contents capacity marsh
      (p\<lparr>pb_workers := (pb_workers p)[i := Waiting], pb_fates := pb_fates p @ [Discarded m]\<rparr>)"
    by simp
  have publishing: "pub_inv contents capacity marsh
      (p\<lparr>pb_workers := (pb_workers p)[i := Publishing m b]\<rparr>)" if "marsh m = Ok b" for b
  proof -
    have "held ((pb_workers p)[i := Publishing m b]) = held (pb_workers p)"
      using held_update [OF assms(2), of "Publishing m b"] assms(3) by simp
    with that pub_invD [OF assms(1)] show ?thesis
      by (intro pub_invI) (auto dest!: publishing_update)
  qed
  show ?thesis
  proof (cases "circuit_open (pb_breaker p) now")
    case True
    with discard show ?thesis by (simp add: worker_check_def)
  next
    case False
    show ?thesis
    proof (cases ready)
      case True
      with False discard publishing show ?thesis
        by (cases "marsh m") (simp_all add: worker_check_def)
    next
      case unready: False
      with False finish [of "Counted (fst (count_failure (pb_breaker p)))"] show ?thesis
        by (simp add: worker_check_def split_beta Let_def)
    qed
  qed
qed

lemma pub_inv_published:
  assumes "pub_inv contents capacity marsh p"
    and "i < length (pb_workers p)" "pb_workers p ! i = Publishing m b"
  shows "pub_inv contents capacity marsh (worker_published i success m b p)"
proof -
  have "marsh m = Ok b" using assms pub_invD(4) by (metis nth_mem)
  then show ?thesis
    using pub_inv_finish [OF assms(1,2), of m _ "Published m b"]
      pub_inv_finish [OF assms(1,2), of m _ "Discarded m"] assms(3)
    by (auto simp: worker_published_def split_beta Let_def)
qed

lemma pub_inv_trip:
  assumes "pub_inv contents capacity marsh p"
    and "i < length (pb_workers p)" "pb_workers p ! i = Counted n"
  shows "pub_inv contents capacity marsh (worker_trip now i n p)"
proof -
  have "held ((pb_workers p)[i := Waiting]) = held (pb_workers p)"
    using held_update [OF assms(2), of Waiting] assms(3) by simp
  with pub_invD [OF assms(1)] show ?thesis
    by (intro pub_invI) (auto simp: worker_trip_def dest: publishing_update)
qed

lemma pub_inv_stop: "pub_inv contents capacity marsh p \<Longrightarrow> pub_inv contents capacity marsh (publisher_stop p)"
  by (simp add: pub_inv_def publisher_stop_def)

lemma pub_inv_step:
  "pub_step ops marsh p p' \<Longrightarrow> queue_ok ops contents capacity \<Longrightarrow>
     pub_inv contents capacity marsh p \<Longrightarrow> pub_inv contents capacity marsh p'"
  by (induction rule: pub_step.induct)
    (simp_all add: pub_inv_submit pub_inv_recv pub_inv_check pub_inv_published pub_inv_trip
      pub_inv_stop)

lemma pub_reachable_inv:
  assumes "queue_ok ops contents capacity" "contents fresh = []"
    and "pub_reachable ops marsh fresh config p"
  shows "pub_inv contents capacity marsh p"
  using assms(3) unfolding pub_reachable_def
proof (induction rule: rtranclp_induct)
  case base
  show ?case using assms(2) by (rule pub_inv_new)
next
  case (step p p')
  from step.hyps(2) assms(1) step.IH show ?case by (rule pub_inv_step)
qed


subsection \<open>Draining\<close>

text \<open>\<open>recv\<close> returns a message whenever the queue holds one.\<close>

definition queue_live :: "'q queue_ops \<Rightarrow> ('q \<Rightarrow> message_payload list) \<Rightarrow> bool" where
  "queue_live ops contents \<longleftrightarrow> (\<forall>q. qp_recv ops q = None \<longrightarrow> contents q = [])"

text \<open>The steps of the workers that do something: a worker blocked in \<open>recv\<close> on an empty queue has
  none.\<close>

inductive worker_step ::
  "'q queue_ops \<Rightarrow> (message_payload \<Rightarrow> 'e + bytes) \<Rightarrow> 'q publisher \<Rightarrow> 'q publisher \<Rightarrow> bool"
  for ops :: "'q queue_ops" and marsh :: "message_payload \<Rightarrow> 'e + bytes"
where
  W_Recv: "i < length (pb_workers p) \<Longrightarrow> pb_workers p ! i = Waiting \<Longrightarrow>
    qp_recv ops (pb_queue p) \<noteq> None \<Longrightarrow> worker_step ops marsh p (worker_recv ops i p)"
| W_Check: "i < length (pb_workers p) \<Longrightarrow> pb_workers p ! i = Received payload \<Longrightarrow>
    worker_step ops marsh p (worker_check (marsh payload) now i ready payload p)"
| W_Publish: "i < length (pb_workers p) \<Longrightarrow> pb_workers p ! i = Publishing payload body \<Longrightarrow>
    worker_step ops marsh p (worker_published i success payload body p)"
| W_Trip: "i < length (pb_workers p) \<Longrightarrow> pb_workers p ! i = Counted cnt \<Longrightarrow>
    worker_step ops marsh p (worker_trip now i cnt p)"

inductive_cases worker_stepE: "worker_step ops marsh p p'"

lemma worker_step_pub: "worker_step ops marsh p p' \<Longrightarrow> pub_step ops marsh p p'"
  by (induction rule: worker_step.induct) (auto intro: pub_step.intros)

fun load :: "worker \<Rightarrow> nat" where
  "load Waiting = 0"
| "load (Counted n) = 1"
| "load (Publishing m b) = 2"
| "load (Received m) = 3"

definition work :: "('q \<Rightarrow> message_payload list) \<Rightarrow> 'q publisher \<Rightarrow> nat" where
  "work contents p = 4 * length (contents (pb_queue p)) + sum_list (map load (pb_workers p))"

lemma load_update:
  "i < length ws \<Longrightarrow> sum_list (map load (ws[i := w])) + load (ws ! i) = sum_list (map load ws) + load w"
proof (induction ws arbitrary: i)
  case (Cons v ws)
  then show ?case by (cases i) auto
qed simp

lemma work_le: "work contents p \<le> 4 * length (contents (pb_queue p)) + 3 * length (pb_workers p)"
proof -
  have "load w \<le> 3" for w by (cases w) auto
  then have "sum_list (map load ws) \<le> 3 * length ws" for ws
    by (induction ws) (auto intro: add_mono)
  then show ?thesis by (simp add: work_def)
qed

lemma worker_step_work:
  assumes "queue_ok ops contents capacity" "worker_step ops marsh p p'"
  shows "work contents p' < work contents p"
  using assms(2)
proof cases
  case (W_Recv i)
  then obtain m q where q: "qp_recv ops (pb_queue p) = Some (m, q)" by auto
  with assms(1) have "contents (pb_queue p) = m # contents q" by (simp add: queue_ok_def)
  with W_Recv q load_update [OF W_Recv(2), of "Received m"] show ?thesis
    by (simp add: work_def worker_recv_def)
next
  case (W_Check i payload now ready)
  have "load w < 3 \<Longrightarrow> sum_list (map load ((pb_workers p)[i := w])) < sum_list (map load (pb_workers p))"
    for w
    using load_update [OF W_Check(2), of w] W_Check(3) by simp
  with W_Check show ?thesis
    by (auto simp: work_def worker_check_def split_beta Let_def split: sum.split)
next
  case (W_Publish i payload body success)
  have "load w < 2 \<Longrightarrow> sum_list (map load ((pb_workers p)[i := w])) < sum_list (map load (pb_workers p))"
    for w
    using load_update [OF W_Publish(2), of w] W_Publish(3) by simp
  with W_Publish show ?thesis
    by (auto simp: work_def worker_published_def split_beta Let_def)
next
  case (W_Trip i cnt now)
  with load_update [OF W_Trip(2), of Waiting] show ?thesis
    by (simp add: work_def worker_trip_def)
qed

lemma worker_step_keeps:
  "worker_step ops marsh p p' \<Longrightarrow>
     pb_accepted p' = pb_accepted p \<and> length (pb_workers p') = length (pb_workers p)"
  by (induction rule: worker_step.induct)
    (auto simp: worker_recv_def worker_check_def worker_published_def worker_trip_def split_beta Let_def
      split: option.split sum.split)

lemma pub_step_workers: "pub_step ops marsh p p' \<Longrightarrow> length (pb_workers p') = length (pb_workers p)"
  by (induction rule: pub_step.induct)
    (auto simp: submit_def worker_recv_def worker_check_def worker_published_def worker_trip_def
      publisher_stop_def split_beta Let_def split: option.split sum.split)

lemma pub_reachable_workers: "pub_reachable ops marsh fresh config p \<Longrightarrow> pb_workers p \<noteq> []"
proof -
  assume "pub_reachable ops marsh fresh config p"
  then have "length (pb_workers p) = length (pb_workers (publisher_new fresh config))"
    unfolding pub_reachable_def by (induction rule: rtranclp_induct) (simp_all add: pub_step_workers)
  then show ?thesis by (auto simp: publisher_new_def)
qed

text \<open>Only a drained publisher has nothing to do.\<close>

lemma worker_stuck:
  assumes "queue_live ops contents" "pb_workers p \<noteq> []" "\<And>p'. \<not> worker_step ops marsh p p'"
  shows "contents (pb_queue p) = [] \<and> held (pb_workers p) = {#}"
proof -
  have idle: "pb_workers p ! i = Waiting" if "i < length (pb_workers p)" for i
    using that assms(3) worker_step.intros(2-4) by (metis worker.exhaust)
  with assms(2,3) have "qp_recv ops (pb_queue p) = None"
    using worker_step.W_Recv [of 0 p] by blast
  with assms(1) have "contents (pb_queue p) = []" by (simp add: queue_live_def)
  moreover have "pb_workers p = replicate (length (pb_workers p)) Waiting"
    using idle by (metis in_set_conv_nth replicate_length_same)
  then have "held (pb_workers p) = {#}"
    by (metis held_def in_hand.simps(1) map_replicate sum_replicate_empty)
  ultimately show ?thesis by simp
qed

lemma worker_run:
  assumes "queue_ok ops contents capacity" "(worker_step ops marsh ^^ n) p p'"
  shows "n + work contents p' \<le> work contents p \<and> pb_accepted p' = pb_accepted p \<and>
    (pub_step ops marsh)\<^sup>*\<^sup>* p p'"
  using assms(2)
proof (induction n arbitrary: p')
  case (Suc n)
  then obtain q where "(worker_step ops marsh ^^ n) p q" "worker_step ops marsh q p'" by auto
  with Suc.IH [of q] worker_step_work [OF assms(1), of marsh q p'] worker_step_keeps [of ops marsh q p']
    worker_step_pub [of ops marsh q p']
  show ?case by (auto intro: rtranclp.rtrancl_into_rtrancl)
qed auto

subsection \<open>Properties\<close>

text \<open>The publisher's breaker keeps the same contract as that of pc-resilience: while no
  \<open>threshold\<close> publishes failed in a row, \<open>submit\<close> accepts whatever the queue takes; the failure that
  completes such a run makes it refuse every message until the cooldown is over, and then the queue
  decides again.\<close>

theorem submit_follows_breaker:
  assumes calm: "audit_calm b t'" and zero: "ab_failures b = 0" and running: "\<not> pb_stopped p"
    and room: "qp_try_send ops (pb_queue p) m = Inr q"
  shows "(pb_breaker p = record_outcomes audit_record_success audit_record_failure b os \<and>
      peak_streak 0 os < ab_threshold b \<longrightarrow> fst (submit ops t' m p)) \<and>
    (pb_breaker p = record_outcomes audit_record_success audit_record_failure b (map Some (ts @ [t])) \<and>
      Suc (length ts) = ab_threshold b \<and> t \<le> t' \<longrightarrow>
      (fst (submit ops t' m p) \<longleftrightarrow> open_until b t \<le> t'))"
proof -
  have submit: "fst (submit ops t' m p) \<longleftrightarrow> audit_admits (pb_breaker p) t'"
    using running room by (simp add: submit_def audit_admits_def)
  from audit_trip.calm_admits [OF audit_trip.outcomes_calm [OF calm]]
    audit_trip.outcomes_trip [OF calm zero] zero
  show ?thesis by (simp add: submit)
qed

definition list_queue :: "nat \<Rightarrow> message_payload list queue_ops" where
  "list_queue capacity =
     \<lparr>qp_try_send = (\<lambda>q m. if length q < capacity then Inr (q @ [m]) else Inl Channel_Full),
      qp_recv = (\<lambda>q. case q of [] \<Rightarrow> None | m # q' \<Rightarrow> Some (m, q'))\<rparr>"

definition demo_message :: message_payload where
  "demo_message = \<lparr>mp_id = 1, mp_command = cmd_data, mp_time = [], mp_module_id = ''demo'', mp_data = JNull\<rparr>"

lemma list_queue_ok: "queue_ok (list_queue n) id n"
  by (auto simp: queue_ok_def list_queue_def split: list.splits if_splits)

theorem submit_follows_breaker_witness:
  "\<not> fst (submit (list_queue 1) 5000 demo_message
     ((publisher_new [] (audit_config_default\<lparr>cf_breaker_threshold := 2\<rparr>))
        \<lparr>pb_breaker := record_outcomes audit_record_success audit_record_failure
            (audit_breaker_new 2 (from_secs 30)) (map Some ([1000] @ [2000]))\<rparr>))"
proof -
  let ?b = "audit_breaker_new 2 (from_secs 30)"
  let ?p = "(publisher_new [] (audit_config_default\<lparr>cf_breaker_threshold := 2\<rparr>))
    \<lparr>pb_breaker := record_outcomes audit_record_success audit_record_failure ?b (map Some ([1000] @ [2000]))\<rparr>"
  have b: "audit_calm ?b 5000" "ab_failures ?b = 0" "Suc (length [1000 :: nat]) = ab_threshold ?b"
    "\<not> open_until ?b 2000 \<le> 5000"
    by (simp_all add: audit_calm_def audit_breaker_new_def u64_max_def open_until_def
        breaker_cooldown_ms_def from_secs_def as_millis_def sat_add_u64_def)
  have p: "\<not> pb_stopped ?p" "qp_try_send (list_queue 1) (pb_queue ?p) demo_message = Inr [demo_message]"
    "pb_breaker ?p = record_outcomes audit_record_success audit_record_failure ?b (map Some ([1000] @ [2000]))"
    by (simp_all add: publisher_new_def list_queue_def)
  have "fst (submit (list_queue 1) 5000 demo_message ?p) \<longleftrightarrow> open_until ?b 2000 \<le> 5000"
    by (rule submit_follows_breaker [OF b(1,2) p(1,2), THEN conjunct2, rule_format], intro conjI)
      (rule p(3), rule b(3), simp)
  with b(4) show ?thesis by blast
qed

text \<open>C6: No accepted message is lost or duplicated inside the publisher: in every state its workers
  reach, in any interleaving, the accepted messages are those in the queue, those a worker holds, those
  published and those deliberately discarded, each as often as accepted; the queue holds the newest of
  them in order, within its bound; and whatever was published is the marshalled form of its message.\<close>

theorem publisher_conserves:
  assumes "queue_ok ops contents capacity" "contents fresh = []"
    and "pub_reachable ops marsh fresh config p"
  shows "mset (pb_accepted p) =
      mset (contents (pb_queue p)) + held (pb_workers p) + mset (map fate_payload (pb_fates p)) \<and>
    suffix (contents (pb_queue p)) (pb_accepted p) \<and> length (contents (pb_queue p)) \<le> capacity \<and>
    (Published m body \<in> set (pb_fates p) \<longrightarrow> marsh m = Ok body)"
  using pub_invD [OF pub_reachable_inv [OF assms]] by blast

theorem publisher_conserves_witness:
  "mset (pb_accepted (snd (submit (list_queue 1) 0 demo_message (publisher_new [] audit_config_default)))) =
   mset (id (pb_queue (snd (submit (list_queue 1) 0 demo_message (publisher_new [] audit_config_default))))) +
   held (pb_workers (snd (submit (list_queue 1) 0 demo_message (publisher_new [] audit_config_default)))) +
   mset (map fate_payload (pb_fates (snd (submit (list_queue 1) 0 demo_message (publisher_new [] audit_config_default)))))"
proof -
  have "pub_reachable (list_queue 1) (\<lambda>m. Ok [] :: unit + bytes) [] audit_config_default
      (snd (submit (list_queue 1) 0 demo_message (publisher_new [] audit_config_default)))"
    unfolding pub_reachable_def by (rule r_into_rtranclp, rule pub_step.Submit)
  from publisher_conserves [OF list_queue_ok _ this] show ?thesis by simp
qed

text \<open>C7: The publisher drains.  From every state it can reach, and whatever the clock, the transport
  and the encoder answer, the workers can take at most four steps per queued message and three per
  worker before nothing is left to do (they never wait for each other), and then every message ever accepted has its fate: it
  was published or deliberately discarded, as often as it was accepted.\<close>

theorem publisher_drains:
  assumes "queue_ok ops contents capacity" "queue_live ops contents" "contents fresh = []"
    and "pub_reachable ops marsh fresh config p"
    and "(worker_step ops marsh ^^ n) p p'"
  shows "n \<le> 4 * length (contents (pb_queue p)) + 3 * length (pb_workers p) \<and>
    ((\<exists>q. worker_step ops marsh p' q) \<or>
      contents (pb_queue p') = [] \<and> mset (map fate_payload (pb_fates p')) = mset (pb_accepted p))"
proof -
  note run = worker_run [OF assms(1,5)]
  from run assms(4) have reach: "pub_reachable ops marsh fresh config p'"
    unfolding pub_reachable_def by (meson rtranclp_trans)
  have "contents (pb_queue p') = [] \<and> mset (map fate_payload (pb_fates p')) = mset (pb_accepted p)"
    if "\<nexists>q. worker_step ops marsh p' q"
    using worker_stuck [OF assms(2) pub_reachable_workers [OF reach], of marsh] that
      pub_invD(1) [OF pub_reachable_inv [OF assms(1,3) reach]] run by simp
  with run work_le [of contents p] show ?thesis by auto
qed

text \<open>One queued message and an encoder that fails: the worker takes it and drops it.\<close>

theorem publisher_drains_witness:
  "let p = snd (submit (list_queue 1) 0 demo_message
         (publisher_new [] (audit_config_default\<lparr>cf_worker_count := 1\<rparr>)));
       p' = worker_check (Inl () :: unit + bytes) 0 0 True demo_message (worker_recv (list_queue 1) 0 p)
   in 2 \<le> 4 * length (pb_queue p) + 3 * length (pb_workers p) \<and>
      map fate_payload (pb_fates p') = [demo_message]"
proof -
  let ?ops = "list_queue 1" and ?config = "audit_config_default\<lparr>cf_worker_count := 1\<rparr>"
  let ?marsh = "\<lambda>m. Inl () :: unit + bytes"
  let ?p = "snd (submit ?ops 0 demo_message (publisher_new [] ?config))"
  let ?r = "worker_recv ?ops 0 ?p"
  let ?q = "worker_check (?marsh demo_message) 0 0 True demo_message ?r"
  have live: "queue_live ?ops id" by (auto simp: queue_live_def list_queue_def split: list.splits)
  have p: "pb_workers ?p = [Waiting]" "pb_queue ?p = [demo_message]" "pb_fates ?p = []"
    "\<not> circuit_open (pb_breaker ?p) 0"
    by (simp_all add: submit_def publisher_new_def list_queue_def circuit_open_def audit_breaker_new_def)
  then have r: "pb_workers ?r = [Received demo_message]" "\<not> circuit_open (pb_breaker ?r) 0" "pb_fates ?r = []"
    by (simp_all add: worker_recv_def list_queue_def)
  have "worker_step ?ops ?marsh ?p ?r"
    by (rule worker_step.W_Recv) (use p in \<open>simp_all add: list_queue_def\<close>)
  moreover have "worker_step ?ops ?marsh ?r ?q"
    by (rule worker_step.W_Check) (use r in simp_all)
  ultimately have run: "(worker_step ?ops ?marsh ^^ 2) ?p ?q"
    by (auto simp: numeral_2_eq_2)
  have reach: "pub_reachable ?ops ?marsh [] ?config ?p"
    unfolding pub_reachable_def by (rule r_into_rtranclp, rule pub_step.Submit)
  from publisher_drains [OF list_queue_ok live _ reach run] r
  show ?thesis by (simp add: Let_def worker_check_def)
qed

end
