(* ===== verification/PcDiscovery.thy ===== *)
theory PcDiscovery
  imports PcCore
begin

section \<open>pc-grpc: endpoint discovery\<close>

text \<open>
  \<open>crates/pc-grpc/src/discovery.rs\<close>. A \<open>BTreeSet<SocketAddr>\<close> is its ascending list without
  repetition; addresses are ordered as \<open>SocketAddr\<close> orders them (every IPv4 address before
  every IPv6 address, then by address, port, flow information and scope).

  The change queue is a \<open>tokio\<close> channel: \<open>reserve q n\<close>, a parameter, is \<open>try_reserve_many(n)\<close>
  on a queue in state \<open>q\<close> and gives the reason of the refusal or the queue with the \<open>n\<close>
  places taken. \<open>ch_sent\<close> is every change ever handed to the balancer, in order; what the
  balancer holds after it has worked through a prefix of it is \<open>balanced\<close>.
\<close>

subsection \<open>Socket addresses\<close>

datatype sockaddr =
  V4 "32 word" "16 word"
| V6 "128 word" "16 word" "32 word" "32 word"

fun is_ipv4 :: "sockaddr \<Rightarrow> bool" where
  "is_ipv4 (V4 ip port) = True"
| "is_ipv4 (V6 ip port flow scope) = False"

fun addr_key :: "sockaddr \<Rightarrow> nat \<times> nat \<times> nat \<times> nat \<times> nat" where
  "addr_key (V4 ip port) = (0, unat ip, unat port, 0, 0)"
| "addr_key (V6 ip port flow scope) = (1, unat ip, unat port, unat flow, unat scope)"

lemma addr_key_inj: "addr_key a = addr_key b \<longleftrightarrow> a = b"
  by (cases a; cases b) (auto simp: word_unat_eq_iff)

instantiation sockaddr :: linorder
begin

definition less_eq_sockaddr :: "sockaddr \<Rightarrow> sockaddr \<Rightarrow> bool" where
  "less_eq_sockaddr a b = (addr_key a \<le> addr_key b)"

definition less_sockaddr :: "sockaddr \<Rightarrow> sockaddr \<Rightarrow> bool" where
  "less_sockaddr a b = (addr_key a < addr_key b)"

instance
proof
  fix a b c :: sockaddr
  show "(a < b) = (a \<le> b \<and> \<not> b \<le> a)"
    unfolding less_eq_sockaddr_def less_sockaddr_def by (rule less_le_not_le)
  show "a \<le> a" unfolding less_eq_sockaddr_def by (rule order_refl)
  show "a \<le> b \<Longrightarrow> b \<le> c \<Longrightarrow> a \<le> c"
    unfolding less_eq_sockaddr_def by (rule order_trans)
  show "a \<le> b \<Longrightarrow> b \<le> a \<Longrightarrow> a = b"
    unfolding less_eq_sockaddr_def using addr_key_inj by (metis order_antisym)
  show "a \<le> b \<or> b \<le> a"
    unfolding less_eq_sockaddr_def by (rule linear)
qed

end

type_synonym addr_set = "sockaddr list"

definition addr_set_ok :: "addr_set \<Rightarrow> bool" where
  "addr_set_ok s \<longleftrightarrow> sorted s \<and> distinct s"

definition addr_insert :: "sockaddr \<Rightarrow> addr_set \<Rightarrow> addr_set" where
  "addr_insert a s = (if a \<in> set s then s else insort a s)"

definition addr_remove :: "sockaddr \<Rightarrow> addr_set \<Rightarrow> addr_set" where
  "addr_remove a s = filter (\<lambda>b. b \<noteq> a) s"

lemma addr_set_ops [simp]:
  "set (addr_insert a s) = insert a (set s)"
  "set (addr_remove a s) = set s - {a}"
  "addr_set_ok s \<Longrightarrow> addr_set_ok (addr_insert a s)"
  "addr_set_ok s \<Longrightarrow> addr_set_ok (addr_remove a s)"
  by (auto simp: addr_insert_def addr_remove_def addr_set_ok_def set_insort_key sorted_insort
      distinct_insort sorted_wrt_filter)

lemma addr_set_unique: "addr_set_ok s \<Longrightarrow> addr_set_ok t \<Longrightarrow> set s = set t \<Longrightarrow> s = t"
  by (auto simp: addr_set_ok_def intro: sorted_distinct_set_unique)

subsection \<open>Pure address functions\<close>

definition prefer_ipv4 :: "addr_set \<Rightarrow> addr_set" where
  "prefer_ipv4 addrs = (if list_ex is_ipv4 addrs then filter is_ipv4 addrs else addrs)"

definition diff_addrs :: "addr_set \<Rightarrow> addr_set \<Rightarrow> addr_set \<times> addr_set" where
  "diff_addrs old new =
     (if new = [] then ([], [])
      else (filter (\<lambda>a. a \<notin> set old) new, filter (\<lambda>a. a \<notin> set new) old))"

text \<open>\<open>SystemResolver\<close>: \<open>lookup_host\<close>, the system's resolver, is the parameter; its answer is
  collected into a set.\<close>

definition system_lookup ::
  "(string \<times> nat \<Rightarrow> 'io + sockaddr list) \<Rightarrow> string \<Rightarrow> nat \<Rightarrow> 'io + addr_set" where
  "system_lookup lookup_host host port =
     and_then (lookup_host (host, port)) (\<lambda>addrs. Ok (prefer_ipv4 (fold addr_insert addrs [])))"

lemma prefer_ipv4_facts:
  "prefer_ipv4 s = [] \<longleftrightarrow> s = []"
  "set (prefer_ipv4 s) \<subseteq> set s"
  "addr_set_ok s \<Longrightarrow> addr_set_ok (prefer_ipv4 s)"
  by (auto simp: prefer_ipv4_def addr_set_ok_def filter_empty_conv list_ex_iff sorted_wrt_filter)

lemma fold_addr_insert:
  "addr_set_ok s \<Longrightarrow> addr_set_ok (fold addr_insert xs s) \<and> set (fold addr_insert xs s) = set xs \<union> set s"
  by (induction xs arbitrary: s) auto

subsection \<open>The change queue and the balancer\<close>

datatype endpoint_key = Seed nat | Addr sockaddr nat

datatype 'ep change = Insert endpoint_key 'ep | Remove endpoint_key

datatype try_send_error = Queue_Full | Queue_Closed

datatype sent = Sent_Ok | Sent_Full | Sent_Closed

record ('q, 'ep) channel =
  ch_queue :: 'q
  ch_sent :: "'ep change list"

type_synonym 'q reserve = "'q \<Rightarrow> nat \<Rightarrow> try_send_error + 'q"

definition send_batch ::
  "'q reserve \<Rightarrow> ('q, 'ep) channel \<Rightarrow> 'ep change list \<Rightarrow> sent \<times> ('q, 'ep) channel" where
  "send_batch reserve tx changes =
     (case reserve (ch_queue tx) (length changes) of
        Inr q \<Rightarrow> (Sent_Ok, tx\<lparr>ch_queue := q, ch_sent := ch_sent tx @ changes\<rparr>)
      | Inl Queue_Full \<Rightarrow> (Sent_Full, tx)
      | Inl Queue_Closed \<Rightarrow> (Sent_Closed, tx))"

fun balance :: "'ep change \<Rightarrow> endpoint_key set \<Rightarrow> endpoint_key set" where
  "balance (Insert k e) ks = insert k ks"
| "balance (Remove k) ks = ks - {k}"

definition balanced :: "endpoint_key set \<Rightarrow> 'ep change list \<Rightarrow> endpoint_key set" where
  "balanced ks cs = fold balance cs ks"

text \<open>Working through \<open>cs\<close> from \<open>ks\<close> never leaves the balancer without an endpoint.\<close>

fun never_empty :: "endpoint_key set \<Rightarrow> 'ep change list \<Rightarrow> bool" where
  "never_empty ks [] = (ks \<noteq> {})"
| "never_empty ks (c # cs) = (ks \<noteq> {} \<and> never_empty (balance c ks) cs)"

lemma balanced_simps [simp]:
  "balanced ks [] = ks"
  "balanced ks (c # cs) = balanced (balance c ks) cs"
  "balanced ks (cs @ ds) = balanced (balanced ks cs) ds"
  by (simp_all add: balanced_def)

lemma never_empty_append:
  "never_empty ks (cs @ ds) \<longleftrightarrow> never_empty ks cs \<and> never_empty (balanced ks cs) ds"
  by (induction cs arbitrary: ks) (auto elim: never_empty.elims)

lemma never_empty_now: "never_empty ks cs \<Longrightarrow> ks \<noteq> {}"
  by (cases cs) auto

lemma never_empty_prefix: "never_empty ks cs \<Longrightarrow> balanced ks (take n cs) \<noteq> {}"
  using never_empty_append [of ks "take n cs" "drop n cs"] never_empty_now by auto

text \<open>The same for the changes after the first \<open>n\<close>, the ones a channel is set up with.\<close>

definition never_empty_from :: "nat \<Rightarrow> endpoint_key set \<Rightarrow> 'ep change list \<Rightarrow> bool" where
  "never_empty_from n ks cs \<longleftrightarrow>
     n \<le> length cs \<and> never_empty (balanced ks (take n cs)) (drop n cs)"

lemma balanced_take_drop: "balanced (balanced ks (take n cs)) (drop n cs) = balanced ks cs"
  using balanced_simps(3) [of ks "take n cs" "drop n cs"] by simp

lemma never_empty_from_append:
  "never_empty_from n ks cs \<Longrightarrow>
     never_empty_from n ks (cs @ ds) \<longleftrightarrow> never_empty (balanced ks cs) ds"
  by (auto simp: never_empty_from_def never_empty_append balanced_take_drop)

lemma never_empty_from_end: "never_empty_from n ks cs \<Longrightarrow> balanced ks cs \<noteq> {}"
  using never_empty_append [of "balanced ks (take n cs)" "drop n cs" "[]"]
  by (auto simp: never_empty_from_def balanced_take_drop)

lemma never_empty_from_prefix:
  assumes "never_empty_from n ks cs" "n \<le> m"
  shows "balanced ks (take m cs) \<noteq> {}"
proof -
  have "take m cs = take n cs @ take (m - n) (drop n cs)"
    using assms(2) take_add [of n "m - n" cs] by simp
  then show ?thesis
    using never_empty_prefix [of "balanced ks (take n cs)" "drop n cs" "m - n"] assms(1)
    by (simp add: never_empty_from_def)
qed

lemma balanced_inserts [simp]: "balanced ks (map (\<lambda>k. Insert k e) xs) = ks \<union> set xs"
  by (induction xs arbitrary: ks) auto

lemma balanced_removes [simp]: "balanced ks (map Remove xs) = ks - set xs"
  by (induction xs arbitrary: ks) auto

lemma never_empty_inserts: "ks \<noteq> {} \<Longrightarrow> never_empty ks (map (\<lambda>k. Insert k e) xs)"
  by (induction xs arbitrary: ks) auto

lemma never_empty_removes: "ks - set xs \<noteq> {} \<Longrightarrow> never_empty ks (map Remove xs)"
proof (induction xs arbitrary: ks)
  case (Cons x xs)
  then have "ks - {x} - set xs \<noteq> {}" by auto
  with Cons show ?case by auto
qed auto

subsection \<open>The refresher\<close>

record ('q, 'ep) refresher =
  rf_refresh :: duration
  rf_pool :: nat
  rf_seed_slots :: nat
  rf_known :: addr_set
  rf_tx :: "('q, 'ep) channel"

definition insert_batch :: "nat \<Rightarrow> sockaddr \<Rightarrow> 'ep \<Rightarrow> 'ep change list" where
  "insert_batch pool a ep = map (\<lambda>slot. Insert (Addr a slot) ep) [0..<pool]"

definition remove_batch :: "nat \<Rightarrow> sockaddr \<Rightarrow> 'ep change list" where
  "remove_batch pool a = map (\<lambda>slot. Remove (Addr a slot)) [0..<pool]"

definition seed_batch :: "nat \<Rightarrow> 'ep change list" where
  "seed_batch n = map (\<lambda>slot. Remove (Seed slot)) [0..<n]"

text \<open>The two loops of \<open>apply\<close> and its last step; \<open>build\<close> is the caller's closure.\<close>

fun apply_added ::
  "'q reserve \<Rightarrow> (sockaddr \<Rightarrow> 'x + 'ep) \<Rightarrow> addr_set \<Rightarrow> ('q, 'ep) refresher
     \<Rightarrow> sent \<times> ('q, 'ep) refresher" where
  "apply_added reserve build [] r = (Sent_Ok, r)"
| "apply_added reserve build (a # added) r =
     (case build a of
        Inl e \<Rightarrow> apply_added reserve build added r
      | Inr ep \<Rightarrow>
          (case send_batch reserve (rf_tx r) (insert_batch (rf_pool r) a ep) of
             (Sent_Ok, tx) \<Rightarrow>
               apply_added reserve build added
                 (r\<lparr>rf_tx := tx, rf_known := addr_insert a (rf_known r)\<rparr>)
           | (other, tx) \<Rightarrow> (other, r\<lparr>rf_tx := tx\<rparr>)))"

fun apply_gone ::
  "'q reserve \<Rightarrow> addr_set \<Rightarrow> ('q, 'ep) refresher \<Rightarrow> sent \<times> ('q, 'ep) refresher" where
  "apply_gone reserve [] r = (Sent_Ok, r)"
| "apply_gone reserve (a # gone) r =
     (case send_batch reserve (rf_tx r) (remove_batch (rf_pool r) a) of
        (Sent_Ok, tx) \<Rightarrow>
          apply_gone reserve gone (r\<lparr>rf_tx := tx, rf_known := addr_remove a (rf_known r)\<rparr>)
      | (other, tx) \<Rightarrow> (other, r\<lparr>rf_tx := tx\<rparr>))"

definition apply_seed ::
  "'q reserve \<Rightarrow> ('q, 'ep) refresher \<Rightarrow> sent \<times> ('q, 'ep) refresher" where
  "apply_seed reserve r =
     (if rf_seed_slots r > 0 \<and> rf_known r \<noteq> [] then
        (case send_batch reserve (rf_tx r) (seed_batch (rf_seed_slots r)) of
           (Sent_Ok, tx) \<Rightarrow> (Sent_Ok, r\<lparr>rf_tx := tx, rf_seed_slots := 0\<rparr>)
         | (other, tx) \<Rightarrow> (other, r\<lparr>rf_tx := tx\<rparr>))
      else (Sent_Ok, r))"

definition refresher_apply ::
  "'q reserve \<Rightarrow> (sockaddr \<Rightarrow> 'x + 'ep) \<Rightarrow> addr_set \<Rightarrow> ('q, 'ep) refresher
     \<Rightarrow> sent \<times> ('q, 'ep) refresher" where
  "refresher_apply reserve build found r =
     (let (added, gone) = diff_addrs (rf_known r) found in
      (case apply_added reserve build added r of
         (Sent_Ok, r1) \<Rightarrow>
           (case (if length (rf_known r1) > length gone then apply_gone reserve gone r1
                  else (Sent_Ok, r1)) of
              (Sent_Ok, r2) \<Rightarrow> apply_seed reserve r2
            | (other, r2) \<Rightarrow> (other, r2))
       | (other, r1) \<Rightarrow> (other, r1)))"

text \<open>
  \<open>run\<close>. Each turn of the loop sleeps, looks up and applies; what the outside gives a turn is
  an event: the channel is closed while the task sleeps, or the lookup ends with a set, an
  error or the timeout. Between turns the balancer may drain the queue, which \<open>drain\<close> stands
  for. The result lists the delays slept and says whether the task has returned.
\<close>

datatype 'x lookup_result = Found addr_set | Lookup_Failed 'x | Lookup_Timed_Out

datatype ('x, 'q) turn = Tx_Closed | Turn "'q \<Rightarrow> 'q" "'x lookup_result"

definition first_retry :: duration where
  "first_retry = from_secs 1"

definition lookup_timeout :: duration where
  "lookup_timeout = from_secs 5"

definition next_delay ::
  "bool \<Rightarrow> duration \<Rightarrow> ('q, 'ep) refresher \<Rightarrow> duration \<times> duration" where
  "next_delay first retry r =
     (if first then (0, retry)
      else if rf_known r = [] then (retry, min (retry * 2) (rf_refresh r))
      else (rf_refresh r, retry))"

fun refresher_loop ::
  "'q reserve \<Rightarrow> (sockaddr \<Rightarrow> 'x + 'ep) \<Rightarrow> bool \<Rightarrow> duration \<Rightarrow> ('q, 'ep) refresher
     \<Rightarrow> ('y, 'q) turn list \<Rightarrow> duration list \<times> bool \<times> ('q, 'ep) refresher" where
  "refresher_loop reserve build first retry r [] = ([], False, r)"
| "refresher_loop reserve build first retry r (Tx_Closed # turns) =
     ([fst (next_delay first retry r)], True, r)"
| "refresher_loop reserve build first retry r (Turn drain res # turns) =
     (let (delay, retry') = next_delay first retry r;
          r0 = r\<lparr>rf_tx := (rf_tx r)\<lparr>ch_queue := drain (ch_queue (rf_tx r))\<rparr>\<rparr>
      in case res of
           Found found \<Rightarrow>
             (case refresher_apply reserve build found r0 of
                (Sent_Closed, r1) \<Rightarrow> ([delay], True, r1)
              | (_, r1) \<Rightarrow>
                  (let (ds, ended, r2) = refresher_loop reserve build False retry' r1 turns
                   in (delay # ds, ended, r2)))
         | _ \<Rightarrow>
             (let (ds, ended, r2) = refresher_loop reserve build False retry' r0 turns
              in (delay # ds, ended, r2)))"

definition refresher_run ::
  "'q reserve \<Rightarrow> (sockaddr \<Rightarrow> 'x + 'ep) \<Rightarrow> bool \<Rightarrow> ('q, 'ep) refresher
     \<Rightarrow> ('y, 'q) turn list \<Rightarrow> duration list \<times> bool \<times> ('q, 'ep) refresher" where
  "refresher_run reserve build immediate r turns =
     refresher_loop reserve build immediate (min first_retry (rf_refresh r)) r turns"

subsection \<open>What the balancer holds\<close>

definition addr_keys :: "nat \<Rightarrow> sockaddr set \<Rightarrow> endpoint_key set" where
  "addr_keys pool as = {Addr a i | a i. a \<in> as \<and> i < pool}"

definition seed_keys :: "nat \<Rightarrow> endpoint_key set" where
  "seed_keys n = {Seed i | i. i < n}"

definition refresher_keys :: "('q, 'ep) refresher \<Rightarrow> endpoint_key set" where
  "refresher_keys r =
     addr_keys (rf_pool r) (set (rf_known r)) \<union> seed_keys (rf_seed_slots r)"

text \<open>The refresher's own account of the balancer is right, and the balancer was never left
  empty on the way.\<close>

definition mirrors :: "endpoint_key set \<Rightarrow> nat \<Rightarrow> ('q, 'ep) refresher \<Rightarrow> bool" where
  "mirrors ks n r \<longleftrightarrow>
     addr_set_ok (rf_known r) \<and> 0 < rf_pool r \<and>
     balanced ks (ch_sent (rf_tx r)) = refresher_keys r \<and> never_empty_from n ks (ch_sent (rf_tx r))"

lemma batch_key_sets:
  "set (map (Addr a) [0..<pool]) = addr_keys pool {a}"
  "set (map Seed [0..<n]) = seed_keys n"
  by (auto simp: addr_keys_def seed_keys_def)

lemma batch_balanced:
  "balanced ks (insert_batch pool a ep) = ks \<union> addr_keys pool {a}"
  "balanced ks (remove_batch pool a) = ks - addr_keys pool {a}"
  "balanced ks (seed_batch n) = ks - seed_keys n"
  using balanced_inserts [of ks ep "map (Addr a) [0..<pool]"]
    balanced_removes [of ks "map (Addr a) [0..<pool]"] balanced_removes [of ks "map Seed [0..<n]"]
  unfolding batch_key_sets by (simp_all add: insert_batch_def remove_batch_def seed_batch_def comp_def)

lemma batch_never_empty:
  "ks \<noteq> {} \<Longrightarrow> never_empty ks (insert_batch pool a ep)"
  "ks - addr_keys pool {a} \<noteq> {} \<Longrightarrow> never_empty ks (remove_batch pool a)"
  "ks - seed_keys n \<noteq> {} \<Longrightarrow> never_empty ks (seed_batch n)"
  using never_empty_inserts [of ks ep "map (Addr a) [0..<pool]"]
    never_empty_removes [of ks "map (Addr a) [0..<pool]"]
    never_empty_removes [of ks "map Seed [0..<n]"]
  unfolding batch_key_sets by (simp_all add: insert_batch_def remove_batch_def seed_batch_def comp_def)

lemma key_set_facts:
  "addr_keys pool (insert a as) = addr_keys pool {a} \<union> addr_keys pool as"
  "addr_keys pool as \<union> seed_keys n - addr_keys pool {a} = addr_keys pool (as - {a}) \<union> seed_keys n"
  "addr_keys pool as \<union> seed_keys n - seed_keys n = addr_keys pool as"
  "seed_keys 0 = {}"
  "0 < pool \<Longrightarrow> addr_keys pool as = {} \<longleftrightarrow> as = {}"
  by (auto simp: addr_keys_def seed_keys_def)

lemma send_batch_result:
  "send_batch reserve tx cs = (res, tx') \<Longrightarrow>
     ch_sent tx' = (if res = Sent_Ok then ch_sent tx @ cs else ch_sent tx)"
  by (auto simp: send_batch_def split: sum.splits try_send_error.splits)

lemma mirrors_queue: "mirrors ks n r \<Longrightarrow> ch_sent tx = ch_sent (rf_tx r) \<Longrightarrow> mirrors ks n (r\<lparr>rf_tx := tx\<rparr>)"
  by (simp add: mirrors_def refresher_keys_def)

lemma mirrorsD:
  assumes "mirrors ks n r"
  shows "balanced ks (ch_sent (rf_tx r)) = refresher_keys r" "never_empty_from n ks (ch_sent (rf_tx r))"
    "0 < rf_pool r" "addr_set_ok (rf_known r)" "refresher_keys r \<noteq> {}"
  using assms never_empty_from_end [of n ks "ch_sent (rf_tx r)"] by (auto simp: mirrors_def)

lemma mirrors_insert:
  assumes "mirrors ks n r" "ch_sent tx = ch_sent (rf_tx r) @ insert_batch (rf_pool r) a ep"
  shows "mirrors ks n (r\<lparr>rf_tx := tx, rf_known := addr_insert a (rf_known r)\<rparr>)"
proof -
  have "refresher_keys r \<union> addr_keys (rf_pool r) {a} =
      addr_keys (rf_pool r) (insert a (set (rf_known r))) \<union> seed_keys (rf_seed_slots r)"
    using key_set_facts(1) [of "rf_pool r" a "set (rf_known r)"] by (auto simp: refresher_keys_def)
  with mirrorsD [OF assms(1)] assms(2) batch_never_empty(1) [of "refresher_keys r"] show ?thesis
    by (simp add: mirrors_def never_empty_from_append batch_balanced refresher_keys_def)
qed

lemma mirrors_remove:
  assumes "mirrors ks n r" "ch_sent tx = ch_sent (rf_tx r) @ remove_batch (rf_pool r) a"
    and "set (rf_known r) - {a} \<noteq> {}"
  shows "mirrors ks n (r\<lparr>rf_tx := tx, rf_known := addr_remove a (rf_known r)\<rparr>)"
proof -
  note d = mirrorsD [OF assms(1)]
  have left: "refresher_keys r - addr_keys (rf_pool r) {a} =
      addr_keys (rf_pool r) (set (rf_known r) - {a}) \<union> seed_keys (rf_seed_slots r)"
    unfolding refresher_keys_def by (rule key_set_facts(2))
  moreover have "\<dots> \<noteq> {}"
    using assms(3) key_set_facts(5) [OF d(3), of "set (rf_known r) - {a}"] by blast
  ultimately show ?thesis
    using assms(2) d batch_never_empty(2) [of "refresher_keys r" "rf_pool r" a]
    by (simp add: mirrors_def never_empty_from_append batch_balanced)
      (simp add: refresher_keys_def)
qed

lemma mirrors_seed:
  assumes "mirrors ks n r" "ch_sent tx = ch_sent (rf_tx r) @ seed_batch (rf_seed_slots r)"
    and "rf_known r \<noteq> []"
  shows "mirrors ks n (r\<lparr>rf_tx := tx, rf_seed_slots := 0\<rparr>)"
proof -
  note d = mirrorsD [OF assms(1)]
  have left: "refresher_keys r - seed_keys (rf_seed_slots r) =
      addr_keys (rf_pool r) (set (rf_known r))"
    unfolding refresher_keys_def by (rule key_set_facts(3))
  moreover have "\<dots> \<noteq> {}"
    using assms(3) key_set_facts(5) [OF d(3), of "set (rf_known r)"] by simp
  ultimately show ?thesis
    using assms(2) d batch_never_empty(3) [of "refresher_keys r" "rf_seed_slots r"]
    by (simp add: mirrors_def never_empty_from_append batch_balanced)
      (simp add: refresher_keys_def key_set_facts(4))
qed

lemma apply_added_mirrors:
  "mirrors ks n r \<Longrightarrow> apply_added reserve build added r = (res, r') \<Longrightarrow>
     mirrors ks n r' \<and> set (rf_known r) \<subseteq> set (rf_known r') \<and>
     set (rf_known r') \<subseteq> set (rf_known r) \<union> set added"
proof (induction added arbitrary: r)
  case Nil
  then show ?case by simp
next
  case (Cons a added)
  show ?case
  proof (cases "build a")
    case (Inl e)
    with Cons.IH [of r] Cons.prems show ?thesis by auto
  next
    case (Inr ep)
    obtain res1 tx where send:
      "send_batch reserve (rf_tx r) (insert_batch (rf_pool r) a ep) = (res1, tx)"
      by (cases "send_batch reserve (rf_tx r) (insert_batch (rf_pool r) a ep)")
    note sent = send_batch_result [OF send]
    show ?thesis
    proof (cases "res1 = Sent_Ok")
      case True
      let ?r = "r\<lparr>rf_tx := tx, rf_known := addr_insert a (rf_known r)\<rparr>"
      have "mirrors ks n ?r" using True sent Cons.prems(1) by (intro mirrors_insert) auto
      with Cons.IH [of ?r] Cons.prems(2) Inr send True show ?thesis by auto
    next
      case False
      with sent Cons.prems Inr send mirrors_queue [of ks n r tx] show ?thesis
        by (auto split: sent.splits)
    qed
  qed
qed

lemma apply_gone_mirrors:
  "mirrors ks n r \<Longrightarrow> apply_gone reserve gone r = (res, r') \<Longrightarrow>
     set (rf_known r) - set gone \<noteq> {} \<Longrightarrow>
     mirrors ks n r' \<and> set (rf_known r) - set gone \<subseteq> set (rf_known r') \<and>
     set (rf_known r') \<subseteq> set (rf_known r)"
proof (induction gone arbitrary: r)
  case Nil
  then show ?case by simp
next
  case (Cons a gone)
  obtain res1 tx where send:
    "send_batch reserve (rf_tx r) (remove_batch (rf_pool r) a) = (res1, tx)"
    by (cases "send_batch reserve (rf_tx r) (remove_batch (rf_pool r) a)")
  note sent = send_batch_result [OF send]
  show ?case
  proof (cases "res1 = Sent_Ok")
    case True
    let ?r = "r\<lparr>rf_tx := tx, rf_known := addr_remove a (rf_known r)\<rparr>"
    have "mirrors ks n ?r" using True sent Cons.prems by (intro mirrors_remove) auto
    moreover have "set (rf_known ?r) - set gone = set (rf_known r) - set (a # gone)" by auto
    ultimately show ?thesis using Cons.IH [of ?r] Cons.prems(2,3) send True by auto
  next
    case False
    with sent Cons.prems send mirrors_queue [of ks n r tx] show ?thesis
      by (auto split: sent.splits)
  qed
qed

lemma apply_seed_mirrors:
  assumes "mirrors ks n r" "apply_seed reserve r = (res, r')"
  shows "mirrors ks n r' \<and> rf_known r' = rf_known r"
proof -
  obtain res1 tx where send:
    "send_batch reserve (rf_tx r) (seed_batch (rf_seed_slots r)) = (res1, tx)"
    by (cases "send_batch reserve (rf_tx r) (seed_batch (rf_seed_slots r))")
  from send_batch_result [OF send] assms send mirrors_seed [of ks n r tx] mirrors_queue [of ks n r tx]
  show ?thesis
    by (cases res1) (auto simp: apply_seed_def split: if_splits)
qed

lemma addr_set_spare:
  assumes "addr_set_ok s" "length gone < length s"
  shows "set s - set gone \<noteq> {}"
proof
  assume "set s - set gone = {}"
  then have "card (set s) \<le> length gone"
    by (meson Diff_eq_empty_iff List.finite_set card_length card_mono order_trans)
  moreover have "card (set s) = length s"
    using assms(1) by (meson addr_set_ok_def distinct_card)
  ultimately show False using assms(2) by simp
qed

lemma refresher_apply_mirrors:
  assumes "mirrors ks n r" "refresher_apply reserve build found r = (res, r')"
  shows "mirrors ks n r'"
proof -
  obtain added gone where d: "diff_addrs (rf_known r) found = (added, gone)"
    by (cases "diff_addrs (rf_known r) found")
  obtain res1 r1 where a: "apply_added reserve build added r = (res1, r1)"
    by (cases "apply_added reserve build added r")
  note m1 = apply_added_mirrors [OF assms(1) a]
  show ?thesis
  proof (cases "res1 = Sent_Ok")
    case False
    with assms(2) d a m1 show ?thesis by (cases res1) (auto simp: refresher_apply_def)
  next
    case True
    obtain res2 r2 where g: "(if length (rf_known r1) > length gone then apply_gone reserve gone r1
        else (Sent_Ok, r1)) = (res2, r2)"
      by (cases "if length (rf_known r1) > length gone then apply_gone reserve gone r1
        else (Sent_Ok, r1)")
    have m2: "mirrors ks n r2"
    proof (cases "length (rf_known r1) > length gone")
      case True
      from addr_set_spare [OF mirrorsD(4) [OF m1 [THEN conjunct1]] this] have "set (rf_known r1) - set gone \<noteq> {}" .
      moreover from True g have "apply_gone reserve gone r1 = (res2, r2)" by simp
      ultimately show ?thesis using apply_gone_mirrors m1 by blast
    next
      case False
      with g m1 show ?thesis by simp
    qed
    show ?thesis
    proof (cases "res2 = Sent_Ok")
      case True
      with assms(2) d a g \<open>res1 = Sent_Ok\<close> have "apply_seed reserve r2 = (res, r')"
        by (simp add: refresher_apply_def)
      with apply_seed_mirrors m2 show ?thesis by blast
    next
      case False
      with assms(2) d a g m2 \<open>res1 = Sent_Ok\<close> show ?thesis
        by (cases res2) (auto simp: refresher_apply_def)
    qed
  qed
qed

lemma refresher_loop_mirrors:
  "mirrors ks n r \<Longrightarrow> refresher_loop reserve build first retry r turns = (ds, ended, r') \<Longrightarrow>
     mirrors ks n r'"
proof (induction turns arbitrary: first retry r ds ended r')
  case Nil
  then show ?case by simp
next
  case (Cons turn turns)
  show ?case
  proof (cases turn)
    case Tx_Closed
    with Cons show ?thesis by simp
  next
    case (Turn drain res)
    obtain delay retry' where d: "next_delay first retry r = (delay, retry')"
      by (cases "next_delay first retry r")
    let ?r0 = "r\<lparr>rf_tx := (rf_tx r)\<lparr>ch_queue := drain (ch_queue (rf_tx r))\<rparr>\<rparr>"
    have m0: "mirrors ks n ?r0" using Cons.prems(1) by (intro mirrors_queue) auto
    show ?thesis
    proof (cases res)
      case (Found found)
      obtain res1 r1 where a: "refresher_apply reserve build found ?r0 = (res1, r1)"
        by (cases "refresher_apply reserve build found ?r0")
      have m1: "mirrors ks n r1" using refresher_apply_mirrors [OF m0 a] .
      obtain ds' ended' r2 where l: "refresher_loop reserve build False retry' r1 turns = (ds', ended', r2)"
        by (cases "refresher_loop reserve build False retry' r1 turns")
      from Cons.IH [OF m1 l] m1 Cons.prems(2) Turn Found a d l show ?thesis
        by (cases res1) auto
    next
      case (Lookup_Failed e)
      with Cons.prems(2) Turn d Cons.IH [OF m0] show ?thesis
        by (auto simp: Let_def split: prod.splits)
    next
      case Lookup_Timed_Out
      with Cons.prems(2) Turn d Cons.IH [OF m0] show ?thesis
        by (auto simp: Let_def split: prod.splits)
    qed
  qed
qed

text \<open>Inside a batch of changes that all succeed, the set follows the lookup exactly.\<close>

definition never_refuses :: "'q reserve \<Rightarrow> bool" where
  "never_refuses reserve \<longleftrightarrow> (\<forall>q n. is_ok (reserve q n))"

lemma send_batch_accepts: "never_refuses reserve \<Longrightarrow> fst (send_batch reserve tx cs) = Sent_Ok"
  by (auto simp: never_refuses_def send_batch_def is_ok_iff split: sum.splits)
    (metis sum.simps(4))

lemma apply_added_accepts:
  "never_refuses reserve \<Longrightarrow> list_all (\<lambda>a. is_ok (build a)) added \<Longrightarrow>
     fst (apply_added reserve build added r) = Sent_Ok \<and>
     set (rf_known (snd (apply_added reserve build added r))) = set (rf_known r) \<union> set added"
proof (induction added arbitrary: r)
  case (Cons a added)
  then obtain ep where "build a = Inr ep" by (auto simp: is_ok_iff)
  moreover obtain tx where
    "send_batch reserve (rf_tx r) (insert_batch (rf_pool r) a ep) = (Sent_Ok, tx)"
    using send_batch_accepts [OF Cons.prems(1)] by (metis prod.collapse)
  ultimately show ?case using Cons by simp
qed simp

lemma apply_gone_accepts:
  "never_refuses reserve \<Longrightarrow>
     fst (apply_gone reserve gone r) = Sent_Ok \<and>
     set (rf_known (snd (apply_gone reserve gone r))) = set (rf_known r) - set gone"
proof (induction gone arbitrary: r)
  case (Cons a gone)
  moreover obtain tx where
    "send_batch reserve (rf_tx r) (remove_batch (rf_pool r) a) = (Sent_Ok, tx)"
    using send_batch_accepts [OF Cons.prems(1)] by (metis prod.collapse)
  ultimately show ?case by auto
qed simp

lemma apply_seed_accepts:
  assumes "never_refuses reserve" "rf_known r \<noteq> []"
  shows "fst (apply_seed reserve r) = Sent_Ok \<and>
    rf_known (snd (apply_seed reserve r)) = rf_known r \<and>
    rf_seed_slots (snd (apply_seed reserve r)) = 0"
proof -
  obtain tx where "send_batch reserve (rf_tx r) (seed_batch (rf_seed_slots r)) = (Sent_Ok, tx)"
    using send_batch_accepts [OF assms(1)] by (metis prod.collapse)
  then show ?thesis using assms(2) by (simp add: apply_seed_def)
qed

lemma apply_follows_lookup:
  assumes "never_refuses reserve" "list_all (\<lambda>a. is_ok (build a)) found" "found \<noteq> []"
    and ok: "addr_set_ok found" "mirrors ks n r"
  shows "rf_known (snd (refresher_apply reserve build found r)) = found"
    and "rf_seed_slots (snd (refresher_apply reserve build found r)) = 0"
proof -
  let ?added = "filter (\<lambda>a. a \<notin> set (rf_known r)) found"
  let ?gone = "filter (\<lambda>a. a \<notin> set found) (rf_known r)"
  obtain r1 where a: "apply_added reserve build ?added r = (Sent_Ok, r1)"
    and k1: "set (rf_known r1) = set (rf_known r) \<union> set found"
    using apply_added_accepts [OF assms(1), of build ?added r] assms(2)
    by (cases "apply_added reserve build ?added r") (auto simp: list_all_iff)
  have m1: "mirrors ks n r1" using apply_added_mirrors [OF ok(2) a] by blast
  have "length ?gone = card (set ?gone)"
    using mirrorsD(4) [OF ok(2)] distinct_card [of ?gone] by (simp only: addr_set_ok_def distinct_filter)
  also have "\<dots> < card (set (rf_known r1))"
    using assms(3) k1 by (intro psubset_card_mono) (auto simp: neq_Nil_conv)
  also have "\<dots> = length (rf_known r1)"
    using mirrorsD(4) [OF m1] by (simp add: addr_set_ok_def distinct_card)
  finally have longer: "length ?gone < length (rf_known r1)" .
  obtain r2 where g: "apply_gone reserve ?gone r1 = (Sent_Ok, r2)"
    and k2: "set (rf_known r2) = set found"
    using apply_gone_accepts [OF assms(1), of ?gone r1] k1
    by (cases "apply_gone reserve ?gone r1") auto
  have "mirrors ks n r2"
    using apply_gone_mirrors [OF m1 g] k1 assms(3) by (auto simp: neq_Nil_conv)
  then have known: "rf_known r2 = found"
    using k2 ok(1) mirrorsD(4) by (blast intro: addr_set_unique)
  then have "rf_known r2 \<noteq> []" using assms(3) by simp
  from apply_seed_accepts [OF assms(1) this] known a g longer assms(3)
  show "rf_known (snd (refresher_apply reserve build found r)) = found"
    and "rf_seed_slots (snd (refresher_apply reserve build found r)) = 0"
    by (simp_all add: refresher_apply_def diff_addrs_def)
qed

subsection \<open>Retry delays\<close>

text \<open>Before any address is known, failing lookups are spaced by the doubling curve.\<close>

definition failing :: "('y, 'q) turn \<Rightarrow> bool" where
  "failing t = (case t of Turn d (Lookup_Failed e) \<Rightarrow> True | Turn d Lookup_Timed_Out \<Rightarrow> True
     | Turn d (Found found) \<Rightarrow> found = [] | Tx_Closed \<Rightarrow> False)"

lemma apply_empty:
  "rf_known r = [] \<Longrightarrow> refresher_apply reserve build [] r = (Sent_Ok, r)"
  by (simp add: refresher_apply_def diff_addrs_def apply_seed_def)

lemma loop_failing_turn:
  assumes "failing t" "rf_known r = []"
  shows "\<exists>r0. rf_known r0 = [] \<and> rf_refresh r0 = rf_refresh r \<and>
    fst (refresher_loop reserve build False retry r (t # turns)) =
    retry # fst (refresher_loop reserve build False (min (retry * 2) (rf_refresh r)) r0 turns)"
proof -
  obtain drain res where t: "t = Turn drain res" "res = Found [] \<or> (\<exists>e. res = Lookup_Failed e) \<or> res = Lookup_Timed_Out"
    using assms(1) by (auto simp: failing_def split: turn.splits lookup_result.splits)
  let ?r0 = "r\<lparr>rf_tx := (rf_tx r)\<lparr>ch_queue := drain (ch_queue (rf_tx r))\<rparr>\<rparr>"
  have "fst (refresher_loop reserve build False retry r (t # turns)) =
      retry # fst (refresher_loop reserve build False (min (retry * 2) (rf_refresh r)) ?r0 turns)"
    using t assms(2) apply_empty [of ?r0 reserve build]
    by (auto simp: next_delay_def split_beta Let_def)
  with assms(2) show ?thesis by (intro exI [of _ ?r0]) simp
qed

lemma min_double: "min (min a c * 2) c = min (a * 2) (c :: nat)"
  by (simp add: min_def)

lemma loop_failing_delays:
  "list_all failing turns \<Longrightarrow> rf_known r = [] \<Longrightarrow>
     fst (refresher_loop reserve build False (min (base * 2 ^ k) (rf_refresh r)) r turns) =
     map (\<lambda>i. min (base * 2 ^ (k + i)) (rf_refresh r)) [0..<length turns]"
proof (induction turns arbitrary: r k)
  case Nil
  then show ?case by simp
next
  case (Cons t turns)
  obtain r0 where r0: "rf_known r0 = []" "rf_refresh r0 = rf_refresh r"
    "fst (refresher_loop reserve build False (min (base * 2 ^ k) (rf_refresh r)) r (t # turns)) =
     min (base * 2 ^ k) (rf_refresh r) #
     fst (refresher_loop reserve build False
       (min (min (base * 2 ^ k) (rf_refresh r) * 2) (rf_refresh r)) r0 turns)"
    using loop_failing_turn [of t r reserve build "min (base * 2 ^ k) (rf_refresh r)" turns] Cons.prems
    by auto
  have "fst (refresher_loop reserve build False (min (base * 2 ^ Suc k) (rf_refresh r0)) r0 turns) =
      map (\<lambda>i. min (base * 2 ^ (Suc k + i)) (rf_refresh r0)) [0..<length turns]"
    using Cons.prems r0 by (intro Cons.IH) auto
  then show ?case
    unfolding r0(3) min_double r0(2)
    by (simp add: upt_conv_Cons map_Suc_upt [symmetric] ac_simps del: upt_Suc)
qed

subsection \<open>Properties\<close>

text \<open>C21: A lookup is followed exactly: when the balancer takes every batch and every address builds, one
  \<open>apply\<close> of a non-empty lookup leaves the balancer with the endpoints of exactly the addresses found,
  \<open>pool\<close> of each, and no seed endpoint, whatever it held before.\<close>

theorem lookup_followed:
  assumes "never_refuses reserve" "list_all (\<lambda>a. is_ok (build a)) found" "found \<noteq> []"
    and "addr_set_ok found" "mirrors ks n r"
    and "refresher_apply reserve build found r = (res, r')"
  shows "rf_known r' = found \<and> balanced ks (ch_sent (rf_tx r')) = addr_keys (rf_pool r') (set found)"
proof -
  have "rf_known r' = found" "rf_seed_slots r' = 0"
    using apply_follows_lookup [OF assms(1-5)] assms(6) by simp_all
  then show ?thesis
    using refresher_apply_mirrors [OF assms(5,6)] mirrorsD(2) [of ks n r']
    by (simp add: mirrors_def refresher_keys_def seed_keys_def)
qed

definition demo_refresher :: "(unit, unit) refresher" where
  "demo_refresher = \<lparr>rf_refresh = from_secs 30, rf_pool = 1, rf_seed_slots = 1, rf_known = [],
     rf_tx = \<lparr>ch_queue = (), ch_sent = [Insert (Seed 0) ()]\<rparr>\<rparr>"

lemma demo_refresher_mirrors: "mirrors {} 1 demo_refresher"
  by (simp add: mirrors_def demo_refresher_def refresher_keys_def addr_keys_def seed_keys_def
      addr_set_ok_def never_empty_from_def)

theorem lookup_followed_witness:
  "rf_known (snd (refresher_apply (\<lambda>q k. Ok q) (\<lambda>a. Ok () :: unit + unit) [V4 1 443, V4 2 443] demo_refresher))
     = [V4 1 443, V4 2 443]"
proof -
  have "never_refuses (\<lambda>q k. Ok q :: try_send_error + unit)" "addr_set_ok [V4 1 443, V4 2 443]"
    by (simp_all add: never_refuses_def addr_set_ok_def less_sockaddr_def less_eq_sockaddr_def)
  from lookup_followed [OF this(1) _ _ this(2) demo_refresher_mirrors, of "\<lambda>a. Ok () :: unit + unit"]
  show ?thesis by (metis list.pred_inject(1) list.pred_inject(2) is_ok.simps(2) list.distinct(1) prod.collapse)
qed

text \<open>Until an address is known, failing lookups of a running refresher are spaced by a doubling
  delay that starts at one second and is cut off at the refresh interval: the \<open>i\<close>-th waits
  \<open>min (1 s * 2^i) refresh\<close>, however long the lookups keep failing.\<close>

theorem discovery_retry_delays:
  assumes "rf_known r = []" "list_all failing turns"
  shows "fst (refresher_run reserve build False r turns) =
    map (\<lambda>i. min (from_secs 1 * 2 ^ i) (rf_refresh r)) [0..<length turns]"
  using loop_failing_delays [OF assms(2,1), of reserve build first_retry 0]
  by (simp add: refresher_run_def first_retry_def)

theorem discovery_retry_delays_witness:
  "fst (refresher_run (\<lambda>q k. Ok q) (\<lambda>a. Ok () :: unit + unit) False
     (demo_refresher\<lparr>rf_refresh := from_secs 3\<rparr>)
     (replicate 3 (Turn id (Lookup_Timed_Out :: unit lookup_result)))) =
   [from_secs 1, from_secs 2, from_secs 3]"
  using discovery_retry_delays [of "demo_refresher\<lparr>rf_refresh := from_secs 3\<rparr>"
      "replicate 3 (Turn id (Lookup_Timed_Out :: unit lookup_result))" "\<lambda>q k. Ok q"
      "\<lambda>a. Ok () :: unit + unit"]
  by (simp add: demo_refresher_def failing_def from_secs_def upt_rec numeral_3_eq_3)

end
