(* ===== verification/PcGrpc.thy ===== *)
theory PcGrpc
  imports PcDiscovery
begin

section \<open>pc-grpc: configuration, targets, deadlines, connection establishment\<close>

text \<open>
  \<open>crates/pc-grpc/src/lib.rs\<close>. The environment is an argument. Code of other crates is a
  parameter: the validity of a URI and of a TLS configuration (\<open>tonic\<close>), one connection
  attempt, the resolver, and the parsing of an \<open>f64\<close>. What the code would do to the outside
  (sleep, connect, feed the balancer) is in the result. \<open>tracing\<close> lines are left out.
\<close>

subsection \<open>Text of a socket address\<close>

definition octet :: "nat \<Rightarrow> nat \<Rightarrow> nat" where
  "octet ip i = ip div 256 ^ i mod 256"

definition show_ipv4 :: "nat \<Rightarrow> string" where
  "show_ipv4 ip = join ''.'' (map (\<lambda>i. show_nat (octet ip i)) [3, 2, 1, 0])"

definition hex_char :: "nat \<Rightarrow> char" where
  "hex_char d = (if d < 10 then char_of (48 + d) else char_of (87 + d))"

fun show_hex :: "nat \<Rightarrow> string" where
  "show_hex n = (if n < 16 then [hex_char n] else show_hex (n div 16) @ [hex_char (n mod 16)])"

declare show_hex.simps [simp del]

definition ipv6_segments :: "nat \<Rightarrow> nat list" where
  "ipv6_segments ip = map (\<lambda>i. ip div 65536 ^ i mod 65536) [7, 6, 5, 4, 3, 2, 1, 0]"

text \<open>Start and length of the first longest run of zero segments.\<close>

fun zero_run :: "nat \<Rightarrow> nat \<times> nat \<Rightarrow> nat \<times> nat \<Rightarrow> nat list \<Rightarrow> nat \<times> nat" where
  "zero_run i current longest [] = longest"
| "zero_run i (cs, cl) (ls, ll) (seg # segs) =
     (if seg = 0 then
        let cs' = (if cl = 0 then i else cs); cl' = cl + 1 in
        zero_run (i + 1) (cs', cl') (if cl' > ll then (cs', cl') else (ls, ll)) segs
      else zero_run (i + 1) (0, 0) (ls, ll) segs)"

definition show_ipv6 :: "nat \<Rightarrow> string" where
  "show_ipv6 ip =
     (if ip div 2 ^ 32 = 65535 then ''::ffff:'' @ show_ipv4 (ip mod 2 ^ 32)
      else
        let segs = ipv6_segments ip; (start, len) = zero_run 0 (0, 0) (0, 0) segs in
        if len > 1 then
          join '':'' (map show_hex (take start segs)) @ ''::'' @
          join '':'' (map show_hex (drop (start + len) segs))
        else join '':'' (map show_hex segs))"

fun show_addr :: "sockaddr \<Rightarrow> string" where
  "show_addr (V4 ip port) = show_ipv4 (unat ip) @ '':'' @ show_nat (unat port)"
| "show_addr (V6 ip port flow scope) =
     ''['' @ show_ipv6 (unat ip) @
     (if scope = 0 then '''' else ''%'' @ show_nat (unat scope)) @ '']:'' @ show_nat (unat port)"

subsection \<open>Environment helpers\<close>

definition env_parsed :: "(string \<Rightarrow> 'a option) \<Rightarrow> environment \<Rightarrow> string \<Rightarrow> 'a \<Rightarrow> 'a" where
  "env_parsed parse env key dflt =
     (case env key of
        Some v \<Rightarrow> if trim v \<noteq> [] then unwrap_or (parse (trim v)) dflt else dflt
      | None \<Rightarrow> dflt)"

definition env_string :: "environment \<Rightarrow> string \<Rightarrow> string \<Rightarrow> string" where
  "env_string env key dflt =
     (case env key of Some v \<Rightarrow> if v \<noteq> [] then v else dflt | None \<Rightarrow> dflt)"

definition env_bool :: "environment \<Rightarrow> string \<Rightarrow> bool \<Rightarrow> bool" where
  "env_bool env key dflt =
     (case env key of Some v \<Rightarrow> unwrap_or (parse_bool_go (trim v)) dflt | None \<Rightarrow> dflt)"

subsection \<open>Configuration\<close>

datatype tls_mode = Insecure | Tls

record 'f grpc_config =
  gc_transaction_max_pool :: nat
  gc_merchant_max_pool :: nat
  gc_config_max_pool :: nat
  gc_healthcheck_interval_secs :: nat
  gc_healthcheck_enabled :: bool
  gc_grpc_port :: string
  gc_tls_mode :: tls_mode
  gc_client_ca_file :: "string option"
  gc_keep_alive_time :: duration
  gc_keep_alive_timeout :: duration
  gc_permit_without_stream :: bool
  gc_max_retries :: nat
  gc_initial_backoff :: duration
  gc_max_backoff :: duration
  gc_backoff_multiplier :: 'f
  gc_max_idle :: duration
  gc_max_life :: duration

definition default_max_pool :: nat where
  "default_max_pool = 2"

definition default_healthcheck_interval_secs :: nat where
  "default_healthcheck_interval_secs = 120"

definition default_healthcheck_enabled :: bool where
  "default_healthcheck_enabled = True"

definition default_max_idle_minutes :: nat where
  "default_max_idle_minutes = 30"

definition default_max_life_hours :: nat where
  "default_max_life_hours = 24"

definition discovery_buffer :: nat where
  "discovery_buffer = 1024"

definition deadline_margin :: duration where
  "deadline_margin = from_millis 50"

abbreviation parse_u64 :: "string \<Rightarrow> nat option" where
  "parse_u64 \<equiv> parse_uint u64_max"

abbreviation parse_u32 :: "string \<Rightarrow> nat option" where
  "parse_u32 \<equiv> parse_uint u32_max"

text \<open>\<open>u64\<close> multiplication in a release build.\<close>

definition wrap_mul_u64 :: "nat \<Rightarrow> nat \<Rightarrow> nat" where
  "wrap_mul_u64 a b = a * b mod 2 ^ 64"

definition grpc_parse_env ::
  "(string \<Rightarrow> 'f option) \<Rightarrow> 'f \<Rightarrow> environment \<Rightarrow> 'f grpc_config" where
  "grpc_parse_env parse_f64 default_multiplier env =
     \<lparr>gc_transaction_max_pool = env_parsed parse_u64 env ''GRPC_TRANSACTION_MAX_POOL'' default_max_pool,
      gc_merchant_max_pool = env_parsed parse_u64 env ''GRPC_MERCHANT_MAX_POOL'' default_max_pool,
      gc_config_max_pool = env_parsed parse_u64 env ''GRPC_CONFIG_MAX_POOL'' default_max_pool,
      gc_healthcheck_interval_secs =
        env_parsed parse_u64 env ''GRPC_HEALTHCHECK_INTERVAL'' default_healthcheck_interval_secs,
      gc_healthcheck_enabled = env_bool env ''GRPC_HEALTHCHECK'' default_healthcheck_enabled,
      gc_grpc_port = env_string env ''GRPC_PORT'' ''9333'',
      gc_tls_mode = (if env_string env ''GRPC_TLS_MODE'' '''' = ''tls'' then Tls else Insecure),
      gc_client_ca_file =
        (let s = env_string env ''GRPC_CLIENT_CA_FILE'' '''' in if s = [] then None else Some s),
      gc_keep_alive_time = from_secs (env_parsed parse_u64 env ''GRPC_KEEP_ALIVE_TIME'' 30),
      gc_keep_alive_timeout = from_secs (env_parsed parse_u64 env ''GRPC_KEEP_ALIVE_TIMEOUT'' 10),
      gc_permit_without_stream = env_bool env ''GRPC_PERMIT_WITHOUT_STREAM'' True,
      gc_max_retries = env_parsed parse_u32 env ''GRPC_MAX_RETRIES'' 3,
      gc_initial_backoff = from_millis (env_parsed parse_u64 env ''GRPC_INITIAL_BACKOFF'' 100),
      gc_max_backoff = from_secs (env_parsed parse_u64 env ''GRPC_MAX_BACKOFF'' 30),
      gc_backoff_multiplier =
        env_parsed parse_f64 env ''GRPC_BACKOFF_MULTIPLIER'' default_multiplier,
      gc_max_idle =
        from_secs (wrap_mul_u64 (env_parsed parse_u64 env ''GRPC_MAX_IDLE'' default_max_idle_minutes) 60),
      gc_max_life =
        from_secs (wrap_mul_u64 (env_parsed parse_u64 env ''GRPC_MAX_LIFE'' default_max_life_hours) 3600)\<rparr>"

text \<open>The settings the constructor warns about: parsed, not used, and not at their default. The texts
  of an \<open>f64\<close> and of a \<open>Duration\<close> under \<open>{:?}\<close> are parameters.\<close>

definition inert_settings ::
  "('f \<Rightarrow> string) \<Rightarrow> (duration \<Rightarrow> string) \<Rightarrow> 'f \<Rightarrow> 'f grpc_config \<Rightarrow> string list" where
  "inert_settings show_f64 show_duration default_multiplier c =
     (if gc_healthcheck_interval_secs c \<noteq> default_healthcheck_interval_secs
      then [''GRPC_HEALTHCHECK_INTERVAL='' @ show_nat (gc_healthcheck_interval_secs c)] else []) @
     (if gc_healthcheck_enabled c \<noteq> default_healthcheck_enabled
      then [''GRPC_HEALTHCHECK='' @ (if gc_healthcheck_enabled c then ''true'' else ''false'')] else []) @
     (if gc_backoff_multiplier c \<noteq> default_multiplier
      then [''GRPC_BACKOFF_MULTIPLIER='' @ show_f64 (gc_backoff_multiplier c)] else []) @
     (if gc_max_idle c \<noteq> from_secs (default_max_idle_minutes * 60)
      then [''GRPC_MAX_IDLE='' @ show_duration (gc_max_idle c)] else []) @
     (if gc_max_life c \<noteq> from_secs (default_max_life_hours * 3600)
      then [''GRPC_MAX_LIFE='' @ show_duration (gc_max_life c)] else [])"

text \<open>The \<open>settings\<close> of the warning, if there is one.\<close>

definition warn_inert_settings ::
  "('f \<Rightarrow> string) \<Rightarrow> (duration \<Rightarrow> string) \<Rightarrow> 'f \<Rightarrow> 'f grpc_config \<Rightarrow> string option" where
  "warn_inert_settings show_f64 show_duration default_multiplier c =
     (let inert = inert_settings show_f64 show_duration default_multiplier c
      in if inert \<noteq> [] then Some (join '' '' inert) else None)"

definition grpc_from_env ::
  "(string \<Rightarrow> 'f option) \<Rightarrow> ('f \<Rightarrow> string) \<Rightarrow> (duration \<Rightarrow> string) \<Rightarrow> 'f \<Rightarrow> environment
     \<Rightarrow> 'f grpc_config \<times> string option" where
  "grpc_from_env parse_f64 show_f64 show_duration default_multiplier env =
     (let config = grpc_parse_env parse_f64 default_multiplier env
      in (config, warn_inert_settings show_f64 show_duration default_multiplier config))"

definition parse_dns_refresh :: "string option \<Rightarrow> duration" where
  "parse_dns_refresh raw =
     (case raw of
        None \<Rightarrow> 0
      | Some v \<Rightarrow>
          if trim v = [] then 0
          else (case parse_u64 (trim v) of Some secs \<Rightarrow> from_secs secs | None \<Rightarrow> 0))"

subsection \<open>The factory\<close>

record 'f grpc_factory =
  gf_config :: "'f grpc_config"
  gf_dns_refresh :: duration

text \<open>The factory and the warning of its configuration.\<close>

definition factory_from_env ::
  "(string \<Rightarrow> 'f option) \<Rightarrow> ('f \<Rightarrow> string) \<Rightarrow> (duration \<Rightarrow> string) \<Rightarrow> 'f \<Rightarrow> environment
     \<Rightarrow> 'f grpc_factory \<times> string option" where
  "factory_from_env parse_f64 show_f64 show_duration default_multiplier env =
     (let (config, warning) = grpc_from_env parse_f64 show_f64 show_duration default_multiplier env
      in (\<lparr>gf_config = config, gf_dns_refresh = parse_dns_refresh (env ''GRPC_DNS_REFRESH_SEC'')\<rparr>, warning))"

definition with_dns_refresh :: "'f grpc_factory \<Rightarrow> duration option \<Rightarrow> 'f grpc_factory" where
  "with_dns_refresh f refresh = f\<lparr>gf_dns_refresh := unwrap_or refresh 0\<rparr>"

definition discovery_refresh :: "'f grpc_factory \<Rightarrow> duration option" where
  "discovery_refresh f = (if gf_dns_refresh f \<noteq> 0 then Some (gf_dns_refresh f) else None)"

definition pool_size_for :: "'f grpc_factory \<Rightarrow> string \<Rightarrow> nat" where
  "pool_size_for f target_env =
     (let size =
        (if target_env = ''TRANSACTION_GRPC'' then gc_transaction_max_pool (gf_config f)
         else if target_env = ''MERCHANT_GRPC'' then gc_merchant_max_pool (gf_config f)
         else if target_env = ''CONFIG_GRPC'' then gc_config_max_pool (gf_config f)
         else default_max_pool)
      in max size 1)"

definition backoff_curve :: "duration \<Rightarrow> duration \<Rightarrow> nat \<Rightarrow> duration" where
  "backoff_curve initial max_d attempt =
     min (sat_mul_duration initial (sat_mul_u32 attempt attempt)) max_d"

definition backoff_for :: "'f grpc_factory \<Rightarrow> nat \<Rightarrow> duration" where
  "backoff_for f attempt =
     backoff_curve (gc_initial_backoff (gf_config f)) (gc_max_backoff (gf_config f)) attempt"

subsection \<open>Targets\<close>

datatype 'x grpc_error =
  Missing_Port string
| Empty_Host string
| Invalid_Port string string
| Target_Not_Set string
| Target_Not_Host_Port string string "'x grpc_error"
| Zero_Refresh
| Pool_Exceeds_Buffer nat
| Addresses_Exceed_Buffer nat nat
| No_Addresses string
| Resolved_Empty string
| Resolve_Failed string 'x
| Resolution_Exhausted "'x grpc_error"
| Invalid_Endpoint string 'x
| Ca_File_Unreadable string 'x
| Tls_Config_Rejected 'x
| Invalid_Origin string 'x
| Prewarm_Failed 'x
| Prewarm_Not_Tried
| Prewarm_Exhausted "'x grpc_error"
| Balancer_Rejected

definition dial_target :: "string \<Rightarrow> nat \<Rightarrow> string" where
  "dial_target name port = name @ '':'' @ show_nat port"

definition parse_host_port :: "string \<Rightarrow> 'x grpc_error + (string \<times> nat)" where
  "parse_host_port endpoint =
     (case rsplit_once '':'' endpoint of
        None \<Rightarrow> Err (Missing_Port endpoint)
      | Some (host, port) \<Rightarrow>
          if host = [] then Err (Empty_Host endpoint)
          else (case parse_uint u16_max port of
                  None \<Rightarrow> Err (Invalid_Port port endpoint)
                | Some p \<Rightarrow> Ok (host, p)))"

definition resolve_target ::
  "'f grpc_factory \<Rightarrow> environment \<Rightarrow> string \<Rightarrow> 'x grpc_error + (string \<times> nat)" where
  "resolve_target f env target_env =
     (case env target_env of
        None \<Rightarrow> Err (Target_Not_Set target_env)
      | Some raw \<Rightarrow>
          (case parse_host_port raw of
             Inl e \<Rightarrow> Err (Target_Not_Host_Port target_env raw e)
           | Inr (host, port) \<Rightarrow> Ok (dial_target host port, pool_size_for f target_env)))"

lemma parse_dial_target:
  "host \<noteq> [] \<Longrightarrow> port \<le> u16_max \<Longrightarrow> parse_host_port (dial_target host port) = Ok (host, port)"
  using rsplit_once_char_hit [of "CHR '':''" "show_nat port" host]
    digits_without [OF show_nat_digits, of "CHR '':''"]
  by (simp add: parse_host_port_def dial_target_def is_digit_def)

lemma parse_host_port_Ok:
  "parse_host_port s = Ok (host, port) \<Longrightarrow> host \<noteq> [] \<and> port \<le> u16_max"
  by (auto simp: parse_host_port_def dest: parse_uint_bound split: option.splits if_splits)

subsection \<open>Deadlines\<close>

definition child_budget :: "duration \<Rightarrow> duration" where
  "child_budget wall = (if deadline_margin \<le> wall then wall - deadline_margin else 0)"

text \<open>\<open>with_deadline\<close> stores the child budget as the request's timeout.\<close>

record 'a grpc_request =
  gr_message :: 'a
  gr_timeout :: "duration option"

definition with_deadline :: "'a grpc_request \<Rightarrow> duration \<Rightarrow> 'a grpc_request" where
  "with_deadline req budget = req\<lparr>gr_timeout := Some (child_budget budget)\<rparr>"

subsection \<open>Endpoints\<close>

record tls_spec =
  tl_domain :: "string option"
  tl_ca :: "bytes option"

record endpoint_spec =
  ep_uri :: string
  ep_keep_alive_timeout :: duration
  ep_keep_alive_while_idle :: bool
  ep_keep_alive_interval :: duration
  ep_connect_timeout :: duration
  ep_tls :: "tls_spec option"
  ep_origin :: "string option"

text \<open>The checks of \<open>tonic\<close>, the file system and the system's resolver: \<open>check_uri\<close> and \<open>check_tls\<close>
  give the reason of a refusal; the last argument of a connection attempt and of a lookup is its
  number.\<close>

record 'x grpc_world =
  gw_check_uri :: "string \<Rightarrow> 'x option"
  gw_check_tls :: "tls_spec \<Rightarrow> 'x option"
  gw_read_file :: "string \<Rightarrow> 'x + bytes"
  gw_connect :: "endpoint_spec \<Rightarrow> nat \<Rightarrow> 'x option"
  gw_lookup_host :: "string \<times> nat \<Rightarrow> nat \<Rightarrow> 'x + sockaddr list"

definition scheme :: "'f grpc_factory \<Rightarrow> string" where
  "scheme f = (case gc_tls_mode (gf_config f) of Tls \<Rightarrow> ''https'' | Insecure \<Rightarrow> ''http'')"

definition tls_for ::
  "'x grpc_world \<Rightarrow> 'f grpc_config \<Rightarrow> string option \<Rightarrow> 'x grpc_error + tls_spec option" where
  "tls_for w c tls_domain =
     (case gc_tls_mode c of
        Insecure \<Rightarrow> Ok None
      | Tls \<Rightarrow>
          and_then
            (case gc_client_ca_file c of
               None \<Rightarrow> Ok \<lparr>tl_domain = tls_domain, tl_ca = None\<rparr>
             | Some ca \<Rightarrow>
                 (case gw_read_file w ca of
                    Inl e \<Rightarrow> Err (Ca_File_Unreadable ca e)
                  | Inr pem \<Rightarrow> Ok \<lparr>tl_domain = tls_domain, tl_ca = Some pem\<rparr>))
            (\<lambda>tls. case gw_check_tls w tls of
                      Some e \<Rightarrow> Err (Tls_Config_Rejected e)
                    | None \<Rightarrow> Ok (Some tls)))"

definition build_endpoint ::
  "'x grpc_world \<Rightarrow> 'f grpc_factory \<Rightarrow> string \<Rightarrow> string option \<Rightarrow> 'x grpc_error + endpoint_spec" where
  "build_endpoint w f target tls_domain =
     (let c = gf_config f; uri = scheme f @ ''://'' @ target in
      case gw_check_uri w uri of
        Some e \<Rightarrow> Err (Invalid_Endpoint uri e)
      | None \<Rightarrow>
          and_then (tls_for w c tls_domain) (\<lambda>tls.
            Ok \<lparr>ep_uri = uri, ep_keep_alive_timeout = gc_keep_alive_timeout c,
                ep_keep_alive_while_idle = gc_permit_without_stream c,
                ep_keep_alive_interval = gc_keep_alive_time c,
                ep_connect_timeout = from_secs 5, ep_tls = tls, ep_origin = None\<rparr>))"

definition discovery_builder ::
  "'x grpc_world \<Rightarrow> 'f grpc_factory \<Rightarrow> string \<Rightarrow> nat \<Rightarrow> sockaddr \<Rightarrow> 'x grpc_error + endpoint_spec" where
  "discovery_builder w f host port addr =
     (let origin = scheme f @ ''://'' @ host @ '':'' @ show_nat port in
      case gw_check_uri w origin of
        Some e \<Rightarrow> Err (Invalid_Origin (host @ '':'' @ show_nat port) e)
      | None \<Rightarrow>
          and_then (build_endpoint w f (show_addr addr) (Some host)) (\<lambda>ep.
            Ok (ep\<lparr>ep_origin := Some origin\<rparr>)))"

subsection \<open>Establishment with retries\<close>

text \<open>\<open>retry_loop attempts op backoff k\<close>: attempts \<open>k\<close> to \<open>attempts\<close>; the result carries what was
  done, attempt by attempt and sleep by sleep. An attempt gives its error or its value.\<close>

datatype retry_event = Tried nat | Slept duration

function retry_loop ::
  "nat \<Rightarrow> (nat \<Rightarrow> 'e + 'a) \<Rightarrow> (nat \<Rightarrow> duration) \<Rightarrow> nat \<Rightarrow> 'e \<Rightarrow> ('e + 'a) \<times> retry_event list" where
  "retry_loop attempts op backoff k last_err =
     (if attempts < k then (Err last_err, [])
      else
        (case op k of
           Inr v \<Rightarrow> (Ok v, [Tried k])
         | Inl e \<Rightarrow>
             (let (r, ds) = retry_loop attempts op backoff (k + 1) e
              in (r, Tried k # (if k < attempts then [Slept (backoff k)] else []) @ ds))))"
  by pat_completeness auto
termination by (relation "measure (\<lambda>(n, _, _, k, _). Suc n - k)") auto

declare retry_loop.simps [simp del]

text \<open>A \<open>Resolver\<close>, and the one the public functions use.\<close>

type_synonym 'x resolver = "string \<Rightarrow> nat \<Rightarrow> nat \<Rightarrow> 'x + addr_set"

definition system_resolver :: "'x grpc_world \<Rightarrow> 'x resolver" where
  "system_resolver w host port k = system_lookup (\<lambda>target. gw_lookup_host w target k) host port"

definition initial_lookup ::
  "'x resolver \<Rightarrow> 'f grpc_factory \<Rightarrow> string \<Rightarrow> nat \<Rightarrow> ('x grpc_error + addr_set) \<times> retry_event list" where
  "initial_lookup resolver f host port =
     (let attempts = max (gc_max_retries (gf_config f)) 1;
          op = (\<lambda>k. case resolver host port k of
                       Inr addrs \<Rightarrow> if addrs \<noteq> [] then Ok addrs else Err (Resolved_Empty host)
                     | Inl e \<Rightarrow> Err (Resolve_Failed host e));
          (r, ds) = retry_loop attempts op (backoff_for f) 1 (No_Addresses host)
      in (case r of Inl e \<Rightarrow> Err (Resolution_Exhausted e) | Inr a \<Rightarrow> Ok a, ds))"

definition prewarm ::
  "'x grpc_world \<Rightarrow> 'f grpc_factory \<Rightarrow> endpoint_spec \<Rightarrow> ('x grpc_error + unit) \<times> retry_event list" where
  "prewarm w f ep =
     (let attempts = max (gc_max_retries (gf_config f)) 1;
          op = (\<lambda>k. case gw_connect w ep k of None \<Rightarrow> Ok () | Some e \<Rightarrow> Err (Prewarm_Failed e));
          (r, ds) = retry_loop attempts op (backoff_for f) 1 Prewarm_Not_Tried
      in (case r of Inl e \<Rightarrow> Err (Prewarm_Exhausted e) | Inr u \<Rightarrow> Ok u, ds))"

text \<open>A run that ends with attempt \<open>m\<close>: a sleep after each attempt but the last.\<close>

definition retry_trace :: "(nat \<Rightarrow> duration) \<Rightarrow> nat \<Rightarrow> nat \<Rightarrow> retry_event list" where
  "retry_trace backoff k m = concat (map (\<lambda>j. [Tried j, Slept (backoff j)]) [k..<m]) @ [Tried m]"

lemma retry_loop_trace:
  "k \<le> n \<Longrightarrow> \<exists>m. k \<le> m \<and> m \<le> n \<and> (\<forall>j. k \<le> j \<and> j < m \<longrightarrow> \<not> is_ok (op j)) \<and>
     (is_ok (op m) \<or> m = n) \<and> (is_ok (fst (retry_loop n op b k e)) \<longleftrightarrow> is_ok (op m)) \<and>
     snd (retry_loop n op b k e) = retry_trace b k m"
proof (induction n op b k e rule: retry_loop.induct)
  case (1 n op b k e)
  show ?case
  proof (cases "op k")
    case (Inr v)
    with 1(2) show ?thesis
      by (subst retry_loop.simps, subst retry_loop.simps)
        (auto intro!: exI [of _ k] simp: retry_trace_def)
  next
    case (Inl e')
    show ?thesis
    proof (cases "k = n")
      case True
      with Inl have "retry_loop n op b k e = (Err e', [Tried k])"
        by (subst retry_loop.simps, subst retry_loop.simps) simp
      with True Inl show ?thesis by (intro exI [of _ k]) (auto simp: retry_trace_def)
    next
      case False
      with 1(2) have "\<not> n < k" "k + 1 \<le> n" by simp_all
      from 1(1) [OF this(1) Inl this(2)] obtain m where
        m: "k + 1 \<le> m" "m \<le> n" "\<forall>j. k + 1 \<le> j \<and> j < m \<longrightarrow> \<not> is_ok (op j)" "is_ok (op m) \<or> m = n"
          "is_ok (fst (retry_loop n op b (k + 1) e')) \<longleftrightarrow> is_ok (op m)"
          "snd (retry_loop n op b (k + 1) e') = retry_trace b (k + 1) m"
        by blast
      have step: "retry_loop n op b k e = (fst (retry_loop n op b (k + 1) e'),
          Tried k # Slept (b k) # snd (retry_loop n op b (k + 1) e'))"
        using 1(2) False Inl by (subst retry_loop.simps) (simp add: split_beta Let_def)
      have "\<not> is_ok (op j)" if "k \<le> j" "j < m" for j
        using that m(3) Inl by (cases "j = k") auto
      moreover have "[k..<m] = k # [k + 1..<m]" using m(1) by (simp add: upt_conv_Cons)
      ultimately show ?thesis
        using m by (intro exI [of _ m]) (simp add: step retry_trace_def)
    qed
  qed
qed

lemma retry_loop_Ok_iff:
  "(\<exists>v. fst (retry_loop n op b k e) = Ok v) \<longleftrightarrow> (\<exists>j. k \<le> j \<and> j \<le> n \<and> is_ok (op j))"
proof (induction n op b k e rule: retry_loop.induct)
  case (1 n op b k e)
  show ?case
  proof (cases "n < k")
    case True
    then show ?thesis by (subst retry_loop.simps) simp
  next
    case False
    show ?thesis
    proof (cases "op k")
      case (Inr v)
      with False show ?thesis
        by (subst retry_loop.simps) (auto intro: exI [of _ k])
    next
      case (Inl e')
      with 1 False have "(\<exists>v. fst (retry_loop n op b (k + 1) e') = Ok v) \<longleftrightarrow>
          (\<exists>j. k + 1 \<le> j \<and> j \<le> n \<and> is_ok (op j))"
        by blast
      moreover have "(\<exists>j. k \<le> j \<and> j \<le> n \<and> is_ok (op j)) \<longleftrightarrow>
          (\<exists>j. k + 1 \<le> j \<and> j \<le> n \<and> is_ok (op j))"
        using Inl by (metis is_ok.simps(1) le_eq_less_or_eq Suc_eq_plus1 Suc_leI Suc_leD)
      ultimately show ?thesis
        using False Inl by (subst retry_loop.simps) (simp add: split_beta Let_def)
    qed
  qed
qed

subsection \<open>Connecting\<close>

text \<open>
  A channel is either a fixed list of balanced endpoints or a balancer fed by a refresher,
  which the code spawns; for the latter the result holds the refresher's initial state, whose
  \<open>ch_sent\<close> are the changes queued during the set-up, and whether its first lookup is
  immediate. \<open>fresh\<close> is an empty change queue of \<open>DISCOVERY_BUFFER\<close> places.
\<close>

datatype 'q grpc_channel =
  Balance_List "endpoint_spec list"
| Balance_Channel "('q, endpoint_spec) refresher" bool

definition discovery_target ::
  "'f grpc_factory \<Rightarrow> environment \<Rightarrow> string \<Rightarrow> duration \<Rightarrow> 'x grpc_error + (string \<times> nat \<times> nat)" where
  "discovery_target f env target_env refresh =
     (if refresh = 0 then Err Zero_Refresh
      else
        and_then (resolve_target f env target_env) (\<lambda>(target, pool).
          and_then (parse_host_port target) (\<lambda>(host, port).
            if pool > discovery_buffer then Err (Pool_Exceeds_Buffer pool)
            else Ok (host, port, pool))))"

text \<open>The set-up loops: \<open>try_send\<close> one change after the other.\<close>

fun try_send_all ::
  "'q reserve \<Rightarrow> ('q, 'ep) channel \<Rightarrow> 'ep change list \<Rightarrow> 'x grpc_error + ('q, 'ep) channel" where
  "try_send_all reserve tx [] = Ok tx"
| "try_send_all reserve tx (c # cs) =
     (case send_batch reserve tx [c] of
        (Sent_Ok, tx') \<Rightarrow> try_send_all reserve tx' cs
      | (_, tx') \<Rightarrow> Err Balancer_Rejected)"

fun insert_all ::
  "'q reserve \<Rightarrow> (sockaddr \<Rightarrow> 'x grpc_error + 'ep) \<Rightarrow> nat \<Rightarrow> ('q, 'ep) channel \<Rightarrow> addr_set
     \<Rightarrow> 'x grpc_error + ('q, 'ep) channel" where
  "insert_all reserve build pool tx [] = Ok tx"
| "insert_all reserve build pool tx (a # as) =
     and_then (build a) (\<lambda>ep.
       and_then (try_send_all reserve tx (insert_batch pool a ep)) (\<lambda>tx'.
         insert_all reserve build pool tx' as))"

definition connect_discovered_with ::
  "'x grpc_world \<Rightarrow> 'x resolver \<Rightarrow> 'q reserve \<Rightarrow> 'q \<Rightarrow> 'f grpc_factory \<Rightarrow> environment \<Rightarrow> string \<Rightarrow> duration
     \<Rightarrow> 'x grpc_error + 'q grpc_channel" where
  "connect_discovered_with w resolver reserve fresh f env target_env refresh =
     and_then (discovery_target f env target_env refresh) (\<lambda>(host, port, pool).
       and_then (fst (initial_lookup resolver f host port)) (\<lambda>initial.
         let build = discovery_builder w f host port in
         and_then (build (hd initial)) (\<lambda>ep.
           and_then (fst (prewarm w f ep)) (\<lambda>_.
             if length initial * pool > discovery_buffer
             then Err (Addresses_Exceed_Buffer (length initial) pool)
             else
               and_then (insert_all reserve build pool \<lparr>ch_queue = fresh, ch_sent = []\<rparr> initial)
                 (\<lambda>tx. Ok (Balance_Channel
                    \<lparr>rf_refresh = refresh, rf_pool = pool, rf_seed_slots = 0, rf_known = initial,
                     rf_tx = tx\<rparr> False))))))"

definition connect_discovered_lazy_with ::
  "'x grpc_world \<Rightarrow> 'q reserve \<Rightarrow> 'q \<Rightarrow> 'f grpc_factory \<Rightarrow> environment \<Rightarrow> string \<Rightarrow> duration
     \<Rightarrow> 'x grpc_error + 'q grpc_channel" where
  "connect_discovered_lazy_with w reserve fresh f env target_env refresh =
     and_then (discovery_target f env target_env refresh) (\<lambda>(host, port, pool).
       and_then (build_endpoint w f (dial_target host port) None) (\<lambda>seed.
         and_then (try_send_all reserve \<lparr>ch_queue = fresh, ch_sent = []\<rparr>
             (map (\<lambda>slot. Insert (Seed slot) seed) [0..<pool]))
           (\<lambda>tx. Ok (Balance_Channel
              \<lparr>rf_refresh = refresh, rf_pool = pool, rf_seed_slots = pool, rf_known = [],
               rf_tx = tx\<rparr> True))))"

definition connect_discovered ::
  "'x grpc_world \<Rightarrow> 'q reserve \<Rightarrow> 'q \<Rightarrow> 'f grpc_factory \<Rightarrow> environment \<Rightarrow> string \<Rightarrow> duration
     \<Rightarrow> 'x grpc_error + 'q grpc_channel" where
  "connect_discovered w reserve fresh f env target_env refresh =
     connect_discovered_with w (system_resolver w) reserve fresh f env target_env refresh"

text \<open>The lazy set-up only hands its resolver to the refresher, whose lookups are its turns.\<close>

definition connect_discovered_lazy ::
  "'x grpc_world \<Rightarrow> 'q reserve \<Rightarrow> 'q \<Rightarrow> 'f grpc_factory \<Rightarrow> environment \<Rightarrow> string \<Rightarrow> duration
     \<Rightarrow> 'x grpc_error + 'q grpc_channel" where
  "connect_discovered_lazy w reserve fresh f env target_env refresh =
     connect_discovered_lazy_with w reserve fresh f env target_env refresh"

definition grpc_connect ::
  "'x grpc_world \<Rightarrow> 'q reserve \<Rightarrow> 'q \<Rightarrow> 'f grpc_factory \<Rightarrow> environment \<Rightarrow> string
     \<Rightarrow> 'x grpc_error + 'q grpc_channel" where
  "grpc_connect w reserve fresh f env target_env =
     (case discovery_refresh f of
        Some refresh \<Rightarrow> connect_discovered w reserve fresh f env target_env refresh
      | None \<Rightarrow>
          and_then (resolve_target f env target_env) (\<lambda>(target, pool).
            and_then (build_endpoint w f target None) (\<lambda>ep.
              and_then (fst (prewarm w f ep)) (\<lambda>_. Ok (Balance_List (replicate pool ep))))))"

definition grpc_connect_lazy ::
  "'x grpc_world \<Rightarrow> 'q reserve \<Rightarrow> 'q \<Rightarrow> 'f grpc_factory \<Rightarrow> environment \<Rightarrow> string
     \<Rightarrow> 'x grpc_error + 'q grpc_channel" where
  "grpc_connect_lazy w reserve fresh f env target_env =
     (case discovery_refresh f of
        Some refresh \<Rightarrow> connect_discovered_lazy w reserve fresh f env target_env refresh
      | None \<Rightarrow>
          and_then (resolve_target f env target_env) (\<lambda>(target, pool).
            and_then (build_endpoint w f target None) (\<lambda>ep. Ok (Balance_List (replicate pool ep)))))"

subsection \<open>The set-up starts the refresher in step with the balancer\<close>

lemma pool_size_pos: "0 < pool_size_for f t"
  by (simp add: pool_size_for_def Let_def)

lemma resolve_target_Ok:
  "resolve_target f env t = Ok (target, pool) \<Longrightarrow>
     pool = pool_size_for f t \<and>
     (\<exists>host port. target = dial_target host port \<and> host \<noteq> [] \<and> port \<le> u16_max)"
  by (auto simp: resolve_target_def dest: parse_host_port_Ok split: option.splits sum.splits)

lemma discovery_target_pool:
  "discovery_target f env t refresh = Ok (host, port, pool) \<Longrightarrow> 0 < pool \<and> pool \<le> discovery_buffer"
  by (auto simp: discovery_target_def and_then_Ok_iff pool_size_pos dest!: resolve_target_Ok
      split: if_splits)

lemma try_send_all_sent:
  "try_send_all reserve tx cs = Ok tx' \<Longrightarrow> ch_sent tx' = ch_sent tx @ cs"
proof (induction cs arbitrary: tx)
  case (Cons c cs)
  obtain res tx1 where s: "send_batch reserve tx [c] = (res, tx1)"
    by (cases "send_batch reserve tx [c]")
  with Cons show ?case
    using send_batch_result [OF s] by (cases res) auto
qed simp

lemma insert_all_sent:
  "insert_all reserve (build :: sockaddr \<Rightarrow> 'x grpc_error + 'ep) pool tx as = Ok tx' \<Longrightarrow>
     balanced ks (ch_sent tx') = balanced ks (ch_sent tx) \<union> addr_keys pool (set as)"
proof (induction as arbitrary: tx)
  case Nil
  then show ?case by (simp add: addr_keys_def)
next
  case (Cons a as)
  then have "\<exists>ep tx1. try_send_all reserve tx (insert_batch pool a ep) = (Ok tx1 :: 'x grpc_error + _) \<and>
      insert_all reserve build pool tx1 as = Ok tx'"
    by (auto simp: and_then_Ok_iff)
  then obtain ep tx1 where
    ep: "try_send_all reserve tx (insert_batch pool a ep) = (Ok tx1 :: 'x grpc_error + _)"
    "insert_all reserve build pool tx1 as = Ok tx'"
    by blast
  from Cons.IH [OF ep(2)] try_send_all_sent [OF ep(1)]
    key_set_facts(1) [of pool a "set as"] show ?case
    by (auto simp: batch_balanced)
qed

lemma mirrors_start:
  assumes "balanced {} (ch_sent (rf_tx r)) = refresher_keys r" "addr_set_ok (rf_known r)"
    "0 < rf_pool r" "rf_known r \<noteq> [] \<or> 0 < rf_seed_slots r"
  shows "mirrors {} (length (ch_sent (rf_tx r))) r"
proof -
  have "refresher_keys r \<noteq> {}"
    using assms(3,4) key_set_facts(5) [OF assms(3), of "set (rf_known r)"]
    by (auto simp: refresher_keys_def seed_keys_def)
  with assms show ?thesis by (simp add: mirrors_def never_empty_from_def)
qed

lemma retry_loop_Ok_value:
  "fst (retry_loop n op b k e) = Ok v \<Longrightarrow> \<exists>j. k \<le> j \<and> j \<le> n \<and> op j = Ok v"
proof (induction n op b k e rule: retry_loop.induct)
  case (1 n op b k e)
  show ?case
  proof (cases "n < k")
    case True
    with 1(2) show ?thesis by (subst (asm) retry_loop.simps) simp
  next
    case False
    show ?thesis
    proof (cases "op k")
      case (Inl e')
      with 1(2) False have "fst (retry_loop n op b (k + 1) e') = Ok v"
        by (subst (asm) retry_loop.simps) (simp add: split_beta Let_def)
      with 1(1) [OF False Inl] show ?thesis by (metis Suc_eq_plus1 Suc_leD)
    next
      case (Inr v')
      with 1(2) False have "op k = Ok v"
        by (subst (asm) retry_loop.simps) simp
      with False show ?thesis by auto
    qed
  qed
qed

lemma initial_lookup_Ok:
  assumes "fst (initial_lookup resolver f host port) = Ok addrs"
  shows "addrs \<noteq> [] \<and> (\<exists>k. resolver host port k = Ok addrs)"
proof -
  from assms obtain k where "(case resolver host port k of
      Inr addrs \<Rightarrow> if addrs \<noteq> [] then Ok addrs else Err (Resolved_Empty host)
    | Inl e \<Rightarrow> Err (Resolve_Failed host e)) = Ok addrs"
    by (auto simp: initial_lookup_def Let_def split_beta split: sum.splits
        dest!: retry_loop_Ok_value)
  then show ?thesis by (auto split: sum.splits if_splits)
qed

lemma connect_discovered_mirrors:
  assumes "connect_discovered_with (w :: 'x grpc_world) resolver reserve fresh f env t refresh = Ok (Balance_Channel r imm)"
    and sets: "\<And>host port k addrs. resolver host port k = Ok addrs \<Longrightarrow> addr_set_ok addrs"
  shows "mirrors {} (length (ch_sent (rf_tx r))) r \<and> \<not> imm \<and> rf_refresh r = refresh"
proof -
  from assms(1) have imm: "\<not> imm" and "\<exists>host port pool initial tx.
      discovery_target f env t refresh = (Ok (host, port, pool) :: 'x grpc_error + _) \<and>
      fst (initial_lookup resolver f host port) = Ok initial \<and>
      insert_all reserve (discovery_builder w f host port) pool \<lparr>ch_queue = fresh, ch_sent = []\<rparr>
        initial = Ok tx \<and>
      r = \<lparr>rf_refresh = refresh, rf_pool = pool, rf_seed_slots = 0, rf_known = initial, rf_tx = tx\<rparr>"
    by (auto simp: connect_discovered_with_def and_then_Ok_iff Let_def split: if_splits)
  then obtain host port pool initial tx where
    dt: "discovery_target f env t refresh = (Ok (host, port, pool) :: 'x grpc_error + _)" and
    il: "fst (initial_lookup resolver f host port) = Ok initial" and
    ia: "insert_all reserve (discovery_builder w f host port) pool \<lparr>ch_queue = fresh, ch_sent = []\<rparr>
      initial = Ok tx" and
    r: "r = \<lparr>rf_refresh = refresh, rf_pool = pool, rf_seed_slots = 0, rf_known = initial, rf_tx = tx\<rparr>"
    by blast
  from initial_lookup_Ok [OF il] sets have "initial \<noteq> []" "addr_set_ok initial" by auto
  with discovery_target_pool [OF dt] insert_all_sent [OF ia, of "{}"] imm mirrors_start [of r]
  show ?thesis
    by (simp add: r refresher_keys_def seed_keys_def)
qed

text \<open>The answer of the system's resolver is a set.\<close>

lemma system_resolver_set: "system_resolver w host port k = Ok addrs \<Longrightarrow> addr_set_ok addrs"
  using fold_addr_insert [of "[]"] prefer_ipv4_facts(3)
  by (auto simp: system_resolver_def system_lookup_def and_then_Ok_iff addr_set_ok_def [of "[]"])

lemma connect_lazy_mirrors:
  assumes "connect_discovered_lazy_with (w :: 'x grpc_world) reserve fresh f env t refresh = Ok (Balance_Channel r imm)"
  shows "mirrors {} (length (ch_sent (rf_tx r))) r \<and> imm \<and> rf_refresh r = refresh"
proof -
  from assms have imm: imm and "\<exists>host port pool seed tx.
      discovery_target f env t refresh = (Ok (host, port, pool) :: 'x grpc_error + _) \<and>
      try_send_all reserve \<lparr>ch_queue = fresh, ch_sent = []\<rparr>
        (map (\<lambda>slot. Insert (Seed slot) seed) [0..<pool]) = (Ok tx :: 'x grpc_error + _) \<and>
      r = \<lparr>rf_refresh = refresh, rf_pool = pool, rf_seed_slots = pool, rf_known = [], rf_tx = tx\<rparr>"
    by (auto simp: connect_discovered_lazy_with_def and_then_Ok_iff)
  then obtain host port pool seed tx where
    dt: "discovery_target f env t refresh = (Ok (host, port, pool) :: 'x grpc_error + _)" and
    ts: "try_send_all reserve \<lparr>ch_queue = fresh, ch_sent = []\<rparr>
      (map (\<lambda>slot. Insert (Seed slot) seed) [0..<pool]) = (Ok tx :: 'x grpc_error + _)" and
    r: "r = \<lparr>rf_refresh = refresh, rf_pool = pool, rf_seed_slots = pool, rf_known = [], rf_tx = tx\<rparr>"
    by blast
  have "balanced {} (ch_sent tx) = seed_keys pool"
    using try_send_all_sent [OF ts] balanced_inserts [of "{}" seed "map Seed [0..<pool]"]
    unfolding batch_key_sets by (simp add: comp_def)
  with discovery_target_pool [OF dt] imm mirrors_start [of r] show ?thesis
    by (simp add: r refresher_keys_def addr_keys_def addr_set_ok_def)
qed



subsection \<open>Properties\<close>

text \<open>Parsing undoes printing for dial targets: any non-empty host (IPv6 literals with colons
  included) and any port come back from \<open>dial_target\<close> unchanged, and whatever \<open>parse_host_port\<close>
  accepts splits at the last colon into a non-empty host and a port that fits 16 bits.\<close>

theorem dial_target_roundtrip:
  assumes "host \<noteq> []"
  shows "parse_host_port (dial_target host (unat (port :: 16 word))) = (Ok (host, unat port) :: 'x grpc_error + _) \<and>
    (case parse_host_port s of
       Inl (e :: 'x grpc_error) \<Rightarrow> True
     | Inr (h, p) \<Rightarrow> h \<noteq> [] \<and> p < 2 ^ 16 \<and> (\<exists>digits. s = h @ '':'' @ digits \<and> parse_uint u16_max digits = Some p))"
proof -
  have "unat port < 2 ^ LENGTH(16)"
    by (rule unsigned_less)
  then have "unat port \<le> u16_max"
    by (simp add: u16_max_def)
  from parse_dial_target [OF assms this] show ?thesis
    by (auto simp: parse_host_port_def u16_max_def parse_uint_bound
        dest: rsplit_once_Some [unfolded append_Cons append_Nil] parse_uint_bound split: option.splits sum.splits)
qed

theorem dial_target_roundtrip_witness:
  "parse_host_port (dial_target ''::1'' 443) = (Ok (''::1'', 443) :: unit grpc_error + _)"
  using dial_target_roundtrip [where 'x = unit and host = "''::1''" and port = 443 and s = "[]"] by simp

text \<open>Both loops do what a retry loop does.\<close>

lemma retry_loop_runs:
  assumes "1 \<le> n" "\<And>k. is_ok (op k) \<longleftrightarrow> good k"
  shows "(is_ok (fst (retry_loop n op b 1 e)) \<longleftrightarrow> (\<exists>k. 1 \<le> k \<and> k \<le> n \<and> good k)) \<and>
    (\<exists>m. 1 \<le> m \<and> m \<le> n \<and> (\<forall>j. 1 \<le> j \<and> j < m \<longrightarrow> \<not> good j) \<and> (good m \<or> m = n) \<and>
       snd (retry_loop n op b 1 e) = retry_trace b 1 m)"
  using retry_loop_trace [OF assms(1), of op b e] retry_loop_Ok_iff [of n op b 1 e] assms(2)
  by (auto simp: is_ok_iff)

lemma initial_lookup_runs:
  fixes f resolver host port
  defines "n \<equiv> max (gc_max_retries (gf_config f)) 1"
    and "found \<equiv> \<lambda>k. \<exists>addrs. resolver host port k = Ok addrs \<and> addrs \<noteq> []"
  shows "(is_ok (fst (initial_lookup resolver f host port)) \<longleftrightarrow> (\<exists>k. 1 \<le> k \<and> k \<le> n \<and> found k)) \<and>
    (\<exists>m. 1 \<le> m \<and> m \<le> n \<and> (\<forall>j. 1 \<le> j \<and> j < m \<longrightarrow> \<not> found j) \<and> (found m \<or> m = n) \<and>
       snd (initial_lookup resolver f host port) = retry_trace (backoff_for f) 1 m)"
proof -
  define look where "look = (\<lambda>k. case resolver host port k of
      Inr addrs \<Rightarrow> if addrs \<noteq> [] then Ok addrs else Err (Resolved_Empty host)
    | Inl e \<Rightarrow> Err (Resolve_Failed host e))"
  let ?run = "retry_loop n look (backoff_for f) 1 (No_Addresses host)"
  have "is_ok (fst (initial_lookup resolver f host port)) = is_ok (fst ?run)"
    "snd (initial_lookup resolver f host port) = snd ?run"
    by (simp_all add: initial_lookup_def n_def look_def Let_def split_beta is_ok_iff split: sum.split)
  moreover have "is_ok (look k) \<longleftrightarrow> found k" for k
    by (auto simp: look_def found_def split: sum.split)
  ultimately show ?thesis
    using retry_loop_runs [of n look found "backoff_for f" "No_Addresses host"] by (simp add: n_def)
qed

lemma prewarm_runs:
  fixes f w ep
  defines "n \<equiv> max (gc_max_retries (gf_config f)) 1" and "connects \<equiv> \<lambda>k. gw_connect w ep k = None"
  shows "(is_ok (fst (prewarm w f ep)) \<longleftrightarrow> (\<exists>k. 1 \<le> k \<and> k \<le> n \<and> connects k)) \<and>
    (\<exists>m. 1 \<le> m \<and> m \<le> n \<and> (\<forall>j. 1 \<le> j \<and> j < m \<longrightarrow> \<not> connects j) \<and> (connects m \<or> m = n) \<and>
       snd (prewarm w f ep) = retry_trace (backoff_for f) 1 m)"
proof -
  define dial where "dial = (\<lambda>k. case gw_connect w ep k of None \<Rightarrow> Ok () | Some e \<Rightarrow> Err (Prewarm_Failed e))"
  let ?run = "retry_loop n dial (backoff_for f) 1 Prewarm_Not_Tried"
  have "is_ok (fst (prewarm w f ep)) = is_ok (fst ?run)" "snd (prewarm w f ep) = snd ?run"
    by (simp_all add: prewarm_def n_def dial_def Let_def split_beta is_ok_iff split: sum.split)
  moreover have "is_ok (dial k) \<longleftrightarrow> connects k" for k
    by (auto simp: dial_def connects_def split: option.split)
  ultimately show ?thesis
    using retry_loop_runs [of n dial connects "backoff_for f" Prewarm_Not_Tried] by (simp add: n_def)
qed

lemma backoff_for_le: "backoff_for f k \<le> gc_max_backoff (gf_config f)"
  by (simp add: backoff_for_def backoff_curve_def)

text \<open>C31: Establishment retries are bounded and fair.  The initial lookup and the pre-warm dial each
  make the attempts 1, 2, ... up to the first that succeeds, and at most \<open>max(retries, 1)\<close>, so they
  terminate; they sleep between two attempts and at no other time, so fewer times than they try, each
  time the backoff of the attempt before, at most the configured maximum; and they succeed exactly
  when one of the permitted attempts does.\<close>

theorem establishment_retries:
  "let n = max (gc_max_retries (gf_config f)) 1;
       (looked, trace1) = initial_lookup resolver f host port; (dialled, trace2) = prewarm w f ep;
       found = (\<lambda>k. \<exists>addrs. resolver host port k = Ok addrs \<and> addrs \<noteq> []);
       connects = (\<lambda>k. gw_connect w ep k = None)
   in (is_ok looked \<longleftrightarrow> (\<exists>k. 1 \<le> k \<and> k \<le> n \<and> found k)) \<and>
      (is_ok dialled \<longleftrightarrow> (\<exists>k. 1 \<le> k \<and> k \<le> n \<and> connects k)) \<and>
      (\<exists>m. 1 \<le> m \<and> m \<le> n \<and> (\<forall>j. 1 \<le> j \<and> j < m \<longrightarrow> \<not> found j) \<and> (found m \<or> m = n) \<and>
         trace1 = retry_trace (backoff_for f) 1 m) \<and>
      (\<exists>m. 1 \<le> m \<and> m \<le> n \<and> (\<forall>j. 1 \<le> j \<and> j < m \<longrightarrow> \<not> connects j) \<and> (connects m \<or> m = n) \<and>
         trace2 = retry_trace (backoff_for f) 1 m) \<and>
      (\<forall>k. backoff_for f k \<le> gc_max_backoff (gf_config f))"
  using initial_lookup_runs [where resolver = resolver and f = f and host = host and port = port]
    prewarm_runs [where w = w and f = f and ep = ep] backoff_for_le [of f]
  unfolding Let_def split_beta by blast

text \<open>Three permitted attempts, of which the second lookup succeeds and no dial does.\<close>

definition plain_factory :: "unit grpc_factory" where
  "plain_factory = \<lparr>gf_config = grpc_parse_env (\<lambda>s. None) () Map.empty, gf_dns_refresh = from_secs 30\<rparr>"

definition second_time :: "unit resolver" where
  "second_time host port k = (if k = 2 then Ok [V4 1 443] else Err ())"

definition no_dial :: "unit grpc_world" where
  "no_dial = \<lparr>gw_check_uri = (\<lambda>u. None), gw_check_tls = (\<lambda>t. None), gw_read_file = (\<lambda>p. Ok []),
     gw_connect = (\<lambda>e k. Some ()), gw_lookup_host = (\<lambda>target k. Err ())\<rparr>"

theorem establishment_retries_witness:
  "snd (initial_lookup second_time plain_factory ''h'' 443) =
     [Tried 1, Slept (backoff_for plain_factory 1), Tried 2] \<and>
   (\<forall>ep. \<not> is_ok (fst (prewarm no_dial plain_factory ep)))"
proof -
  have n: "max (gc_max_retries (gf_config plain_factory)) 1 = 3"
    by (simp add: plain_factory_def grpc_parse_env_def env_parsed_def)
  have found: "(\<exists>addrs. second_time ''h'' 443 k = Ok addrs \<and> addrs \<noteq> []) \<longleftrightarrow> k = 2" for k
    by (simp add: second_time_def)
  note result = establishment_retries [where resolver = second_time and f = plain_factory and host = "''h''"
      and port = 443 and w = no_dial, unfolded Let_def split_beta n found]
  from result [THEN conjunct2, THEN conjunct2, THEN conjunct1] obtain m where m: "1 \<le> m" "\<forall>j. 1 \<le> j \<and> j < m \<longrightarrow> j \<noteq> 2" "m = 2 \<or> m = 3"
    and trace: "snd (initial_lookup second_time plain_factory ''h'' 443) = retry_trace (backoff_for plain_factory) 1 m"
    by (elim exE conjE)
  from m(2) [THEN spec, of 2] m(3) have "m = 2" by auto
  with trace have "snd (initial_lookup second_time plain_factory ''h'' 443) =
      [Tried 1, Slept (backoff_for plain_factory 1), Tried 2]"
    by (simp add: retry_trace_def upt_conv_Cons)
  moreover have "\<not> is_ok (fst (prewarm no_dial plain_factory ep))" for ep
    using result [where ep = ep] by (simp add: no_dial_def)
  ultimately show ?thesis by blast
qed

text \<open>A child call gets less than the wall budget it is derived from, by the margin, and never a
  negative one; nesting budgets any number of times reaches zero, not an underflow.\<close>

theorem child_budget_bounds:
  "child_budget wall \<le> wall \<and> (child_budget wall = wall \<longleftrightarrow> wall = 0) \<and>
   child_budget wall = wall - deadline_margin \<and>
   (child_budget ^^ n) wall = wall - n * deadline_margin \<and>
   gr_timeout (with_deadline req wall) = Some (child_budget wall)"
proof -
  have budget: "child_budget v = v - deadline_margin" for v
    by (simp add: child_budget_def)
  have "(child_budget ^^ n) wall = wall - n * deadline_margin"
    by (induction n) (simp_all add: budget)
  then show ?thesis
    by (auto simp: budget with_deadline_def deadline_margin_def from_millis_def)
qed

end
