(* ===== verification/PcSingleflight.thy ===== *)
theory PcSingleflight
  imports PcPrelude "HOL-Library.Multiset"
begin

section \<open>pc-resilience: singleflight\<close>

text \<open>
  \<open>crates/pc-resilience/src/singleflight.rs\<close>. \<open>do_call\<close> is not atomic: it registers or joins
  a flight while it holds the entry of its key, awaits the shared future, and leaves the
  flight in the drop of its guard, again holding the entry. The steps of \<open>sf_step\<close> are these
  two sections and the completion of the shared future, in any interleaving of any number of
  callers. A caller that is cancelled is dropped at its await point (\<open>Abandon\<close>), and one that
  polls a future that panicked unwinds from there (\<open>Unwind\<close>); both drop the guard unfinished.

  A live \<open>FlightGuard\<close> is a pair of its key and its flight's fid; the guards of all callers
  form a multiset. \<open>sf_results\<close> is what the \<open>Shared\<close> futures (the \<open>futures\<close> crate) remember:
  the output of a future that has completed, cloned to every caller that polls it, or that its
  poll panicked, which panics every later poll too. A shared future only makes progress while
  some caller polls it. \<open>sf_returned\<close> records what callers
  returned. \<open>next_id\<close> is a \<open>u64\<close> that grows by one per flight, so it does not wrap in the life
  of a process; it is a \<open>nat\<close> here, and so is the \<open>usize\<close> count of waiters, one per caller.
\<close>

record flight =
  fl_id :: nat
  fl_waiters :: nat

datatype 't outcome = Output (the_output: 't) | Panicked

record ('k, 't) singleflight =
  sf_calls :: "'k \<Rightarrow> flight option"
  sf_next_id :: nat
  sf_guards :: "('k \<times> nat) multiset"
  sf_results :: "nat \<Rightarrow> 't outcome option"
  sf_returned :: "('k \<times> nat \<times> 't) list"

definition singleflight_new :: "('k, 't) singleflight" where
  "singleflight_new =
     \<lparr>sf_calls = (\<lambda>_. None), sf_next_id = 0, sf_guards = {#}, sf_results = (\<lambda>_. None),
      sf_returned = []\<rparr>"

text \<open>The section under the shard lock; the result is the id of the guard.\<close>

definition do_call_enter ::
  "'k \<Rightarrow> ('k, 't) singleflight \<Rightarrow> nat \<times> ('k, 't) singleflight" where
  "do_call_enter key s =
     (case sf_calls s key of
        Some flight \<Rightarrow>
          (fl_id flight,
           s\<lparr>sf_calls := (sf_calls s)(key \<mapsto> flight\<lparr>fl_waiters := fl_waiters flight + 1\<rparr>),
             sf_guards := add_mset (key, fl_id flight) (sf_guards s)\<rparr>)
      | None \<Rightarrow>
          (sf_next_id s,
           s\<lparr>sf_calls := (sf_calls s)(key \<mapsto> \<lparr>fl_id = sf_next_id s, fl_waiters = 1\<rparr>),
             sf_next_id := sf_next_id s + 1,
             sf_guards := add_mset (key, sf_next_id s) (sf_guards s)\<rparr>))"

text \<open>\<open>FlightGuard::drop\<close>: \<open>remove_if_mut\<close> on the entry of the key.\<close>

definition remove_if_finished ::
  "nat \<Rightarrow> bool \<Rightarrow> flight \<Rightarrow> flight option" where
  "remove_if_finished fid finished flight =
     (if fl_id flight \<noteq> fid then Some flight
      else
        let w = fl_waiters flight - 1 in
        if finished \<or> w = 0 then None else Some (flight\<lparr>fl_waiters := w\<rparr>))"

definition guard_drop ::
  "'k \<Rightarrow> nat \<Rightarrow> bool \<Rightarrow> ('k, 't) singleflight \<Rightarrow> ('k, 't) singleflight" where
  "guard_drop key fid finished s =
     s\<lparr>sf_calls := (sf_calls s)(key :=
          (case sf_calls s key of
             None \<Rightarrow> None
           | Some flight \<Rightarrow> remove_if_finished fid finished flight)),
       sf_guards := sf_guards s - {#(key, fid)#}\<rparr>"

definition do_call_return ::
  "'k \<Rightarrow> nat \<Rightarrow> 't \<Rightarrow> ('k, 't) singleflight \<Rightarrow> ('k, 't) singleflight" where
  "do_call_return key fid v s =
     (guard_drop key fid True s)\<lparr>sf_returned := sf_returned s @ [(key, fid, v)]\<rparr>"

definition future_resolve ::
  "nat \<Rightarrow> 't outcome \<Rightarrow> ('k, 't) singleflight \<Rightarrow> ('k, 't) singleflight" where
  "future_resolve fid out s = s\<lparr>sf_results := (sf_results s)(fid \<mapsto> out)\<rparr>"

inductive sf_step :: "('k, 't) singleflight \<Rightarrow> ('k, 't) singleflight \<Rightarrow> bool" where
  Enter: "sf_step s (snd (do_call_enter key s))"
| Resolve: "(key, fid) \<in># sf_guards s \<Longrightarrow> sf_results s fid = None \<Longrightarrow>
    sf_step s (future_resolve fid out s)"
| Return: "(key, fid) \<in># sf_guards s \<Longrightarrow> sf_results s fid = Some (Output v) \<Longrightarrow>
    sf_step s (do_call_return key fid v s)"
| Unwind: "(key, fid) \<in># sf_guards s \<Longrightarrow> sf_results s fid = Some Panicked \<Longrightarrow>
    sf_step s (guard_drop key fid False s)"
| Abandon: "(key, fid) \<in># sf_guards s \<Longrightarrow> sf_step s (guard_drop key fid False s)"

inductive_cases sf_stepE: "sf_step s s'"

definition sf_reachable :: "('k, 't) singleflight \<Rightarrow> bool" where
  "sf_reachable s \<longleftrightarrow> sf_step\<^sup>*\<^sup>* singleflight_new s"

subsection \<open>The invariant\<close>

text \<open>A registered flight is awaited by exactly \<open>waiters\<close> callers, at least one; ids are
  given out once and belong to one key; a flight that still runs is the registered one of its
  key; a flight some caller returned from is not registered; a returned value is the output of
  its flight.\<close>

definition sf_counts :: "('k, 't) singleflight \<Rightarrow> bool" where
  "sf_counts s \<longleftrightarrow> (\<forall>k f. sf_calls s k = Some f \<longrightarrow>
     fl_waiters f = count (sf_guards s) (k, fl_id f) \<and> 0 < fl_waiters f \<and> fl_id f < sf_next_id s)"

definition sf_ids :: "('k, 't) singleflight \<Rightarrow> bool" where
  "sf_ids s \<longleftrightarrow>
     (\<forall>k i. (k, i) \<in># sf_guards s \<longrightarrow> i < sf_next_id s) \<and>
     (\<forall>k k' i. (k, i) \<in># sf_guards s \<longrightarrow> (k', i) \<in># sf_guards s \<longrightarrow> k = k') \<and>
     (\<forall>i. sf_results s i \<noteq> None \<longrightarrow> i < sf_next_id s)"

definition sf_runs :: "('k, 't) singleflight \<Rightarrow> 'k \<Rightarrow> nat \<Rightarrow> bool" where
  "sf_runs s k i \<longleftrightarrow> (k, i) \<in># sf_guards s \<and> sf_results s i = None"

definition sf_running :: "('k, 't) singleflight \<Rightarrow> bool" where
  "sf_running s \<longleftrightarrow> (\<forall>k i. sf_runs s k i \<longrightarrow> (\<exists>f. sf_calls s k = Some f \<and> fl_id f = i))"

definition sf_retired_at :: "('k, 't) singleflight \<Rightarrow> 'k \<Rightarrow> nat \<Rightarrow> 't \<Rightarrow> bool" where
  "sf_retired_at s k i v \<longleftrightarrow>
     i < sf_next_id s \<and> sf_results s i = Some (Output v) \<and>
     (\<forall>k' f. sf_calls s k' = Some f \<longrightarrow> fl_id f \<noteq> i) \<and>
     (\<forall>k'. (k', i) \<in># sf_guards s \<longrightarrow> k' = k)"

definition sf_retired :: "('k, 't) singleflight \<Rightarrow> bool" where
  "sf_retired s \<longleftrightarrow> (\<forall>k i v. (k, i, v) \<in> set (sf_returned s) \<longrightarrow> sf_retired_at s k i v)"

definition sf_inv :: "('k, 't) singleflight \<Rightarrow> bool" where
  "sf_inv s \<longleftrightarrow> sf_counts s \<and> sf_ids s \<and> sf_running s \<and> sf_retired s"

lemma sf_inv_new: "sf_inv singleflight_new"
  by (simp add: sf_inv_def sf_counts_def sf_ids_def sf_running_def sf_runs_def sf_retired_def
      singleflight_new_def)

lemma sf_registered_guard:
  "sf_counts s \<Longrightarrow> sf_calls s k = Some f \<Longrightarrow> (k, fl_id f) \<in># sf_guards s"
  by (metis sf_counts_def count_greater_zero_iff)

lemma sf_countsI:
  "(\<And>k f. sf_calls s k = Some f \<Longrightarrow>
     fl_waiters f = count (sf_guards s) (k, fl_id f) \<and> fl_waiters f \<noteq> 0 \<and>
     fl_id f < sf_next_id s) \<Longrightarrow> sf_counts s"
  unfolding sf_counts_def by (metis gr0I)

lemma sf_countsD:
  assumes "sf_counts s" "sf_calls s k = Some f"
  shows "count (sf_guards s) (k, fl_id f) = fl_waiters f" "fl_waiters f \<noteq> 0"
    "fl_id f < sf_next_id s"
  using assms by (metis sf_counts_def less_numeral_extra(3))+

lemma sf_inv_enter_new:
  assumes "sf_inv s" "sf_calls s key = None"
  shows "sf_inv (snd (do_call_enter key s))"
proof -
  let ?s = "snd (do_call_enter key s)"
  have s: "?s = s\<lparr>sf_calls := (sf_calls s)(key \<mapsto> \<lparr>fl_id = sf_next_id s, fl_waiters = 1\<rparr>),
      sf_next_id := sf_next_id s + 1, sf_guards := add_mset (key, sf_next_id s) (sf_guards s)\<rparr>"
    using assms(2) by (simp add: do_call_enter_def)
  have zero: "count (sf_guards s) (k, sf_next_id s) = 0" for k
    using assms(1) by (auto simp: sf_inv_def sf_ids_def count_eq_zero_iff)
  have "sf_counts ?s"
  proof (rule sf_countsI)
    fix k f
    assume "sf_calls ?s k = Some f"
    with assms zero sf_countsD [of s k f] show "fl_waiters f = count (sf_guards ?s) (k, fl_id f) \<and>
        fl_waiters f \<noteq> 0 \<and> fl_id f < sf_next_id ?s"
      by (auto simp: s sf_inv_def split: if_splits)
  qed
  moreover have "sf_ids ?s"
    using assms(1) unfolding sf_inv_def sf_ids_def s by (auto simp: less_Suc_eq)
  moreover have "sf_running ?s"
    using assms unfolding sf_inv_def sf_running_def sf_runs_def s by fastforce
  moreover have "sf_retired_at ?s k i v" if "sf_retired_at s k i v" for k i v
    using that unfolding sf_retired_at_def s by (auto simp: less_Suc_eq)
  then have "sf_retired ?s"
    using assms(1) unfolding sf_inv_def sf_retired_def by (simp add: s)
  ultimately show ?thesis by (simp add: sf_inv_def)
qed

lemma sf_inv_enter_join:
  assumes inv: "sf_inv s" and flight: "sf_calls s key = Some f"
  shows "sf_inv (snd (do_call_enter key s))"
proof -
  let ?s = "snd (do_call_enter key s)"
  have s: "?s = s\<lparr>sf_calls := (sf_calls s)(key \<mapsto> f\<lparr>fl_waiters := fl_waiters f + 1\<rparr>),
      sf_guards := add_mset (key, fl_id f) (sf_guards s)\<rparr>"
    using flight by (simp add: do_call_enter_def)
  have guard: "(key, fl_id f) \<in># sf_guards s"
    using inv flight by (simp add: sf_inv_def sf_registered_guard)
  have "sf_counts ?s"
  proof (rule sf_countsI)
    fix k g
    assume g: "sf_calls ?s k = Some g"
    have counts: "sf_counts s" using inv by (simp add: sf_inv_def)
    show "fl_waiters g = count (sf_guards ?s) (k, fl_id g) \<and>
        fl_waiters g \<noteq> 0 \<and> fl_id g < sf_next_id ?s"
    proof (cases "k = key")
      case True
      with g have "g = f\<lparr>fl_waiters := fl_waiters f + 1\<rparr>" by (simp add: s)
      with True sf_countsD [OF counts flight] show ?thesis by (simp add: s)
    next
      case False
      with g have "sf_calls s k = Some g" by (simp add: s)
      from False sf_countsD [OF counts this] show ?thesis by (simp add: s)
    qed
  qed
  moreover have "sf_ids ?s"
    using inv guard unfolding sf_inv_def sf_ids_def s by auto
  moreover have "sf_running ?s"
    using inv guard flight unfolding sf_inv_def sf_running_def sf_runs_def s by fastforce
  moreover have "sf_retired_at ?s k i v" if "sf_retired_at s k i v" for k i v
    using that guard flight unfolding sf_retired_at_def s by auto
  then have "sf_retired ?s"
    using inv unfolding sf_inv_def sf_retired_def by (simp add: s)
  ultimately show ?thesis by (simp add: sf_inv_def)
qed

lemma sf_inv_enter: "sf_inv s \<Longrightarrow> sf_inv (snd (do_call_enter key s))"
  by (cases "sf_calls s key") (simp_all add: sf_inv_enter_new sf_inv_enter_join)

lemma sf_inv_resolve:
  assumes "sf_inv s" "(key, fid) \<in># sf_guards s" "sf_results s fid = None"
  shows "sf_inv (future_resolve fid out s)"
proof -
  have "sf_counts (future_resolve fid out s) = sf_counts s"
    by (simp add: sf_counts_def future_resolve_def)
  moreover have "sf_ids (future_resolve fid out s)"
    using assms unfolding sf_inv_def sf_ids_def future_resolve_def by auto
  moreover have "sf_running (future_resolve fid out s)"
    using assms(1) unfolding sf_inv_def sf_running_def sf_runs_def future_resolve_def by auto
  moreover have "sf_retired_at (future_resolve fid out s) k i w" if "sf_retired_at s k i w" for k i w
    using that assms(3) unfolding sf_retired_at_def future_resolve_def by auto
  then have "sf_retired (future_resolve fid out s)"
    using assms(1) unfolding sf_inv_def sf_retired_def by (simp add: future_resolve_def)
  ultimately show ?thesis using assms(1) by (simp add: sf_inv_def)
qed

lemma remove_if_finished_Some:
  "remove_if_finished fid fin f = Some g \<Longrightarrow>
     (fl_id f \<noteq> fid \<and> g = f) \<or>
     (fl_id f = fid \<and> \<not> fin \<and> 1 < fl_waiters f \<and> g = f\<lparr>fl_waiters := fl_waiters f - 1\<rparr>)"
  by (auto simp: remove_if_finished_def Let_def split: if_splits)

lemma guard_drop_calls:
  "sf_calls (guard_drop key fid fin s) k = Some g \<Longrightarrow>
     (\<exists>f. sf_calls s k = Some f \<and> fl_id g = fl_id f \<and>
       (if k = key \<and> fl_id f = fid
        then \<not> fin \<and> 1 < fl_waiters f \<and> fl_waiters g = fl_waiters f - 1 else g = f))"
  by (auto simp: guard_drop_def split: if_splits option.splits dest!: remove_if_finished_Some)

lemma sf_running_drop:
  assumes "sf_inv s" "(key, fid) \<in># sf_guards s" and fin: "fin \<Longrightarrow> sf_results s fid \<noteq> None"
  shows "sf_running (guard_drop key fid fin s)"
  unfolding sf_running_def
proof (intro allI impI)
  fix k i
  assume "sf_runs (guard_drop key fid fin s) k i"
  then have left: "(k, i) \<in># sf_guards s - {#(key, fid)#}" and runs: "sf_results s i = None"
    by (simp_all add: sf_runs_def guard_drop_def)
  from left runs have "sf_runs s k i" by (auto simp: sf_runs_def dest: in_diffD)
  then obtain f where f: "sf_calls s k = Some f" "fl_id f = i"
    using assms(1) by (auto simp: sf_inv_def sf_running_def)
  show "\<exists>g. sf_calls (guard_drop key fid fin s) k = Some g \<and> fl_id g = i"
  proof (cases "k = key \<and> i = fid")
    case True
    have "count (sf_guards s) (key, fid) = fl_waiters f"
      using assms(1) f True sf_countsD(1) [of s k f] by (simp add: sf_inv_def)
    moreover have "0 < count (sf_guards s - {#(key, fid)#}) (key, fid)"
      using left True by (simp only: count_greater_zero_iff)
    ultimately have "1 < fl_waiters f" by simp
    moreover have "\<not> fin" using fin runs True by auto
    ultimately show ?thesis
      using f True by (simp add: guard_drop_def remove_if_finished_def Let_def)
  next
    case False
    then show ?thesis using f by (auto simp: guard_drop_def remove_if_finished_def)
  qed
qed

lemma sf_counts_drop:
  assumes "sf_counts s"
  shows "sf_counts (guard_drop key fid fin s)"
proof (rule sf_countsI)
  fix k g
  assume "sf_calls (guard_drop key fid fin s) k = Some g"
  from guard_drop_calls [OF this]
  obtain f where f: "sf_calls s k = Some f" "fl_id g = fl_id f"
    and cases: "if k = key \<and> fl_id f = fid
      then \<not> fin \<and> 1 < fl_waiters f \<and> fl_waiters g = fl_waiters f - 1 else g = f"
    by (elim exE conjE)
  show "fl_waiters g = count (sf_guards (guard_drop key fid fin s)) (k, fl_id g) \<and>
      fl_waiters g \<noteq> 0 \<and> fl_id g < sf_next_id (guard_drop key fid fin s)"
  proof (cases "k = key \<and> fl_id f = fid")
    case True
    with cases f(2) sf_countsD [OF assms f(1)] show ?thesis by (auto simp: guard_drop_def)
  next
    case False
    then have same: "g = f" using cases by (simp only: if_False)
    have "count (sf_guards s - {#(key, fid)#}) (k, fl_id f) = count (sf_guards s) (k, fl_id f)"
      using False by auto
    with same sf_countsD [OF assms f(1)] show ?thesis by (simp add: guard_drop_def)
  qed
qed

lemma sf_inv_drop:
  assumes "sf_inv s" "(key, fid) \<in># sf_guards s" and fin: "fin \<Longrightarrow> sf_results s fid \<noteq> None"
  shows "sf_inv (guard_drop key fid fin s)"
proof -
  have guards: "sf_guards (guard_drop key fid fin s) = sf_guards s - {#(key, fid)#}"
    and rest: "sf_next_id (guard_drop key fid fin s) = sf_next_id s"
      "sf_results (guard_drop key fid fin s) = sf_results s"
      "sf_returned (guard_drop key fid fin s) = sf_returned s"
    by (simp_all add: guard_drop_def)
  have "sf_counts (guard_drop key fid fin s)"
    using assms(1) by (simp add: sf_inv_def sf_counts_drop)
  moreover have "sf_ids (guard_drop key fid fin s)"
    using assms(1) unfolding sf_inv_def sf_ids_def guards rest
    by (meson in_diffD)
  moreover have "sf_running (guard_drop key fid fin s)"
    using assms by (rule sf_running_drop)
  moreover have "sf_retired_at (guard_drop key fid fin s) k i v" if "sf_retired_at s k i v" for k i v
    using that guard_drop_calls [of key fid fin s] in_diffD [of _ "sf_guards s" "{#(key, fid)#}"]
    unfolding sf_retired_at_def guards rest by fastforce
  then have "sf_retired (guard_drop key fid fin s)"
    using assms(1) unfolding sf_inv_def sf_retired_def by (simp add: rest)
  ultimately show ?thesis by (simp add: sf_inv_def)
qed

lemma drop_finished_unregisters:
  "sf_calls (guard_drop key fid True s) k = Some g \<Longrightarrow> k = key \<Longrightarrow> fl_id g \<noteq> fid"
  using guard_drop_calls [of key fid True s k g] by auto

lemma sf_inv_return:
  assumes "sf_inv s" "(key, fid) \<in># sf_guards s" "sf_results s fid = Some (Output v)"
  shows "sf_inv (do_call_return key fid v s)"
proof -
  let ?d = "guard_drop key fid True s"
  have d: "sf_inv ?d" using assms by (auto intro: sf_inv_drop)
  have same: "\<And>k. (k, fid) \<in># sf_guards s \<Longrightarrow> k = key"
    using assms(1,2) by (auto simp: sf_inv_def sf_ids_def)
  have gone: "\<And>k g. sf_calls ?d k = Some g \<Longrightarrow> fl_id g \<noteq> fid"
  proof
    fix k g
    assume g: "sf_calls ?d k = Some g" "fl_id g = fid"
    from guard_drop_calls [OF g(1)] obtain f where "sf_calls s k = Some f" "fl_id f = fid"
      using g(2) by auto
    then have "k = key"
      using assms(1) same sf_registered_guard [of s k f] by (auto simp: sf_inv_def)
    with drop_finished_unregisters [OF g(1)] g(2) show False by simp
  qed
  have less: "fid < sf_next_id s" using assms(1,2) by (auto simp: sf_inv_def sf_ids_def)
  have left: "\<And>k. (k, fid) \<in># sf_guards ?d \<Longrightarrow> k = key"
    using same by (auto simp: guard_drop_def dest: in_diffD)
  have unchanged: "sf_next_id ?d = sf_next_id s" "sf_results ?d = sf_results s"
    "sf_returned ?d = sf_returned s"
    by (simp_all add: guard_drop_def)
  have "sf_counts (do_call_return key fid v s) = sf_counts ?d"
    "sf_ids (do_call_return key fid v s) = sf_ids ?d"
    "sf_running (do_call_return key fid v s) = sf_running ?d"
    by (simp_all add: sf_counts_def sf_ids_def sf_running_def sf_runs_def do_call_return_def)
  moreover have "sf_retired_at (do_call_return key fid v s) k i w" if "sf_retired_at ?d k i w" for k i w
    using that by (simp add: sf_retired_at_def do_call_return_def)
  moreover have "sf_retired_at (do_call_return key fid v s) key fid v"
    using gone less left unchanged assms(3) by (auto simp: sf_retired_at_def do_call_return_def)
  ultimately have "sf_counts (do_call_return key fid v s) = sf_counts ?d"
    "sf_ids (do_call_return key fid v s) = sf_ids ?d"
    "sf_running (do_call_return key fid v s) = sf_running ?d" "sf_retired (do_call_return key fid v s)"
    using d unchanged unfolding sf_inv_def sf_retired_def by (auto simp: do_call_return_def)
  then show ?thesis using d by (simp add: sf_inv_def)
qed

lemma sf_inv_step: "sf_step s s' \<Longrightarrow> sf_inv s \<Longrightarrow> sf_inv s'"
  by (auto elim!: sf_stepE
      intro: sf_inv_enter sf_inv_resolve sf_inv_return sf_inv_drop)

lemma sf_reachable_inv: "sf_reachable s \<Longrightarrow> sf_inv s"
  unfolding sf_reachable_def
  by (induction rule: rtranclp_induct) (auto intro: sf_inv_new sf_inv_step)

subsection \<open>Consequences\<close>

lemma sf_no_guards_empty:
  assumes "sf_inv s" "sf_guards s = {#}"
  shows "sf_calls s k = None"
proof (rule ccontr)
  assume "sf_calls s k \<noteq> None"
  then obtain f where "sf_calls s k = Some f" by blast
  with assms sf_registered_guard [of s k f] show False by (simp add: sf_inv_def)
qed

lemma enter_joins_or_starts:
  "fst (do_call_enter key s) =
     (case sf_calls s key of Some f \<Rightarrow> fl_id f | None \<Rightarrow> sf_next_id s)"
  by (simp add: do_call_enter_def split: option.splits)

subsection \<open>Awaiting\<close>

text \<open>The steps of callers that nobody cancels; \<open>out\<close> is what each future comes to when it is
  polled. The state is left by one step for every flight that still runs and one for every guard.\<close>

inductive sf_await ::
  "(nat \<Rightarrow> 't outcome) \<Rightarrow> ('k, 't) singleflight \<Rightarrow> ('k, 't) singleflight \<Rightarrow> bool"
  for out :: "nat \<Rightarrow> 't outcome"
where
  Completed: "(key, fid) \<in># sf_guards s \<Longrightarrow> sf_results s fid = None \<Longrightarrow>
    sf_await out s (future_resolve fid (out fid) s)"
| Returned: "(key, fid) \<in># sf_guards s \<Longrightarrow> sf_results s fid = Some (Output v) \<Longrightarrow>
    sf_await out s (do_call_return key fid v s)"
| Unwound: "(key, fid) \<in># sf_guards s \<Longrightarrow> sf_results s fid = Some Panicked \<Longrightarrow>
    sf_await out s (guard_drop key fid False s)"

inductive_cases sf_awaitE: "sf_await out s s'"

definition open_flights :: "('k, 't) singleflight \<Rightarrow> nat set" where
  "open_flights s = {i \<in> snd ` set_mset (sf_guards s). sf_results s i = None}"

definition sf_left :: "('k, 't) singleflight \<Rightarrow> nat" where
  "sf_left s = size (sf_guards s) + card (open_flights s)"

definition settled :: "(nat \<Rightarrow> 't outcome) \<Rightarrow> ('k, 't) singleflight \<Rightarrow> nat \<Rightarrow> 't outcome" where
  "settled out s i = (case sf_results s i of Some r \<Rightarrow> r | None \<Rightarrow> out i)"

text \<open>What the waiting callers are owed.\<close>

definition due ::
  "(nat \<Rightarrow> 't outcome) \<Rightarrow> ('k, 't) singleflight \<Rightarrow> ('k \<times> nat \<times> 't) multiset" where
  "due out s = {#(k, i, the_output (settled out s i)).
     (k, i) \<in># filter_mset (\<lambda>(k, i). settled out s i \<noteq> Panicked) (sf_guards s)#}"

lemma guard_drop_rest [simp]:
  "sf_guards (guard_drop key fid fin s) = sf_guards s - {#(key, fid)#}"
  "sf_results (guard_drop key fid fin s) = sf_results s"
  "sf_returned (guard_drop key fid fin s) = sf_returned s"
  by (simp_all add: guard_drop_def)

lemma do_call_return_rest [simp]:
  "sf_guards (do_call_return key fid v s) = sf_guards s - {#(key, fid)#}"
  "sf_results (do_call_return key fid v s) = sf_results s"
  "sf_returned (do_call_return key fid v s) = sf_returned s @ [(key, fid, v)]"
  by (simp_all add: do_call_return_def)

lemma future_resolve_rest [simp]:
  "sf_guards (future_resolve fid r s) = sf_guards s"
  "sf_results (future_resolve fid r s) = (sf_results s)(fid \<mapsto> r)"
  "sf_returned (future_resolve fid r s) = sf_returned s"
  by (simp_all add: future_resolve_def)

lemma sf_await_step: "sf_await out s s' \<Longrightarrow> sf_step s s'"
  by (auto elim!: sf_awaitE intro: sf_step.intros)

lemma sf_await_enabled: "(\<exists>t. sf_await out s t) \<longleftrightarrow> sf_guards s \<noteq> {#}"
proof
  assume "sf_guards s \<noteq> {#}"
  then obtain k i where guard: "(k, i) \<in># sf_guards s" by (metis multiset_nonemptyE surj_pair)
  show "\<exists>t. sf_await out s t"
  proof (cases "sf_results s i")
    case None
    with guard show ?thesis by (blast intro: Completed)
  next
    case (Some r)
    with guard show ?thesis by (cases r) (blast intro: Returned Unwound)+
  qed
qed (auto elim!: sf_awaitE)

lemma open_flights_finite: "finite (open_flights s)"
  by (simp add: open_flights_def)

lemma sf_left_drop:
  assumes "(key, fid) \<in># sf_guards s" "sf_guards s' = sf_guards s - {#(key, fid)#}"
    "sf_results s' = sf_results s"
  shows "sf_left s' < sf_left s"
proof -
  have "open_flights s' \<subseteq> open_flights s"
    using assms(2,3) by (auto simp: open_flights_def dest: in_diffD)
  then have "card (open_flights s') \<le> card (open_flights s)"
    using open_flights_finite card_mono by blast
  moreover have "size (sf_guards s') < size (sf_guards s)"
    using assms(1,2) by (metis size_Diff1_less)
  ultimately show ?thesis by (simp add: sf_left_def)
qed

lemma sf_left_complete:
  assumes "(key, fid) \<in># sf_guards s" "sf_results s fid = None"
  shows "sf_left (future_resolve fid r s) < sf_left s"
proof -
  have "open_flights (future_resolve fid r s) \<subset> open_flights s"
    using assms by (force simp: open_flights_def split: if_splits)
  then have "card (open_flights (future_resolve fid r s)) < card (open_flights s)"
    by (rule psubset_card_mono [OF open_flights_finite])
  then show ?thesis by (simp add: sf_left_def)
qed

lemma sf_await_left: "sf_await out s s' \<Longrightarrow> sf_left s' < sf_left s"
  by (auto elim!: sf_awaitE intro: sf_left_complete sf_left_drop)

lemma sf_left_bound: "sf_left s \<le> 2 * size (sf_guards s)"
proof -
  have "card (open_flights s) \<le> card (snd ` set_mset (sf_guards s))"
    by (rule card_mono) (auto simp: open_flights_def)
  also have "\<dots> \<le> card (set_mset (sf_guards s))" by (simp add: card_image_le)
  also have "\<dots> \<le> size (sf_guards s)" by (metis count_greater_zero_iff leI mset_set_set_mset_msubset size_mset_mono size_mset_set)
  finally show ?thesis by (simp add: sf_left_def)
qed

lemma sf_await_due:
  assumes "sf_await out s s'"
  shows "mset (sf_returned s') + due out s' = mset (sf_returned s) + due out s"
  using assms
proof (rule sf_awaitE)
  fix key fid
  assume "s' = future_resolve fid (out fid) s" "(key, fid) \<in># sf_guards s" "sf_results s fid = None"
  then have "settled out s' = settled out s" by (auto simp: settled_def)
  with \<open>s' = _\<close> show ?thesis by (simp add: due_def)
next
  fix key fid v
  assume s': "s' = do_call_return key fid v s" and guard: "(key, fid) \<in># sf_guards s"
    and res: "sf_results s fid = Some (Output v)"
  have "settled out s' = settled out s" by (auto simp: settled_def s')
  moreover obtain G where "sf_guards s = add_mset (key, fid) G" using guard by (metis multi_member_split)
  ultimately show ?thesis using res by (simp add: due_def s' settled_def [of out s fid])
next
  fix key fid
  assume s': "s' = guard_drop key fid False s" and guard: "(key, fid) \<in># sf_guards s"
    and res: "sf_results s fid = Some Panicked"
  have "settled out s' = settled out s" by (auto simp: settled_def s')
  moreover obtain G where "sf_guards s = add_mset (key, fid) G" using guard by (metis multi_member_split)
  ultimately show ?thesis using res by (simp add: due_def s' settled_def [of out s fid])
qed

lemma sf_await_run:
  assumes "(sf_await out ^^ n) s s'"
  shows "sf_step\<^sup>*\<^sup>* s s'" "n + sf_left s' \<le> sf_left s"
    "mset (sf_returned s') + due out s' = mset (sf_returned s) + due out s"
  using assms
proof (induction n arbitrary: s')
  case (Suc n)
  {
    case 1
    with Suc show ?case by (auto intro: rtranclp.rtrancl_into_rtrancl sf_await_step)
  next
    case 2
    with Suc show ?case by (fastforce dest: sf_await_left)
  next
    case 3
    with Suc show ?case by (auto dest!: sf_await_due)
  }
qed simp_all

subsection \<open>Properties\<close>

text \<open>C5: In every reachable state the work of a key runs once: while a flight of it has not
  completed, every call of the key joins that flight, so its callers that wait for work to
  complete wait for the same one. A registered flight is awaited by exactly the callers it counts,
  at least one, so an entry cannot outlive its callers; a flight that someone returned from is no
  longer registered, so a later call never joins it; and all callers of one flight return the one
  output of its future.\<close>

theorem singleflight_safe:
  assumes "sf_reachable s"
  shows "(sf_runs s k i \<longrightarrow> fst (do_call_enter k s) = i) \<and>
    (sf_runs s k i \<and> sf_runs s k i' \<longrightarrow> i = i') \<and>
    (sf_calls s k = Some f \<longrightarrow>
      fl_waiters f = count (sf_guards s) (k, fl_id f) \<and> 0 < fl_waiters f) \<and>
    ((k, i, v) \<in> set (sf_returned s) \<longrightarrow>
      sf_results s i = Some (Output v) \<and> fst (do_call_enter k' s) \<noteq> i) \<and>
    ((k, i, v) \<in> set (sf_returned s) \<and> (k', i, v') \<in> set (sf_returned s) \<longrightarrow> v = v') \<and>
    (sf_guards s = {#} \<longrightarrow> sf_calls s k = None)"
proof -
  note inv = sf_reachable_inv [OF assms]
  have waiters: "sf_calls s k = Some f \<longrightarrow>
      fl_waiters f = count (sf_guards s) (k, fl_id f) \<and> 0 < fl_waiters f"
    using inv unfolding sf_inv_def sf_counts_def by blast
  have ret: "sf_retired_at s k i v" if "(k, i, v) \<in> set (sf_returned s)" for k i v
    using inv that by (auto simp: sf_inv_def sf_retired_def)
  have runs: "fst (do_call_enter k s) = i" if "sf_runs s k i" for i
    using inv that by (force simp: sf_inv_def sf_running_def enter_joins_or_starts)
  have joined: "sf_results s i = Some (Output v) \<and> fst (do_call_enter k' s) \<noteq> i" if "(k, i, v) \<in> set (sf_returned s)"
    using ret [OF that] by (auto simp: sf_retired_at_def enter_joins_or_starts split: option.split)
  have "v = v'" if "(k, i, v) \<in> set (sf_returned s)" "(k', i, v') \<in> set (sf_returned s)"
    using ret [OF that(1)] ret [OF that(2)] by (simp add: sf_retired_at_def)
  with runs waiters joined sf_no_guards_empty [OF inv] show ?thesis by blast
qed

text \<open>Two callers of one key; their future completes and both return.\<close>

definition demo_waiting :: "(string, nat) singleflight" where
  "demo_waiting = snd (do_call_enter ''k'' (snd (do_call_enter ''k'' singleflight_new)))"

definition demo_flights :: "(string, nat) singleflight" where
  "demo_flights =
     do_call_return ''k'' 0 7 (do_call_return ''k'' 0 7 (future_resolve 0 (Output 7) demo_waiting))"

lemma demo_waiting_reachable: "sf_reachable demo_waiting"
  unfolding sf_reachable_def demo_waiting_def
  by (meson sf_step.Enter converse_rtranclp_into_rtranclp rtranclp.rtrancl_refl)

lemma demo_waiting_simps:
  "sf_guards demo_waiting = {#(''k'', 0), (''k'', 0)#}" "sf_results demo_waiting = (\<lambda>_. None)"
  "sf_returned demo_waiting = []"
  "sf_calls demo_waiting = [''k'' \<mapsto> \<lparr>fl_id = 0, fl_waiters = 2\<rparr>]"
  by (simp_all add: demo_waiting_def do_call_enter_def singleflight_new_def numeral_2_eq_2)

lemma demo_run: "(sf_await (\<lambda>_. Output 7) ^^ 3) demo_waiting demo_flights"
proof -
  let ?s3 = "future_resolve 0 (Output 7) demo_waiting"
  let ?s4 = "do_call_return ''k'' 0 7 ?s3"
  have "sf_await (\<lambda>_. Output 7) demo_waiting ?s3"
    by (rule Completed [where out = "\<lambda>_. Output 7" and key = "''k''"]) (simp_all add: demo_waiting_simps)
  moreover have "sf_await (\<lambda>_. Output 7) ?s3 ?s4"
    by (rule Returned) (simp_all add: demo_waiting_simps)
  moreover have "sf_await (\<lambda>_. Output 7) ?s4 demo_flights"
    unfolding demo_flights_def by (rule Returned) (simp_all add: demo_waiting_simps)
  ultimately show ?thesis by (auto simp: numeral_3_eq_3)
qed

lemma demo_reachable: "sf_reachable demo_flights"
  using demo_waiting_reachable sf_await_run(1) [OF demo_run] by (auto simp: sf_reachable_def)

lemma demo_no_guards: "sf_guards demo_flights = {#}"
  by (simp add: demo_flights_def demo_waiting_simps)

text \<open>A panicked flight is kept as long as one of its waiters has not been woken, and a call that
  comes in then joins it and panics too.\<close>

lemma panicked_flight_joined:
  "\<exists>s :: (string, nat) singleflight. sf_reachable s \<and> sf_results s 0 = Some Panicked \<and>
     size (sf_guards s) < size (sf_guards demo_waiting) \<and> fst (do_call_enter ''k'' s) = 0"
proof -
  let ?p = "future_resolve 0 Panicked demo_waiting"
  let ?s = "guard_drop ''k'' 0 False ?p"
  have "sf_step demo_waiting ?p"
    by (rule sf_step.Resolve [where key = "''k''"]) (simp_all add: demo_waiting_simps)
  moreover have "sf_step ?p ?s" by (rule sf_step.Unwind) (simp_all add: demo_waiting_simps)
  ultimately have "sf_reachable ?s"
    using demo_waiting_reachable unfolding sf_reachable_def by (meson rtranclp.rtrancl_into_rtrancl)
  moreover have "sf_calls ?s ''k'' = Some \<lparr>fl_id = 0, fl_waiters = 1\<rparr>"
    by (simp add: guard_drop_def future_resolve_def demo_waiting_simps remove_if_finished_def)
  ultimately show ?thesis
    by (intro exI [of _ ?s]) (simp add: enter_joins_or_starts demo_waiting_simps)
qed

theorem singleflight_safe_witness: "sf_calls demo_flights ''k'' = None"
  using singleflight_safe [OF demo_reachable, of "''k''"] demo_no_guards by blast

text \<open>C14: Waiting ends: when nobody is cancelled and every future comes to an output or a panic, no
  caller is left waiting, whatever order they are woken in. Every run of the waiting callers is at
  most twice as long as they are many and only stops when all of them are gone; then no flight is
  registered, and each caller has returned the output of its own flight, or unwound with its panic.\<close>

theorem singleflight_drains:
  assumes "sf_reachable s" "(sf_await out ^^ n) s s'"
  shows "n \<le> 2 * size (sf_guards s) \<and> ((\<exists>t. sf_await out s' t) \<longleftrightarrow> sf_guards s' \<noteq> {#}) \<and>
    (sf_guards s' = {#} \<longrightarrow> sf_calls s' k = None \<and> mset (sf_returned s') = mset (sf_returned s) + due out s)"
proof -
  have "sf_reachable s'"
    using assms(1) sf_await_run(1) [OF assms(2)] by (auto simp: sf_reachable_def)
  note inv = sf_reachable_inv [OF this]
  show ?thesis
    using sf_await_run(2,3) [OF assms(2)] sf_left_bound [of s] sf_await_enabled [of out s']
      sf_no_guards_empty [OF inv]
    by (auto simp: due_def [of out s'])
qed

theorem singleflight_drains_witness:
  "mset (sf_returned demo_flights) = {#(''k'', 0, 7), (''k'', 0, 7)#}"
  using singleflight_drains [OF demo_waiting_reachable demo_run] demo_no_guards
  by (simp add: due_def demo_waiting_simps settled_def)

end
