(* ===== verification/PcSampler.thy ===== *)
theory PcSampler
  imports PcLogGate
begin

section \<open>pc-log: the sampler\<close>

text \<open>
  \<open>crates/pc-log/src/sampler.rs\<close>. An entry counts the lines of a key within a period: the first
  \<open>initial\<close> are printed, then every \<open>thereafter\<close>-th. \<open>Instant::now()\<close> is read before the
  entry is locked, so the time of a check is an input and need not grow. The count is an
  \<open>i64\<close> that grows by one per check and restarts with each period, so it stays below the
  number of checks of a period and cannot overflow in practice; it is an \<open>int\<close> here.
\<close>

record sampler_config =
  sc_initial :: nat
  sc_thereafter :: nat
  sc_period :: duration

definition sampler_config_for_env :: "app_env option \<Rightarrow> sampler_config option" where
  "sampler_config_for_env env =
     (case env of
        Some Production \<Rightarrow> Some \<lparr>sc_initial = 5, sc_thereafter = 50, sc_period = from_secs 1\<rparr>
      | Some Staging \<Rightarrow> Some \<lparr>sc_initial = 10, sc_thereafter = 10, sc_period = from_secs 1\<rparr>
      | Some Develop \<Rightarrow> Some \<lparr>sc_initial = 20, sc_thereafter = 20, sc_period = from_secs 1\<rparr>
      | None \<Rightarrow> None)"

record sampler_entry =
  se_count :: int
  se_reset :: instant

record sampler =
  smp_config :: "sampler_config option"
  smp_entries :: "string \<Rightarrow> sampler_entry option"

definition sampler_new :: "sampler_config option \<Rightarrow> sampler" where
  "sampler_new config = \<lparr>smp_config = config, smp_entries = (\<lambda>_. None)\<rparr>"

text \<open>The part of \<open>check\<close> that runs on the locked entry.\<close>

definition sampler_entry_check ::
  "sampler_config \<Rightarrow> instant \<Rightarrow> sampler_entry \<Rightarrow> verdict \<times> sampler_entry" where
  "sampler_entry_check cfg now entry =
     (if since now (se_reset entry) \<ge> sc_period cfg then
        ((True, 0), entry\<lparr>se_reset := now, se_count := 1\<rparr>)
      else
        let n = se_count entry + 1; entry' = entry\<lparr>se_count := n\<rparr> in
        if n \<le> int (sc_initial cfg) then ((True, 0), entry')
        else if sc_thereafter cfg = 0 then ((False, 0), entry')
        else if (n - int (sc_initial cfg)) mod int (sc_thereafter cfg) = 0
          then ((True, int (sc_thereafter cfg) - 1), entry')
        else ((False, 0), entry'))"

definition sampler_fresh :: "instant \<Rightarrow> sampler_entry option \<Rightarrow> sampler_entry" where
  "sampler_fresh now e = (case e of Some e' \<Rightarrow> e' | None \<Rightarrow> \<lparr>se_count = 0, se_reset = now\<rparr>)"

definition sampler_check :: "sampler \<Rightarrow> instant \<Rightarrow> string \<Rightarrow> verdict \<times> sampler" where
  "sampler_check s now key =
     (case smp_config s of
        None \<Rightarrow> ((True, 0), s)
      | Some cfg \<Rightarrow>
          if sc_initial cfg = 0 then ((True, 0), s)
          else
            let (v, entry) = sampler_entry_check cfg now (sampler_fresh now (smp_entries s key))
            in (v, s\<lparr>smp_entries := (smp_entries s)(key := Some entry)\<rparr>))"

text \<open>The process-global sampler: \<open>initialize_sampler\<close> installs a new one, whatever was
  there; \<open>sample\<close> consults it.\<close>

definition normalize_config :: "sampler_config \<Rightarrow> sampler_config" where
  "normalize_config c =
     (if sc_period c = 0 \<and> sc_initial c > 0 then c\<lparr>sc_period := from_secs 1\<rparr> else c)"

definition initialize_sampler :: "sampler_config option \<Rightarrow> sampler \<Rightarrow> sampler" where
  "initialize_sampler config old = sampler_new (map_option normalize_config config)"

definition sample :: "sampler \<Rightarrow> instant \<Rightarrow> string \<Rightarrow> int option \<times> sampler" where
  "sample s now key = (let (v, s') = sampler_check s now key in (verdict_option v, s'))"

subsection \<open>The sampler is a log gate\<close>

definition sampler_cell ::
  "sampler \<Rightarrow> string \<Rightarrow> sampler_config option \<times> sampler_entry option" where
  "sampler_cell s k = (smp_config s, smp_entries s k)"

definition sampler_cell_step ::
  "sampler_config option \<times> sampler_entry option \<Rightarrow> instant
     \<Rightarrow> verdict \<times> (sampler_config option \<times> sampler_entry option)" where
  "sampler_cell_step c now =
     (case fst c of
        None \<Rightarrow> ((True, 0), c)
      | Some cfg \<Rightarrow>
          if sc_initial cfg = 0 then ((True, 0), c)
          else
            let (v, entry) = sampler_entry_check cfg now (sampler_fresh now (snd c))
            in (v, (fst c, Some entry)))"

lemmas sampler_step_defs =
  sampler_check_def sampler_cell_def sampler_cell_step_def sampler_entry_check_def

interpretation sampler_gate: emit_gate sampler_check sampler_cell sampler_cell_step "\<lambda>_. True"
  by unfold_locales
    (auto simp: sampler_step_defs Let_def split_beta split: option.splits if_splits)

subsection \<open>The pattern of a period\<close>

text \<open>The verdict on the \<open>n\<close>-th line of a period.\<close>

definition sampler_rule :: "sampler_config \<Rightarrow> nat \<Rightarrow> verdict" where
  "sampler_rule cfg n =
     (if n \<le> sc_initial cfg then (True, 0)
      else if sc_thereafter cfg \<noteq> 0 \<and> (n - sc_initial cfg) mod sc_thereafter cfg = 0
        then (True, int (sc_thereafter cfg) - 1)
      else (False, 0))"

lemma sampler_entry_within:
  assumes "since now (se_reset e) < sc_period cfg" and "se_count e = int n"
  shows "sampler_entry_check cfg now e = (sampler_rule cfg (Suc n), e\<lparr>se_count := int (Suc n)\<rparr>)"
proof -
  have "(1 + int n - int (sc_initial cfg)) mod int (sc_thereafter cfg) =
      int ((Suc n - sc_initial cfg) mod sc_thereafter cfg)" if "sc_initial cfg < Suc n"
    using that by (simp add: of_nat_mod of_nat_diff)
  with assms show ?thesis
    by (auto simp: sampler_entry_check_def sampler_rule_def Let_def ac_simps)
qed

lemma sampler_cell_run_within:
  assumes cfg: "c = (Some cfg, Some e)" "0 < sc_initial cfg" "se_count e = int n"
    and within: "\<forall>t \<in> set ts. since t (se_reset e) < sc_period cfg"
  shows "fst (cell_run sampler_cell_step c ts) =
    map (\<lambda>i. sampler_rule cfg (Suc (n + i))) [0..<length ts]"
  using assms
proof (induction ts arbitrary: c e n)
  case Nil
  then show ?case by simp
next
  case (Cons t ts)
  let ?e = "e\<lparr>se_count := int (Suc n)\<rparr>"
  have step: "sampler_cell_step c t = (sampler_rule cfg (Suc n), (Some cfg, Some ?e))"
    using Cons.prems sampler_entry_within [of t e cfg n]
    by (simp add: sampler_cell_step_def sampler_fresh_def)
  have "fst (cell_run sampler_cell_step (Some cfg, Some ?e) ts) =
      map (\<lambda>i. sampler_rule cfg (Suc (Suc n + i))) [0..<length ts]"
    using Cons.prems by (intro Cons.IH) auto
  with step show ?case
    by (simp add: cell_run_Cons upt_conv_Cons map_Suc_upt [symmetric]
        del: cell_run.simps upt_Suc)
qed

lemma sampler_cell_run_fresh:
  assumes "0 < sc_initial cfg" "0 < sc_period cfg"
    and "\<forall>t \<in> set ts. since t (hd ts) < sc_period cfg"
  shows "fst (cell_run sampler_cell_step (Some cfg, None) ts) =
    map (\<lambda>i. sampler_rule cfg (Suc i)) [0..<length ts]"
proof (cases ts)
  case Nil
  then show ?thesis by simp
next
  case (Cons t rest)
  have "cell_run sampler_cell_step (Some cfg, None) ts =
      cell_run sampler_cell_step (Some cfg, Some \<lparr>se_count = 0, se_reset = t\<rparr>) ts"
    using assms(1) Cons by (simp add: sampler_cell_step_def sampler_fresh_def)
  with assms Cons show ?thesis
    using sampler_cell_run_within [of _ cfg "\<lparr>se_count = 0, se_reset = t\<rparr>" 0 ts] by simp
qed

text \<open>The lines of a key, divided into periods: each begins with its first line, lasts less than
  \<open>d\<close> by the clock readings of its lines, and the next begins at least \<open>d\<close> after it began. Every
  sequence of lines has such a division, whatever the clock does.\<close>

fun periods :: "duration \<Rightarrow> instant list list \<Rightarrow> bool" where
  "periods d [] = True"
| "periods d (p # ps) =
     (p \<noteq> [] \<and> (\<forall>t \<in> set p. since t (hd p) < d) \<and>
      (case ps of [] \<Rightarrow> True | q # qs \<Rightarrow> d \<le> since (hd q) (hd p)) \<and> periods d ps)"

lemma periods_cut:
  assumes "0 < d"
  shows "\<exists>ps. t # ts = concat ps \<and> periods d ps \<and> ps \<noteq> [] \<and> hd (hd ps) = t"
proof (induction "length ts" arbitrary: t ts rule: less_induct)
  case less
  define p where "p = takeWhile (\<lambda>u. since u t < d) ts"
  define q where "q = dropWhile (\<lambda>u. since u t < d) ts"
  have p: "ts = p @ q" "\<forall>u \<in> set (t # p). since u t < d"
    using assms by (auto simp: p_def q_def since_def dest: set_takeWhileD)
  show ?case
  proof (cases q)
    case Nil
    with p show ?thesis by (intro exI [of _ "[t # p]"]) simp
  next
    case (Cons u us)
    then have u: "d \<le> since u t"
      by (metis dropWhile_eq_Cons_conv not_le q_def)
    from Cons p(1) have "length us < length ts" by simp
    from less [OF this, of u] obtain ps where "u # us = concat ps" "periods d ps" "ps \<noteq> []" "hd (hd ps) = u"
      by blast
    with p u Cons show ?thesis
      by (intro exI [of _ "(t # p) # ps"]) (cases ps; auto)
  qed
qed

lemma periods_exist: "0 < d \<Longrightarrow> \<exists>ps. ts = concat ps \<and> periods d ps"
  using periods_cut [of d] by (cases ts) (auto intro: exI [of _ "[]"])

definition burst_of :: "sampler_config \<Rightarrow> nat \<Rightarrow> verdict list" where
  "burst_of cfg n = map (\<lambda>i. sampler_rule cfg (Suc i)) [0..<n]"

lemma burst_of_Suc: "burst_of cfg (Suc n) = sampler_rule cfg 1 # map (\<lambda>i. sampler_rule cfg (Suc (1 + i))) [0..<n]"
  by (simp add: burst_of_def upt_conv_Cons map_Suc_upt [symmetric] del: upt_Suc)

text \<open>A period that begins by a reset, then one that ends the sequence, then many.\<close>

lemma sampler_cell_reset:
  assumes "0 < sc_initial cfg" "sc_period cfg \<le> since t (se_reset e)"
  shows "sampler_cell_step (Some cfg, Some e) t = (sampler_rule cfg 1, (Some cfg, Some \<lparr>se_count = 1, se_reset = t\<rparr>))"
  using assms by (simp add: sampler_cell_step_def sampler_fresh_def sampler_entry_check_def sampler_rule_def)

lemma sampler_cell_run_within_state:
  assumes "0 < sc_initial cfg" "\<forall>t \<in> set ts. since t (se_reset e) < sc_period cfg" "se_count e = int n"
  shows "snd (cell_run sampler_cell_step (Some cfg, Some e) ts) =
    (Some cfg, Some (e\<lparr>se_count := int (n + length ts)\<rparr>))"
  using assms
proof (induction ts arbitrary: e n)
  case Nil
  then show ?case by simp
next
  case (Cons t ts)
  have "sampler_cell_step (Some cfg, Some e) t = (sampler_rule cfg (Suc n), (Some cfg, Some (e\<lparr>se_count := int (Suc n)\<rparr>)))"
    using Cons.prems sampler_entry_within [of t e cfg n]
    by (simp add: sampler_cell_step_def sampler_fresh_def)
  with Cons.prems Cons.IH [of "e\<lparr>se_count := int (Suc n)\<rparr>" "Suc n"] show ?case
    by (simp add: cell_run_Cons del: cell_run.simps(2))
qed

lemma sampler_cell_run_periods:
  assumes "0 < sc_initial cfg" "periods (sc_period cfg) ps"
    and "ps = [] \<or> sc_period cfg \<le> since (hd (hd ps)) (se_reset e)"
  shows "fst (cell_run sampler_cell_step (Some cfg, Some e) (concat ps)) = concat (map (\<lambda>p. burst_of cfg (length p)) ps)"
  using assms
proof (induction ps arbitrary: e)
  case Nil
  then show ?case by simp
next
  case (Cons p ps)
  then obtain t ts where p: "p = t # ts" by (cases p) auto
  let ?e = "\<lparr>se_count = 1, se_reset = t\<rparr>"
  have within: "\<forall>u \<in> set ts. since u (se_reset ?e) < sc_period cfg" and ps: "periods (sc_period cfg) ps"
    and far: "ps = [] \<or> sc_period cfg \<le> since (hd (hd ps)) t"
    using Cons.prems(2) p by (auto split: list.splits)
  have "cell_run sampler_cell_step (Some cfg, Some ?e) ts =
      (map (\<lambda>i. sampler_rule cfg (Suc (1 + i))) [0..<length ts],
       (Some cfg, Some \<lparr>se_count = int (1 + length ts), se_reset = t\<rparr>))"
    using sampler_cell_run_within [OF refl assms(1) _ within, of 1]
      sampler_cell_run_within_state [OF assms(1) within, of 1] by (simp add: prod_eq_iff)
  moreover have "fst (cell_run sampler_cell_step (Some cfg, Some \<lparr>se_count = int (1 + length ts), se_reset = t\<rparr>) (concat ps)) =
      concat (map (\<lambda>p. burst_of cfg (length p)) ps)"
    using Cons.IH [OF assms(1) ps] far by simp
  moreover have "sampler_cell_step (Some cfg, Some e) t = (sampler_rule cfg 1, (Some cfg, Some ?e))"
    using Cons.prems(3) p by (intro sampler_cell_reset assms(1)) simp
  ultimately show ?case
    by (simp add: p cell_run_append cell_run_Cons burst_of_Suc split_beta del: cell_run.simps(2))
qed

text \<open>A new entry behaves as one whose last period is over: its first line begins a period.\<close>

lemma sampler_cell_run_new:
  assumes "0 < sc_initial cfg"
  shows "fst (cell_run sampler_cell_step (Some cfg, None) ts) =
    fst (cell_run sampler_cell_step (Some cfg, Some \<lparr>se_count = 0, se_reset = hd ts\<rparr>) ts)"
  using assms
  by (cases ts) (simp_all add: sampler_cell_step_def sampler_fresh_def cell_run_Cons del: cell_run.simps(2))

lemma sampler_cell_run_all:
  assumes "0 < sc_initial cfg" "periods (sc_period cfg) ps"
  shows "fst (cell_run sampler_cell_step (Some cfg, None) (concat ps)) = concat (map (\<lambda>p. burst_of cfg (length p)) ps)"
proof (cases ps)
  case (Cons p qs)
  let ?e = "\<lparr>se_count = 0, se_reset = hd p\<rparr>"
  from assms(2) Cons have p: "p \<noteq> []" and within: "\<forall>u \<in> set p. since u (se_reset ?e) < sc_period cfg"
    and qs: "periods (sc_period cfg) qs" "qs = [] \<or> sc_period cfg \<le> since (hd (hd qs)) (hd p)"
    by (auto split: list.splits)
  have "cell_run sampler_cell_step (Some cfg, Some ?e) p =
      (burst_of cfg (length p), (Some cfg, Some \<lparr>se_count = int (length p), se_reset = hd p\<rparr>))"
    using sampler_cell_run_within [OF refl assms(1) _ within, of 0]
      sampler_cell_run_within_state [OF assms(1) within, of 0] by (simp add: prod_eq_iff burst_of_def)
  moreover have "fst (cell_run sampler_cell_step (Some cfg, None) (concat ps)) =
      fst (cell_run sampler_cell_step (Some cfg, Some ?e) (p @ concat qs))"
    using sampler_cell_run_new [OF assms(1), of "p @ concat qs"] p by (simp add: Cons)
  ultimately show ?thesis
    using sampler_cell_run_periods [OF assms(1) qs(1), of "\<lparr>se_count = int (length p), se_reset = hd p\<rparr>"] qs(2)
    by (simp add: cell_run_append split_beta Cons)
qed simp

text \<open>Accounting over the rule: after \<open>n > initial\<close> lines, every line is printed, reported by
  a later printed line, or among the fewer than \<open>thereafter\<close> most recent ones.\<close>

lemma rule_totals_initial:
  "n \<le> sc_initial cfg \<Longrightarrow>
     emitted (map (\<lambda>i. sampler_rule cfg (Suc i)) [0..<n]) = int n \<and>
     reported (map (\<lambda>i. sampler_rule cfg (Suc i)) [0..<n]) = 0"
  by (induction n) (auto simp: sampler_rule_def)

lemma rule_totals_beyond:
  assumes "0 < sc_thereafter cfg"
  shows "emitted (map (\<lambda>i. sampler_rule cfg (Suc i)) [0..<sc_initial cfg + m]) +
      reported (map (\<lambda>i. sampler_rule cfg (Suc i)) [0..<sc_initial cfg + m]) =
    int (sc_initial cfg + m) - int (m mod sc_thereafter cfg)"
proof (induction m)
  case 0
  then show ?case using rule_totals_initial [of "sc_initial cfg" cfg] by simp
next
  case (Suc m)
  let ?th = "sc_thereafter cfg"
  have rule: "sampler_rule cfg (Suc (sc_initial cfg + m)) =
      (if Suc m mod ?th = 0 then (True, int ?th - 1) else (False, 0))"
    using assms by (simp add: sampler_rule_def)
  show ?case
  proof (cases "Suc m mod ?th = 0")
    case True
    then have "m mod ?th = ?th - 1"
      by (metis Suc_pred' assms mod_Suc nat.distinct(1) nat.inject)
    with True Suc rule assms show ?thesis by (simp add: of_nat_diff)
  next
    case False
    then have "Suc m mod ?th = Suc (m mod ?th)"
      by (simp add: mod_Suc split: if_splits)
    with False Suc rule show ?thesis by simp
  qed
qed

subsection \<open>Properties\<close>

text \<open>C25: The burst pattern, period after period: however the checks of other keys interleave and
  whatever the clock does, the lines of a key divide into periods, the next beginning with the first
  line at least \<open>period\<close> after the present one began; and in each period, not only the first, exactly
  the first \<open>initial\<close> lines are printed and then one in every \<open>thereafter\<close> (none, when that is
  zero), each of the latter reporting \<open>thereafter - 1\<close> swallowed lines.\<close>

theorem sampler_burst:
  assumes "0 < sc_initial cfg" "0 < sc_period cfg"
  shows "(\<exists>ps. inputs_of key es = concat ps \<and> periods (sc_period cfg) ps) \<and>
    (\<forall>ps. inputs_of key es = concat ps \<and> periods (sc_period cfg) ps \<longrightarrow>
      verdicts_of key (fst (gate_run sampler_check (sampler_new (Some cfg)) es)) es =
        concat (map (\<lambda>p. map (\<lambda>i.
          if i < sc_initial cfg then (True, 0)
          else if sc_thereafter cfg \<noteq> 0 \<and> (Suc i - sc_initial cfg) mod sc_thereafter cfg = 0
            then (True, int (sc_thereafter cfg) - 1)
          else (False, 0)) [0..<length p]) ps))"
proof -
  have "sampler_cell (sampler_new (Some cfg)) key = (Some cfg, None)"
    by (simp add: sampler_cell_def sampler_new_def)
  then show ?thesis
    using sampler_cell_run_all [OF assms(1)] periods_exist [OF assms(2)]
    by (simp add: sampler_gate.projection(1) burst_of_def sampler_rule_def Suc_le_eq)
qed

theorem sampler_burst_witness:
  "verdicts_of ''a''
     (fst (gate_run sampler_check (sampler_new (Some \<lparr>sc_initial = 1, sc_thereafter = 2, sc_period = 10\<rparr>))
       [(3, ''a''), (4, ''b''), (5, ''a''), (20, ''b''), (6, ''a''), (14, ''a''), (15, ''a'')]))
     [(3 :: instant, ''a''), (4, ''b''), (5, ''a''), (20, ''b''), (6, ''a''), (14, ''a''), (15, ''a'')] =
   [(True, 0), (False, 0), (True, 1), (True, 0), (False, 0)]"
proof -
  let ?cfg = "\<lparr>sc_initial = 1, sc_thereafter = 2, sc_period = 10\<rparr>"
  let ?es = "[(3 :: instant, ''a''), (4, ''b''), (5, ''a''), (20, ''b''), (6, ''a''), (14, ''a''), (15, ''a'')]"
  have "inputs_of ''a'' ?es = concat [[3, 5, 6], [14, 15]] \<and> periods (sc_period ?cfg) [[3, 5, 6], [14, 15]]"
    by (simp add: since_def)
  from sampler_burst [of ?cfg, THEN conjunct2, rule_format, OF _ _ this] show ?thesis
    by (simp add: upt_rec del: gate_run.simps)
qed

text \<open>Accounting of a period: after \<open>initial + m\<close> lines of a key, the printed lines and the
  swallowed lines they report add up to all lines but the \<open>m mod thereafter\<close> most recent ones, so
  fewer than \<open>thereafter\<close> lines are unaccounted for at any time.\<close>

theorem sampler_accounting:
  assumes "0 < sc_initial cfg" "0 < sc_period cfg" "0 < sc_thereafter cfg"
    and "\<forall>t \<in> set (inputs_of key es). since t (hd (inputs_of key es)) < sc_period cfg"
    and "length (inputs_of key es) = sc_initial cfg + m"
    and vs: "vs = verdicts_of key (fst (gate_run sampler_check (sampler_new (Some cfg)) es)) es"
  shows "emitted vs + reported vs = int (sc_initial cfg + m) - int (m mod sc_thereafter cfg)"
proof -
  have "vs = map (\<lambda>i. sampler_rule cfg (Suc i)) [0..<sc_initial cfg + m]"
    using sampler_cell_run_fresh [of cfg "inputs_of key es"] assms
    by (simp add: sampler_gate.projection(1) sampler_cell_def sampler_new_def)
  with rule_totals_beyond [of cfg m] assms(3) show ?thesis by simp
qed

theorem sampler_accounting_witness:
  "let vs = verdicts_of ''a''
     (fst (gate_run sampler_check (sampler_new (Some \<lparr>sc_initial = 1, sc_thereafter = 2, sc_period = 10\<rparr>))
       [(3, ''a''), (4, ''b''), (5, ''a''), (6, ''a''), (7, ''a'')]))
     [(3 :: instant, ''a''), (4, ''b''), (5, ''a''), (6, ''a''), (7, ''a'')]
   in emitted vs + reported vs = 3"
  using sampler_accounting [of "\<lparr>sc_initial = 1, sc_thereafter = 2, sc_period = 10\<rparr>" "''a''"
      "[(3, ''a''), (4, ''b''), (5, ''a''), (6, ''a''), (7, ''a'')]" 3]
  by (simp add: since_def del: gate_run.simps)

end
