(* ===== verification/PcLog.thy ===== *)
theory PcLog
  imports PcSampler PcWindow
begin

unbundle bit_operations_syntax

section \<open>pc-log: context, macros, forwarding, line format\<close>

text \<open>
  \<open>crates/pc-log/src/lib.rs\<close>, \<open>context.rs\<close>, \<open>formatter.rs\<close> and \<open>limiter.rs\<close>. The
  process-global cells (sampler, window limiter, forwarding hook) are fields of \<open>log_state\<close>,
  whose last two fields collect what a macro hands to its two sinks: the events given to
  \<open>tracing\<close> and the calls of the forwarding hook. The text after \<open>format!\<close> is the argument
  \<open>msg\<close> of a macro; the format literal, the default sampling key, is \<open>fmt\<close>. The locks are
  never poisoned (no code panics while it holds one).
\<close>

subsection \<open>LogContext\<close>

record log_context =
  lc_prefix :: string

definition ctx_field :: "string \<times> string \<Rightarrow> string" where
  "ctx_field kv = fst kv @ ''='' @ snd kv"

text \<open>The loop of \<open>build_prefix\<close>: a space before every pair but the first.\<close>

fun prefix_loop :: "bool \<Rightarrow> (string \<times> string) list \<Rightarrow> string" where
  "prefix_loop first [] = ''''"
| "prefix_loop first (kv # rest) =
     (if first then '''' else '' '') @ ctx_field kv @ prefix_loop False rest"

definition build_prefix :: "(string \<times> string) list \<Rightarrow> string" where
  "build_prefix flds =
     (if flds = [] then '''' else ''['' @ prefix_loop True flds @ ''] '')"

definition log_context_new :: "(string \<times> string) list \<Rightarrow> log_context" where
  "log_context_new flds = \<lparr>lc_prefix = build_prefix flds\<rparr>"

definition log_context_with :: "log_context \<Rightarrow> (string \<times> string) list \<Rightarrow> log_context" where
  "log_context_with ctx flds =
     (if flds = [] then ctx
      else
        let extra = build_prefix flds in
        if lc_prefix ctx = [] then \<lparr>lc_prefix = extra\<rparr>
        else \<lparr>lc_prefix =
                take (length (lc_prefix ctx) - 2) (lc_prefix ctx) @ '' '' @ drop 1 extra\<rparr>)"

lemma prefix_loop_append:
  "fs \<noteq> [] \<Longrightarrow> prefix_loop first (fs @ gs) = prefix_loop first fs @ prefix_loop False gs"
proof (induction first fs rule: prefix_loop.induct)
  case (2 first kv rest)
  then show ?case by (cases rest) auto
qed simp

lemma prefix_loop_later: "gs \<noteq> [] \<Longrightarrow> prefix_loop False gs = '' '' @ prefix_loop True gs"
  by (cases gs) auto

lemma build_prefix_merge:
  "fs \<noteq> [] \<Longrightarrow> gs \<noteq> [] \<Longrightarrow>
     take (length (build_prefix fs) - 2) (build_prefix fs) @ '' '' @ drop 1 (build_prefix gs) =
     build_prefix (fs @ gs)"
  by (simp add: build_prefix_def prefix_loop_append prefix_loop_later)

lemma build_prefix_empty_iff [simp]: "build_prefix fs = [] \<longleftrightarrow> fs = []"
  by (simp add: build_prefix_def)

subsection \<open>Levels and the forwarding hook\<close>

datatype log_level = LFatal | LError | LWarn | LInfo | LDebug

fun level_name :: "log_level \<Rightarrow> string" where
  "level_name LFatal = ''fatal''"
| "level_name LError = ''error''"
| "level_name LWarn = ''warn''"
| "level_name LInfo = ''info''"
| "level_name LDebug = ''debug''"

definition forward_fatal :: "8 word" where
  "forward_fatal = push_bit 0 1"

definition forward_error :: "8 word" where
  "forward_error = push_bit 1 1"

definition forward_warn :: "8 word" where
  "forward_warn = push_bit 2 1"

definition forward_info :: "8 word" where
  "forward_info = push_bit 3 1"

definition forward_debug :: "8 word" where
  "forward_debug = push_bit 4 1"

lemmas forward_flag_defs =
  forward_fatal_def forward_error_def forward_warn_def forward_info_def forward_debug_def

record 'h forwarding =
  fw_hook :: 'h
  fw_levels :: "8 word"

definition env_enabled :: "environment \<Rightarrow> string \<Rightarrow> bool \<Rightarrow> bool" where
  "env_enabled env name dflt =
     (case env name of
        None \<Rightarrow> dflt
      | Some value \<Rightarrow> unwrap_or (parse_bool_go value) dflt)"

definition forward_table :: "(string \<times> bool \<times> 8 word) list" where
  "forward_table =
     [(''LOG_FORWARD_FATAL'', True, forward_fatal),
      (''LOG_FORWARD_ERROR'', True, forward_error),
      (''LOG_FORWARD_WARN'', False, forward_warn),
      (''LOG_FORWARD_INFO'', False, forward_info),
      (''LOG_FORWARD_DEBUG'', False, forward_debug)]"

fun forward_levels :: "environment \<Rightarrow> (string \<times> bool \<times> 8 word) list \<Rightarrow> 8 word \<Rightarrow> 8 word" where
  "forward_levels env [] levels = levels"
| "forward_levels env ((name, dflt, flag) # rest) levels =
     forward_levels env rest (if env_enabled env name dflt then levels OR flag else levels)"

subsection \<open>The state of the logger\<close>

datatype tracing_level = Level_ERROR | Level_WARN | Level_INFO | Level_DEBUG | Level_TRACE

type_synonym event_field = "string \<times> string"
type_synonym event = "tracing_level \<times> event_field list"

record 'h log_state =
  ls_sampler :: sampler
  ls_windows :: rate_limiter
  ls_forwarding :: "'h forwarding option"
  ls_events :: "event list"
  ls_forwarded :: "('h \<times> string \<times> string) list"

definition configure_log_forwarding ::
  "environment \<Rightarrow> 'h \<Rightarrow> 'h log_state \<Rightarrow> 'h log_state" where
  "configure_log_forwarding env hook st =
     st\<lparr>ls_forwarding :=
          Some \<lparr>fw_hook = hook, fw_levels = forward_levels env forward_table 0\<rparr>\<rparr>"

definition log_initial :: "'h log_state" where
  "log_initial =
     \<lparr>ls_sampler = sampler_new None, ls_windows = rate_limiter_new, ls_forwarding = None,
      ls_events = [], ls_forwarded = []\<rparr>"

text \<open>\<open>init\<close>: the sampler for the environment and the directive of the subscriber's filter
  (\<open>try_init\<close> keeps a filter installed earlier).\<close>

definition log_init ::
  "environment \<Rightarrow> identity \<Rightarrow> 'h log_state \<Rightarrow> string \<times> 'h log_state" where
  "log_init env ident st =
     (let debug = (case env ''APP_DEBUG_LOG'' of
                     None \<Rightarrow> False
                   | Some value \<Rightarrow> eq_ignore_ascii_case value ''true'')
      in (if debug then ''debug'' else ''info'',
          st\<lparr>ls_sampler :=
               initialize_sampler (sampler_config_for_env (app_env_of ident)) (ls_sampler st)\<rparr>))"

definition forward_flag :: "string \<Rightarrow> 8 word" where
  "forward_flag level =
     (if level = ''fatal'' then forward_fatal
      else if level = ''error'' then forward_error
      else if level = ''warn'' then forward_warn
      else if level = ''info'' then forward_info
      else if level = ''debug'' then forward_debug
      else 0)"

definition forward_text :: "string \<Rightarrow> string \<Rightarrow> string" where
  "forward_text prfx message =
     (if prfx = [] then message
      else if message = [] then prfx
      else prfx @ '' '' @ message)"

definition forward :: "string \<Rightarrow> string \<Rightarrow> string \<Rightarrow> 'h log_state \<Rightarrow> 'h log_state" where
  "forward level prfx message st =
     (case ls_forwarding st of
        None \<Rightarrow> st
      | Some config \<Rightarrow>
          if fw_levels config AND forward_flag level \<noteq> 0
          then st\<lparr>ls_forwarded :=
                    ls_forwarded st @ [(fw_hook config, level, forward_text prfx message)]\<rparr>
          else st)"

definition with_suffix :: "string \<Rightarrow> int \<Rightarrow> string" where
  "with_suffix message suppressed =
     (if suppressed > 0 then message @ '' [+'' @ show_int suppressed @ '' suppressed]''
      else message)"

text \<open>\<open>__pc_emit!\<close>: a fatal line is a \<open>tracing\<close> error event with the extra field \<open>pc_level\<close>.\<close>

fun pc_event :: "log_level \<Rightarrow> string \<Rightarrow> string \<Rightarrow> event" where
  "pc_event LFatal prfx msg =
     (Level_ERROR, [(''pc_level'', ''fatal''), (''prefix'', prfx), (''message'', msg)])"
| "pc_event LError prfx msg = (Level_ERROR, [(''prefix'', prfx), (''message'', msg)])"
| "pc_event LWarn prfx msg = (Level_WARN, [(''prefix'', prfx), (''message'', msg)])"
| "pc_event LInfo prfx msg = (Level_INFO, [(''prefix'', prfx), (''message'', msg)])"
| "pc_event LDebug prfx msg = (Level_DEBUG, [(''prefix'', prfx), (''message'', msg)])"

definition pc_emit :: "log_level \<Rightarrow> string \<Rightarrow> string \<Rightarrow> 'h log_state \<Rightarrow> 'h log_state" where
  "pc_emit level prfx msg st =
     forward (level_name level) prfx msg
       (st\<lparr>ls_events := ls_events st @ [pc_event level prfx msg]\<rparr>)"

definition pc_emit_sampled ::
  "int option \<Rightarrow> log_level \<Rightarrow> string \<Rightarrow> string \<Rightarrow> 'h log_state \<Rightarrow> 'h log_state" where
  "pc_emit_sampled o' level prfx msg st =
     (case o' of
        None \<Rightarrow> st
      | Some suppressed \<Rightarrow> pc_emit level prfx (with_suffix msg suppressed) st)"

definition pc_log ::
  "log_level \<Rightarrow> instant \<Rightarrow> string \<Rightarrow> string \<Rightarrow> string \<Rightarrow> 'h log_state \<Rightarrow> 'h log_state" where
  "pc_log level now prfx fmt msg st =
     (let (o', smp) = sample (ls_sampler st) now fmt
      in pc_emit_sampled o' level prfx msg (st\<lparr>ls_sampler := smp\<rparr>))"

definition pc_log_rated ::
  "log_level \<Rightarrow> instant \<Rightarrow> string \<Rightarrow> string \<Rightarrow> string \<Rightarrow> 'h log_state \<Rightarrow> 'h log_state" where
  "pc_log_rated level now key prfx msg st =
     (let (o', smp) = sample (ls_sampler st) now key
      in pc_emit_sampled o' level prfx msg (st\<lparr>ls_sampler := smp\<rparr>))"

definition pc_log_rated_w ::
  "log_level \<Rightarrow> instant \<Rightarrow> string \<Rightarrow> duration \<Rightarrow> string \<Rightarrow> string \<Rightarrow> 'h log_state \<Rightarrow> 'h log_state" where
  "pc_log_rated_w level now key window prfx msg st =
     (let (o', ws) = sample_window (ls_windows st) now key window
      in pc_emit_sampled o' level prfx msg (st\<lparr>ls_windows := ws\<rparr>))"

definition log_d ::
  "instant \<Rightarrow> string \<Rightarrow> string \<Rightarrow> string \<Rightarrow> 'h log_state \<Rightarrow> 'h log_state" where
  "log_d = pc_log LDebug"

definition log_i ::
  "instant \<Rightarrow> string \<Rightarrow> string \<Rightarrow> string \<Rightarrow> 'h log_state \<Rightarrow> 'h log_state" where
  "log_i = pc_log LInfo"

definition log_w ::
  "instant \<Rightarrow> string \<Rightarrow> string \<Rightarrow> string \<Rightarrow> 'h log_state \<Rightarrow> 'h log_state" where
  "log_w = pc_log LWarn"

definition log_e ::
  "instant \<Rightarrow> string \<Rightarrow> string \<Rightarrow> string \<Rightarrow> 'h log_state \<Rightarrow> 'h log_state" where
  "log_e = pc_log LError"

definition log_f ::
  "instant \<Rightarrow> string \<Rightarrow> string \<Rightarrow> string \<Rightarrow> 'h log_state \<Rightarrow> 'h log_state" where
  "log_f = pc_log LFatal"

definition log_d_rated ::
  "instant \<Rightarrow> string \<Rightarrow> string \<Rightarrow> string \<Rightarrow> 'h log_state \<Rightarrow> 'h log_state" where
  "log_d_rated = pc_log_rated LDebug"

definition log_i_rated ::
  "instant \<Rightarrow> string \<Rightarrow> string \<Rightarrow> string \<Rightarrow> 'h log_state \<Rightarrow> 'h log_state" where
  "log_i_rated = pc_log_rated LInfo"

definition log_w_rated ::
  "instant \<Rightarrow> string \<Rightarrow> string \<Rightarrow> string \<Rightarrow> 'h log_state \<Rightarrow> 'h log_state" where
  "log_w_rated = pc_log_rated LWarn"

definition log_e_rated ::
  "instant \<Rightarrow> string \<Rightarrow> string \<Rightarrow> string \<Rightarrow> 'h log_state \<Rightarrow> 'h log_state" where
  "log_e_rated = pc_log_rated LError"

definition log_d_rated_w ::
  "instant \<Rightarrow> string \<Rightarrow> duration \<Rightarrow> string \<Rightarrow> string \<Rightarrow> 'h log_state \<Rightarrow> 'h log_state" where
  "log_d_rated_w = pc_log_rated_w LDebug"

definition log_i_rated_w ::
  "instant \<Rightarrow> string \<Rightarrow> duration \<Rightarrow> string \<Rightarrow> string \<Rightarrow> 'h log_state \<Rightarrow> 'h log_state" where
  "log_i_rated_w = pc_log_rated_w LInfo"

definition log_w_rated_w ::
  "instant \<Rightarrow> string \<Rightarrow> duration \<Rightarrow> string \<Rightarrow> string \<Rightarrow> 'h log_state \<Rightarrow> 'h log_state" where
  "log_w_rated_w = pc_log_rated_w LWarn"

definition log_e_rated_w ::
  "instant \<Rightarrow> string \<Rightarrow> duration \<Rightarrow> string \<Rightarrow> string \<Rightarrow> 'h log_state \<Rightarrow> 'h log_state" where
  "log_e_rated_w = pc_log_rated_w LError"

subsection \<open>Facts of the emit path\<close>

text \<open>The environment switch and the bit of a level.\<close>

fun level_switch :: "log_level \<Rightarrow> string \<times> bool" where
  "level_switch LFatal = (''LOG_FORWARD_FATAL'', True)"
| "level_switch LError = (''LOG_FORWARD_ERROR'', True)"
| "level_switch LWarn = (''LOG_FORWARD_WARN'', False)"
| "level_switch LInfo = (''LOG_FORWARD_INFO'', False)"
| "level_switch LDebug = (''LOG_FORWARD_DEBUG'', False)"

lemma forward_bit:
  "(forward_levels env forward_table 0 AND forward_flag (level_name l) \<noteq> 0) =
     env_enabled env (fst (level_switch l)) (snd (level_switch l))"
  by (cases l) (simp_all add: forward_table_def forward_flag_def forward_flag_defs)

lemma forward_unchanged [simp]:
  "ls_events (forward l p m st) = ls_events st"
  "ls_sampler (forward l p m st) = ls_sampler st"
  "ls_windows (forward l p m st) = ls_windows st"
  "ls_forwarding (forward l p m st) = ls_forwarding st"
  by (simp_all add: forward_def split: option.splits)

lemma pc_emit_unchanged [simp]:
  "ls_sampler (pc_emit l p m st) = ls_sampler st"
  "ls_windows (pc_emit l p m st) = ls_windows st"
  "ls_forwarding (pc_emit l p m st) = ls_forwarding st"
  "ls_events (pc_emit l p m st) = ls_events st @ [pc_event l p m]"
  by (simp_all add: pc_emit_def)

lemma pc_emit_forwarded:
  "ls_forwarded (pc_emit l p m st) = ls_forwarded st @
     (case ls_forwarding st of
        None \<Rightarrow> []
      | Some c \<Rightarrow>
          if fw_levels c AND forward_flag (level_name l) \<noteq> 0
          then [(fw_hook c, level_name l, forward_text p m)] else [])"
  by (simp add: pc_emit_def forward_def split: option.splits)

subsection \<open>The text of a line\<close>

definition level_title :: "tracing_level \<Rightarrow> string" where
  "level_title level =
     (case level of
        Level_ERROR \<Rightarrow> ''[ERRO]''
      | Level_WARN \<Rightarrow> ''[WARN]''
      | Level_INFO \<Rightarrow> ''[INFO]''
      | Level_DEBUG \<Rightarrow> ''[DBUG]''
      | Level_TRACE \<Rightarrow> ''[DBUG]'')"

record event_fields =
  ef_prefix :: string
  ef_message :: string
  ef_pc_level :: "string option"
  ef_rest :: "event_field list"

definition event_fields_default :: event_fields where
  "event_fields_default = \<lparr>ef_prefix = [], ef_message = [], ef_pc_level = None, ef_rest = []\<rparr>"

definition record_field :: "event_field \<Rightarrow> event_fields \<Rightarrow> event_fields" where
  "record_field nv f =
     (let (name, value) = nv in
      if name = ''prefix'' then f\<lparr>ef_prefix := value\<rparr>
      else if name = ''message'' then f\<lparr>ef_message := value\<rparr>
      else if name = ''pc_level'' then f\<lparr>ef_pc_level := Some value\<rparr>
      else f\<lparr>ef_rest := ef_rest f @ [(name, value)]\<rparr>)"

text \<open>\<open>Visit\<close>: how the value of a field becomes its text. The \<open>{:?}\<close> text of a value and the text of an
  \<open>f64\<close> are the caller's and the standard library's.\<close>

datatype field_value =
  Value_Str string
| Value_Debug string
| Value_I64 int
| Value_U64 nat
| Value_Bool bool
| Value_F64 string

fun field_text :: "field_value \<Rightarrow> string" where
  "field_text (Value_Str s) = s"
| "field_text (Value_Debug s) = s"
| "field_text (Value_I64 i) = show_int i"
| "field_text (Value_U64 n) = show_nat n"
| "field_text (Value_Bool b) = (if b then ''true'' else ''false'')"
| "field_text (Value_F64 s) = s"

definition record_value :: "string \<times> field_value \<Rightarrow> event_fields \<Rightarrow> event_fields" where
  "record_value nv = record_field (fst nv, field_text (snd nv))"

text \<open>An \<open>event\<close> carries the texts of its fields.\<close>

lemma record_values:
  "fold record_value nvs f = fold record_field (map (\<lambda>nv. (fst nv, field_text (snd nv))) nvs) f"
  by (induction nvs arbitrary: f) (simp_all add: record_value_def)

text \<open>The rendered time stamp is an argument: its layout is in \<open>PcTimer\<close>.\<close>

definition format_event :: "string \<Rightarrow> event \<Rightarrow> string" where
  "format_event stamp ev =
     (let flds = fold record_field (snd ev) event_fields_default;
          title = (if ef_pc_level flds = Some ''fatal'' then ''[FTAL]''
                   else level_title (fst ev));
          head = (if ef_prefix flds = [] then []
                  else trim_end (ef_prefix flds) @
                    (if ef_message flds = [] then [] else '' ''))
      in title @ '' '' @ stamp @ '' '' @ head @ ef_message flds @
         concat (map (\<lambda>(name, value). '' '' @ name @ ''='' @ value) (ef_rest flds)) @
         [char_of (10 :: nat)])"

fun line_title :: "log_level \<Rightarrow> string" where
  "line_title LFatal = ''[FTAL]''"
| "line_title LError = ''[ERRO]''"
| "line_title LWarn = ''[WARN]''"
| "line_title LInfo = ''[INFO]''"
| "line_title LDebug = ''[DBUG]''"

lemma format_event_pc_event:
  "format_event stamp (pc_event l p m) =
     line_title l @ '' '' @ stamp @ '' '' @
     (if p = [] then [] else trim_end p @ (if m = [] then [] else '' '')) @ m @
     [char_of (10 :: nat)]"
  by (cases l)
    (simp_all add: format_event_def record_field_def event_fields_default_def level_title_def)

subsection \<open>KeyedLimiter\<close>

text \<open>
  \<open>limiter.rs\<close> wraps the token bucket of the \<open>governor\<close> crate: its quota constructors, its
  limiter constructor and \<open>check_key\<close> are parameters. A rate or burst of 0 becomes 1.
\<close>

definition non_zero_or_min :: "nat \<Rightarrow> nat" where
  "non_zero_or_min n = (if n = 0 then 1 else n)"

definition keyed_limiter_new ::
  "(nat \<Rightarrow> 'q) \<Rightarrow> (nat \<Rightarrow> 'q \<Rightarrow> 'q) \<Rightarrow> ('q \<Rightarrow> 'l) \<Rightarrow> nat \<Rightarrow> nat \<Rightarrow> 'l" where
  "keyed_limiter_new per_sec allow_burst keyed rate_per_sec burst =
     keyed (allow_burst (non_zero_or_min burst) (per_sec (non_zero_or_min rate_per_sec)))"

definition keyed_limiter_allow ::
  "('l \<Rightarrow> instant \<Rightarrow> 'k \<Rightarrow> ('e + 'o) \<times> 'l) \<Rightarrow> 'l \<Rightarrow> instant \<Rightarrow> 'k \<Rightarrow> bool \<times> 'l" where
  "keyed_limiter_allow check_key l now key =
     (let (r, l') = check_key l now key in (is_ok r, l'))"

text \<open>\<open>crates/pc-resilience/src/ratelimit.rs\<close>: the same wrapper, for a quota of the caller's.\<close>

definition keyed_rate_limiter_new :: "('q \<Rightarrow> 'l) \<Rightarrow> 'q \<Rightarrow> 'l" where
  "keyed_rate_limiter_new keyed quota = keyed quota"

definition keyed_rate_limiter_per_second :: "(nat \<Rightarrow> 'q) \<Rightarrow> ('q \<Rightarrow> 'l) \<Rightarrow> nat \<Rightarrow> 'l" where
  "keyed_rate_limiter_per_second per_sec keyed rate =
     keyed_rate_limiter_new keyed (per_sec rate)"

definition keyed_rate_limiter_allow ::
  "('l \<Rightarrow> instant \<Rightarrow> 'k \<Rightarrow> ('e + 'o) \<times> 'l) \<Rightarrow> 'l \<Rightarrow> instant \<Rightarrow> 'k \<Rightarrow> bool \<times> 'l" where
  "keyed_rate_limiter_allow check_key l now key =
     (let (r, l') = check_key l now key in (is_ok r, l'))"

subsection \<open>Properties\<close>

text \<open>A derived log context is the context of the concatenated fields: \<open>new(fs).with(gs)\<close> has the
  prefix of \<open>new(fs ++ gs)\<close>, for any fields, empty lists included, although it works on the
  rendered text.\<close>

theorem log_context_with_appends:
  "log_context_with (log_context_new fs) gs = log_context_new (fs @ gs)"
  using build_prefix_merge [of fs gs]
  by (auto simp: log_context_with_def log_context_new_def Let_def build_prefix_def)

text \<open>C22: The two sinks of a logging macro agree: a call that its gate lets through appends one event
  and, exactly when the switch of its level is on in the environment the hook was configured in, one
  forwarded line with the same prefix and the same message, suffix of suppressed lines included; a
  call the gate swallows reaches neither. The same holds of the sampled and the windowed macros.\<close>

theorem log_sinks_agree:
  "let st1 = configure_log_forwarding env hook st;
       sinks = (\<lambda>gate st2.
         (case gate of
            None \<Rightarrow> ls_events st2 = ls_events st \<and> ls_forwarded st2 = ls_forwarded st
          | Some n \<Rightarrow>
              ls_events st2 = ls_events st @ [pc_event l p (with_suffix m n)] \<and>
              ls_forwarded st2 = ls_forwarded st @
                (if env_enabled env (fst (level_switch l)) (snd (level_switch l))
                 then [(hook, level_name l, forward_text p (with_suffix m n))] else [])))
   in sinks (fst (sample (ls_sampler st) now fmt)) (pc_log l now p fmt m st1) \<and>
      sinks (fst (sample (ls_sampler st) now key)) (pc_log_rated l now key p m st1) \<and>
      sinks (fst (sample_window (ls_windows st) now key w)) (pc_log_rated_w l now key w p m st1)"
  by (simp add: pc_log_def pc_log_rated_def pc_log_rated_w_def pc_emit_sampled_def
      configure_log_forwarding_def split_beta Let_def pc_emit_forwarded forward_bit
      split: option.split)

end
