(* ===== verification/PcDb.thy ===== *)
theory PcDb
  imports PcCore
begin

section \<open>pc-db: connection-pool settings\<close>

text \<open>
  \<open>crates/pc-db/src/lib.rs\<close>. Counts are \<open>i64\<close> values and durations nanoseconds. \<open>sqlx\<close> only
  receives the options, so its \<open>PoolOptions\<close> is the record of the three setters the code
  calls; connecting is a parameter. A double is an opaque value: the operations on it are the
  record \<open>f64_ops\<close>, in which \<open>Duration::mul_f64\<close> is None where it panics (a negative,
  non-finite or too large product), and None is a panic in the functions that call it.
\<close>

datatype 'x db_error =
  Unbounded_Max_Open int
| Negative_Max_Idle int
| Max_Open_Overflow int
| Missing_Dsn
| Sqlx 'x

record pool_config =
  pc_max_open_conns :: int
  pc_max_idle_conns :: int
  pc_conn_max_lifetime :: duration
  pc_conn_max_idle_time :: duration
  pc_dsn :: "string option"

definition pool_config_default :: pool_config where
  "pool_config_default =
     \<lparr>pc_max_open_conns = 15, pc_max_idle_conns = 15,
      pc_conn_max_lifetime = from_secs (30 * 60), pc_conn_max_idle_time = from_secs (5 * 60),
      pc_dsn = None\<rparr>"

definition default_pool_config :: pool_config where
  "default_pool_config = pool_config_default"

subsection \<open>Reading the environment\<close>

definition env_int_positive :: "environment \<Rightarrow> string \<Rightarrow> int \<Rightarrow> int" where
  "env_int_positive env key dflt =
     (case env key of
        None \<Rightarrow> dflt
      | Some v \<Rightarrow>
          (case parse_i64 v of
             Some n \<Rightarrow> if n > 0 then n else dflt
           | None \<Rightarrow> dflt))"

definition duration_minutes :: "duration \<Rightarrow> int" where
  "duration_minutes d = unwrap_or (i64_try_from (as_secs d div 60)) i64_max"

definition minutes :: "int \<Rightarrow> duration" where
  "minutes n = from_secs (sat_mul_u64 (unwrap_or (u64_try_from (max n 0)) 0) 60)"

definition pool_from_env :: "environment \<Rightarrow> string \<Rightarrow> pool_config" where
  "pool_from_env env prfx =
     (let d = pool_config_default;
          lifetime_min = env_int_positive env (prfx @ ''_CONN_MAX_LIFETIME'')
                           (duration_minutes (pc_conn_max_lifetime d));
          idle_min = env_int_positive env (prfx @ ''_CONN_MAX_IDLE_TIME'')
                       (duration_minutes (pc_conn_max_idle_time d))
      in \<lparr>pc_max_open_conns = env_int_positive env (prfx @ ''_MAX_OPEN_CONN'') (pc_max_open_conns d),
          pc_max_idle_conns = env_int_positive env (prfx @ ''_MAX_IDLE_CONN'') (pc_max_idle_conns d),
          pc_conn_max_lifetime = minutes lifetime_min,
          pc_conn_max_idle_time = minutes idle_min,
          pc_dsn = (case env (prfx @ ''_DSN'') of
                      None \<Rightarrow> None
                    | Some s \<Rightarrow> if s = [] then None else Some s)\<rparr>)"

definition pool_validate :: "pool_config \<Rightarrow> 'x db_error + unit" where
  "pool_validate c =
     (if pc_max_open_conns c \<le> 0 then Err (Unbounded_Max_Open (pc_max_open_conns c))
      else if pc_max_idle_conns c < 0 then Err (Negative_Max_Idle (pc_max_idle_conns c))
      else Ok ())"

definition effective_max_idle_conns :: "pool_config \<Rightarrow> int" where
  "effective_max_idle_conns c = min (pc_max_idle_conns c) (pc_max_open_conns c)"

subsection \<open>Pool options\<close>

record pool_opts =
  po_max_connections :: nat
  po_max_lifetime :: "duration option"
  po_idle_timeout :: "duration option"

definition then_some :: "bool \<Rightarrow> 'a \<Rightarrow> 'a option" where
  "then_some b x = (if b then Some x else None)"

definition pool_options :: "pool_config \<Rightarrow> duration \<Rightarrow> 'x db_error + pool_opts" where
  "pool_options cfg effective_lifetime =
     and_then (pool_validate cfg) (\<lambda>_.
       if pc_max_open_conns cfg < 0 \<or> int u32_max < pc_max_open_conns cfg
       then Err (Max_Open_Overflow (pc_max_open_conns cfg))
       else Ok \<lparr>po_max_connections = nat (pc_max_open_conns cfg),
                po_max_lifetime = then_some (effective_lifetime \<noteq> 0) effective_lifetime,
                po_idle_timeout = then_some (pc_conn_max_idle_time cfg \<noteq> 0) (pc_conn_max_idle_time cfg)\<rparr>)"

subsection \<open>The lifetime jitter\<close>

record 'f f64_ops =
  f_zero :: 'f
  f_one :: 'f
  f_tenth :: 'f
  f_clamp :: "'f \<Rightarrow> 'f \<Rightarrow> 'f \<Rightarrow> 'f"
  f_times :: "'f \<Rightarrow> 'f \<Rightarrow> 'f"
  f_mul_duration :: "duration \<Rightarrow> 'f \<Rightarrow> duration option"

text \<open>\<open>+\<close> on durations panics beyond \<open>Duration::MAX\<close>.\<close>

definition add_duration :: "duration \<Rightarrow> duration \<Rightarrow> duration option" where
  "add_duration a b = (if a + b \<le> duration_max then Some (a + b) else None)"

definition apply_lifetime_jitter :: "'f f64_ops \<Rightarrow> duration \<Rightarrow> 'f \<Rightarrow> duration option" where
  "apply_lifetime_jitter fl base rand_fraction =
     (if base = 0 then Some base
      else
        let frac = f_clamp fl rand_fraction (f_zero fl) (f_one fl) in
        (case f_mul_duration fl base (f_times fl (f_tenth fl) frac) of
           None \<Rightarrow> None
         | Some j \<Rightarrow> add_duration base j))"

text \<open>\<open>lifetime_with_jitter\<close>, \<open>pg_pool_options\<close> and \<open>mysql_pool_options\<close> take the random draw
  as an argument; the two engines differ only in the type of the options.\<close>

definition lifetime_with_jitter :: "'f f64_ops \<Rightarrow> 'f \<Rightarrow> duration \<Rightarrow> duration option" where
  "lifetime_with_jitter fl draw base = apply_lifetime_jitter fl base draw"

definition engine_pool_options ::
  "'f f64_ops \<Rightarrow> 'f \<Rightarrow> pool_config \<Rightarrow> ('x db_error + pool_opts) option" where
  "engine_pool_options fl draw c =
     map_option (pool_options c) (lifetime_with_jitter fl draw (pc_conn_max_lifetime c))"

definition db_connect ::
  "'f f64_ops \<Rightarrow> 'f \<Rightarrow> (pool_opts \<Rightarrow> string \<Rightarrow> 'x + 'pool) \<Rightarrow> pool_config
     \<Rightarrow> ('x db_error + 'pool) option" where
  "db_connect fl draw connect c =
     (case pc_dsn c of
        None \<Rightarrow> Some (Err Missing_Dsn)
      | Some dsn \<Rightarrow>
          map_option
            (\<lambda>r. and_then r (\<lambda>opts.
               case connect opts dsn of Inl e \<Rightarrow> Err (Sqlx e) | Inr p \<Rightarrow> Ok p))
            (engine_pool_options fl draw c))"

subsection \<open>What the environment can give\<close>

lemma env_int_positive_bounds:
  "0 < dflt \<Longrightarrow> dflt \<le> i64_max \<Longrightarrow>
     0 < env_int_positive env key dflt \<and> env_int_positive env key dflt \<le> i64_max"
  using parse_i64_bounds
  by (auto simp: env_int_positive_def split: option.splits)

lemma minutes_exact:
  assumes "0 < n" "n \<le> i64_max"
  shows "minutes n = from_secs (min u64_max (nat n * 60))"
  using assms by (simp add: minutes_def u64_try_from_def i64_max_def u64_max_def sat_mul_u64_def)

lemma minutes_pos: "0 < n \<Longrightarrow> n \<le> i64_max \<Longrightarrow> 0 < minutes n"
  by (simp add: minutes_exact from_secs_def u64_max_def)

lemma default_minutes:
  "duration_minutes (from_secs 1800) = 30" "duration_minutes (from_secs 300) = 5"
  by (simp_all add: duration_minutes_def as_secs_def from_secs_def
      i64_try_from_def i64_max_def)

lemma pool_from_env_bounds:
  "0 < pc_max_open_conns (pool_from_env env p)" "pc_max_open_conns (pool_from_env env p) \<le> i64_max"
  "0 < pc_max_idle_conns (pool_from_env env p)" "0 < pc_conn_max_idle_time (pool_from_env env p)"
  "0 < pc_conn_max_lifetime (pool_from_env env p)"
proof -
  have "15 \<le> i64_max" "30 \<le> i64_max" "5 \<le> i64_max" by (simp_all add: i64_max_def)
  then show "0 < pc_max_open_conns (pool_from_env env p)"
    "pc_max_open_conns (pool_from_env env p) \<le> i64_max"
    "0 < pc_max_idle_conns (pool_from_env env p)" "0 < pc_conn_max_idle_time (pool_from_env env p)"
    "0 < pc_conn_max_lifetime (pool_from_env env p)"
    using env_int_positive_bounds [of 15 env] env_int_positive_bounds [of 30 env]
      env_int_positive_bounds [of 5 env]
    by (simp_all add: pool_from_env_def Let_def default_minutes minutes_pos pool_config_default_def)
qed

lemma env_lifetime:
  assumes "env (p @ ''_CONN_MAX_LIFETIME'') = Some (show_int n)" "0 < n" "n \<le> i64_max"
  shows "pc_conn_max_lifetime (pool_from_env env p) = from_secs (min u64_max (nat n * 60))"
  using assms parse_i64_show_int [of n]
  by (simp add: pool_from_env_def Let_def env_int_positive_def minutes_exact i64_min_def)

subsection \<open>Properties\<close>

text \<open>C32: No environment makes a pool unbounded: the options built from any environment allow at
  least one and at most \<open>u32::MAX\<close> connections, exactly the configured number, with an idle
  timeout and, for a positive jittered lifetime, a maximal lifetime; the only refusal is of a
  number of connections beyond 32 bits, and the idle limit is always between one and the maximum.\<close>

theorem pool_never_unbounded:
  "1 \<le> effective_max_idle_conns (pool_from_env env p) \<and>
   effective_max_idle_conns (pool_from_env env p) \<le> pc_max_open_conns (pool_from_env env p) \<and>
   (case pool_options (pool_from_env env p) (Suc lifetime) of
      Inl e \<Rightarrow> e = Max_Open_Overflow (pc_max_open_conns (pool_from_env env p)) \<and>
               int u32_max < pc_max_open_conns (pool_from_env env p)
    | Inr opts \<Rightarrow>
        1 \<le> po_max_connections opts \<and> po_max_connections opts \<le> u32_max \<and>
        int (po_max_connections opts) = pc_max_open_conns (pool_from_env env p) \<and>
        po_max_lifetime opts = Some (Suc lifetime) \<and>
        po_idle_timeout opts = Some (pc_conn_max_idle_time (pool_from_env env p)))"
  using pool_from_env_bounds [of env p]
  by (auto simp: pool_options_def pool_validate_def then_some_def effective_max_idle_conns_def
      split: if_splits)

text \<open>A lifetime that saturates cannot be jittered: when \<open><prefix>_CONN_MAX_LIFETIME\<close> is a
  number of minutes whose seconds exceed 64 bits, the lifetime saturates at \<open>u64::MAX\<close> seconds
  and the first draw whose jitter is a second or more makes building the options panic, with
  no error value.\<close>

theorem pool_lifetime_overflow:
  assumes "env (p @ ''_CONN_MAX_LIFETIME'') = Some (show_int n)"
    and "int u64_max < n * 60" "n \<le> i64_max"
    and "f_mul_duration fl (from_secs u64_max)
           (f_times fl (f_tenth fl) (f_clamp fl draw (f_zero fl) (f_one fl))) = Some j"
    and "from_secs 1 \<le> j"
  shows "engine_pool_options fl draw (pool_from_env env p) = None"
proof -
  have "0 < n" "u64_max < nat n * 60" using assms(2) by (simp_all add: u64_max_def)
  then have "pc_conn_max_lifetime (pool_from_env env p) = from_secs u64_max"
    using env_lifetime [of env p n] assms(1,3) by (simp add: min_def)
  with assms(4,5) show ?thesis
    by (simp add: engine_pool_options_def lifetime_with_jitter_def apply_lifetime_jitter_def
        add_duration_def from_secs_def u64_max_def duration_max_def)
qed

definition demo_f64 :: "nat f64_ops" where
  "demo_f64 = \<lparr>f_zero = 0, f_one = 10, f_tenth = 1, f_clamp = (\<lambda>x lo hi. max lo (min hi x)),
     f_times = (*), f_mul_duration = (\<lambda>d x. Some (d * x div 100))\<rparr>"

theorem pool_lifetime_overflow_witness:
  "engine_pool_options demo_f64 5
     (pool_from_env [''DB_CONN_MAX_LIFETIME'' \<mapsto> show_int (10 ^ 18)] ''DB'') = None"
  by (rule pool_lifetime_overflow [where n = "10 ^ 18" and j = "from_secs u64_max * 5 div 100"])
    (simp_all add: demo_f64_def u64_max_def i64_max_def from_secs_def)

end
