(* ===== verification/PcSentry.thy ===== *)
theory PcSentry
  imports PcLog
begin

section \<open>pc-sentry: initialisation and the log hook\<close>

text \<open>
  \<open>crates/pc-sentry/src/lib.rs\<close>. The current hub of the \<open>sentry\<close> crate is the client's options,
  when a client is bound, and the list of what was captured: each capture with the level of the
  scope it was made in and the breadcrumb added to that scope (\<open>with_scope\<close> drops the scope
  afterwards, so no breadcrumb outlives its record). Binding, flushing and sending are the
  crate's. A sample rate is an opaque \<open>f32\<close>; parsing it and the DSN are parameters.
\<close>

definition default_func :: string where
  "default_func = ''paycloud-be-func''"

definition default_exception_type :: string where
  "default_exception_type = ''Log''"

definition breadcrumb_depth :: nat where
  "breadcrumb_depth = 5"

definition breadcrumb_depth_receive_log :: nat where
  "breadcrumb_depth_receive_log = 10"

record sentry_data =
  sd_service :: string
  sd_module :: string
  sd_function :: string

definition sentry_data_map :: "sentry_data \<Rightarrow> string \<rightharpoonup> string" where
  "sentry_data_map d =
     [''service'' \<mapsto> sd_service d, ''module'' \<mapsto> sd_module d, ''function'' \<mapsto> sd_function d]"

record 'f sentry_options =
  so_dsn :: string
  so_environment :: string
  so_release :: string
  so_traces_sample_rate :: 'f
  so_debug :: bool
  so_data :: "sentry_data option"

definition sentry_options_default :: "'f \<Rightarrow> 'f sentry_options" where
  "sentry_options_default default_rate =
     \<lparr>so_dsn = [], so_environment = [], so_release = [], so_traces_sample_rate = default_rate,
      so_debug = False, so_data = None\<rparr>"

definition sentry_options_from_env ::
  "(string \<Rightarrow> 'f option) \<Rightarrow> 'f \<Rightarrow> environment \<Rightarrow> identity \<Rightarrow> 'f sentry_options" where
  "sentry_options_from_env parse_f32 default_rate env ident =
     \<lparr>so_dsn = unwrap_or (env ''SENTRY_DSN'') [],
      so_environment =
        (case env ''SENTRY_ENVIRONMENT'' of
           None \<Rightarrow> app_env_raw ident
         | Some v \<Rightarrow> if v = [] then app_env_raw ident else v),
      so_release = unwrap_or (env ''SENTRY_RELEASE'') [],
      so_traces_sample_rate =
        (case env ''SENTRY_TRACES_SAMPLE_RATE'' of
           None \<Rightarrow> default_rate
         | Some v \<Rightarrow> unwrap_or (parse_f32 (trim v)) default_rate),
      so_debug =
        (to_ascii_lowercase (trim (unwrap_or (env ''SENTRY_DEBUG'') []))
           \<in> {''1'', ''true'', ''yes'', ''on''}),
      so_data = None\<rparr>"

subsection \<open>The hub\<close>

datatype sentry_level = S_Debug | S_Info | S_Warning | S_Error | S_Fatal

record ('d, 'f) client_options =
  co_dsn :: "'d option"
  co_environment :: "string option"
  co_release :: "string option"
  co_traces_rate :: 'f
  co_debug :: bool
  co_attach_stacktrace :: bool
  co_max_breadcrumbs :: nat

record breadcrumb =
  bc_type :: string
  bc_category :: string
  bc_message :: string
  bc_level :: sentry_level
  bc_data :: "string \<rightharpoonup> string"

text \<open>An event of one exception (type and value), or a plain message.\<close>

datatype captured =
  Captured_Event sentry_level string "string \<times> string"
| Captured_Message sentry_level string

record capture =
  cp_scope_level :: sentry_level
  cp_breadcrumb :: "breadcrumb option"
  cp_captured :: captured

record ('d, 'f) sentry_state =
  ss_client :: "('d, 'f) client_options option"
  ss_data :: "sentry_data option"
  ss_captures :: "capture list"

definition set_sentry_data :: "sentry_data \<Rightarrow> ('d, 'f) sentry_state \<Rightarrow> ('d, 'f) sentry_state" where
  "set_sentry_data d st = st\<lparr>ss_data := Some d\<rparr>"

definition sentry_data_of :: "('d, 'f) sentry_state \<Rightarrow> sentry_data option" where
  "sentry_data_of st = ss_data st"

definition sentry_enabled :: "('d, 'f) sentry_state \<Rightarrow> bool" where
  "sentry_enabled st \<longleftrightarrow> ss_client st \<noteq> None"

definition opt_cow :: "string \<Rightarrow> string option" where
  "opt_cow s = (if s = [] then None else Some s)"

definition overlay :: "string \<Rightarrow> string \<Rightarrow> string" where
  "overlay given current = (if given \<noteq> [] then given else current)"

definition seed_data :: "identity \<Rightarrow> sentry_data option \<Rightarrow> sentry_data" where
  "seed_data ident overrides =
     (let d = \<lparr>sd_service = app_name ident, sd_module = app_env_raw ident,
               sd_function = default_func\<rparr>
      in case overrides of
           None \<Rightarrow> d
         | Some o' \<Rightarrow>
             \<lparr>sd_service = overlay (sd_service o') (sd_service d),
              sd_module = overlay (sd_module o') (sd_module d),
              sd_function = overlay (sd_function o') (sd_function d)\<rparr>)"

text \<open>\<open>init\<close> installs the hook in the logger before it looks at the DSN; the flag stands for the
  guard it returns. \<open>hook\<close> is the logger's name for \<open>receive_log\<close>. \<open>fill\<close> is what \<open>sentry::init\<close> does
  to the options before it binds the client: it gives those left unset their defaults.\<close>

definition sentry_init ::
  "(('d, 'f) client_options \<Rightarrow> ('d, 'f) client_options) \<Rightarrow> (string \<Rightarrow> 'd option) \<Rightarrow> environment \<Rightarrow> identity \<Rightarrow> 'h \<Rightarrow> 'f sentry_options
     \<Rightarrow> 'h log_state \<times> ('d, 'f) sentry_state \<Rightarrow> bool \<times> 'h log_state \<times> ('d, 'f) sentry_state" where
  "sentry_init fill parse_dsn env ident hook options st =
     (let log = configure_log_forwarding env hook (fst st) in
      if so_dsn options = [] then (False, log, snd st)
      else
        (True, log,
         set_sentry_data (seed_data ident (so_data options))
           ((snd st)\<lparr>ss_client := Some (fill
              \<lparr>co_dsn = parse_dsn (so_dsn options), co_environment = opt_cow (so_environment options),
               co_release = opt_cow (so_release options),
               co_traces_rate = so_traces_sample_rate options, co_debug = so_debug options,
               co_attach_stacktrace = False,
               co_max_breadcrumbs = breadcrumb_depth_receive_log\<rparr>)\<rparr>)))"

subsection \<open>Titles and levels\<close>

definition issue_title :: "string \<Rightarrow> string \<Rightarrow> string" where
  "issue_title func env = ''['' @ func @ ''] [env='' @ env @ '']''"

definition exception_value :: "string \<Rightarrow> string \<Rightarrow> string" where
  "exception_value level msg = ''['' @ level @ ''] '' @ msg"

definition extract_log_prefix :: "string \<Rightarrow> string \<times> string" where
  "extract_log_prefix message =
     (let msg = trim message;
          none = (default_exception_type, msg)
      in case strip_prefix ''['' msg of
           None \<Rightarrow> none
         | Some rest \<Rightarrow>
             (case split_once '']'' rest of
                None \<Rightarrow> none
              | Some (ex_type, after) \<Rightarrow>
                  if 1 \<le> length ex_type then (ex_type, trim after) else none))"

definition sentry_level_for :: "string \<Rightarrow> sentry_level" where
  "sentry_level_for level =
     (if level = ''fatal'' then S_Fatal
      else if level = ''error'' then S_Error
      else if level = ''warn'' then S_Warning
      else if level = ''info'' then S_Info
      else S_Debug)"

definition resolve_env :: "identity \<Rightarrow> ('d, 'f) sentry_state \<Rightarrow> string" where
  "resolve_env ident st =
     (case ss_client st of
        None \<Rightarrow> app_env_raw ident
      | Some c \<Rightarrow>
          (case co_environment c of
             None \<Rightarrow> app_env_raw ident
           | Some env \<Rightarrow> if env \<noteq> [] then env else app_env_raw ident))"

subsection \<open>The hook\<close>

definition receive_log ::
  "identity \<Rightarrow> string \<Rightarrow> string \<Rightarrow> ('d, 'f) sentry_state \<Rightarrow> ('d, 'f) sentry_state" where
  "receive_log ident level message st =
     (if ss_client st = None then st
      else
        (let sl = sentry_level_for level;
             crumb = map_option
               (\<lambda>d. \<lparr>bc_type = ''default'', bc_category = level, bc_message = message, bc_level = sl,
                     bc_data = sentry_data_map d\<rparr>) (sentry_data_of st);
             what =
               (if level = ''error'' \<or> level = ''fatal'' then
                  (let (ex_type, ex_value) = extract_log_prefix message;
                       env = resolve_env ident st
                   in Captured_Event sl message
                        (issue_title ex_type env, exception_value level ex_value))
                else Captured_Message sl message)
         in st\<lparr>ss_captures := ss_captures st @
                 [\<lparr>cp_scope_level = sl, cp_breadcrumb = crumb, cp_captured = what\<rparr>]\<rparr>))"

text \<open>The hook runs inside \<open>forward\<close>, once for each line the logger forwards.\<close>

definition deliver ::
  "identity \<Rightarrow> ('h \<times> string \<times> string) list \<Rightarrow> ('d, 'f) sentry_state \<Rightarrow> ('d, 'f) sentry_state" where
  "deliver ident lines st = fold (\<lambda>(h, level, text). receive_log ident level text) lines st"

subsection \<open>What becomes of a log line\<close>

lemma trim_space: "trim ('' '' @ s) = trim s"
  by (simp add: trim_def trim_start.simps [of "CHR '' '' # s"] ws1_def)

lemma trim_bracketed: "trim (''['' @ f @ '']'' @ s) = ''['' @ f @ '']'' @ trim_end s"
proof -
  have "trim_start (''['' @ f @ '']'' @ s) = ''['' @ f @ '']'' @ s"
    by (rule trim_start_id) (auto simp: ws1_def ws2_def ws3_def split: list.splits)
  moreover have "trim_end (''['' @ f @ '']'' @ s) = ''['' @ f @ '']'' @ trim_end s"
  proof (cases "trim_end s = []")
    case True
    have "trim_rev (rev (''['' @ f @ '']'')) = rev (''['' @ f @ '']'')"
      by (rule trim_rev_id) (auto simp: ws1_def ws2_def ws3_def split: list.splits)
    with True trim_end_app(1) [of s "''['' @ f @ '']''"] show ?thesis by (simp add: trim_end_def)
  next
    case False
    with trim_end_app(2) [of "CHR '']''" s "''['' @ f"] show ?thesis by simp
  qed
  ultimately show ?thesis by (simp add: trim_def)
qed

lemma extract_bracketed:
  assumes "f \<noteq> []" "CHR '']'' \<notin> set f"
  shows "extract_log_prefix (''['' @ f @ '']'' @ s) = (f, trim s)"
  using assms split_once_char_hit [of "CHR '']''" f "trim_end s"]
  unfolding extract_log_prefix_def trim_bracketed Let_def
  by (cases f) (simp_all add: strip_prefix_def starts_with_def)

lemma resolve_env_init:
  "resolve_env ident (set_sentry_data d (s\<lparr>ss_client := Some c\<rparr>)) =
     (case co_environment c of None \<Rightarrow> app_env_raw ident
      | Some env \<Rightarrow> if env \<noteq> [] then env else app_env_raw ident)"
  by (simp add: resolve_env_def set_sentry_data_def)



subsection \<open>Properties\<close>

text \<open>C23: From a log line to an issue: after \<open>init\<close> with a DSN, a line logged at any level under a
  bracketed prefix (the helper's \<open>[pchelper.Fn]\<close> or a context's \<open>[k=v] \<close>) is handed to the Sentry client
  exactly when forwarding of its level is on; a line that is becomes one capture at the matching level
  with the breadcrumb of the seeded service data; an error or fatal line becomes an exception
  titled by the bracket's text and the environment, whose value is the level and the trimmed message,
  and any other level a plain message.  The environment is the one in the options; where they leave
  it empty, it is the one \<open>sentry::init\<close> puts in (\<open>SENTRY_ENVIRONMENT\<close>, else a name fixed by the build),
  and \<open>APP_ENV\<close> only when that is empty.  Assumed of \<open>sentry::init\<close> is that it keeps an environment
  that is set, and fills in an unset one so.\<close>

theorem log_line_to_issue:
  assumes "f \<noteq> []" "CHR '']'' \<notin> set f" "sp \<in> {'''', '' ''}" "so_dsn options \<noteq> []"
    and keeps: "\<And>c v. co_environment c = Some v \<Longrightarrow> co_environment (fill c) = Some v"
    and fills: "\<And>c. co_environment c = None \<Longrightarrow>
      co_environment (fill c) = Some (unwrap_or (env ''SENTRY_ENVIRONMENT'') build_env)"
  shows "let (on, log, st) = sentry_init fill parse_dsn env ident hook options (log0, st0);
      p = ''['' @ f @ '']'' @ sp;
      log' = pc_emit l p m log;
      st' = deliver ident (drop (length (ls_forwarded log)) (ls_forwarded log')) st;
      level = level_name l; text = forward_text p m;
      crate_env = unwrap_or (env ''SENTRY_ENVIRONMENT'') build_env;
      e = (if so_environment options \<noteq> [] then so_environment options
           else if crate_env \<noteq> [] then crate_env else app_env_raw ident)
    in on \<and> ss_captures st' = ss_captures st0 @
      (if env_enabled env (fst (level_switch l)) (snd (level_switch l)) then
         [\<lparr>cp_scope_level = sentry_level_for level,
           cp_breadcrumb = Some \<lparr>bc_type = ''default'', bc_category = level, bc_message = text,
             bc_level = sentry_level_for level,
             bc_data = sentry_data_map (seed_data ident (so_data options))\<rparr>,
           cp_captured =
             (if l \<in> {LError, LFatal}
              then Captured_Event (sentry_level_for level) text
                     (''['' @ f @ ''] [env='' @ e @ '']'', ''['' @ level @ ''] '' @ trim m)
              else Captured_Message (sentry_level_for level) text)\<rparr>]
       else [])"
proof -
  have "forward_text (''['' @ f @ '']'' @ sp) m = ''['' @ f @ '']'' @ (if m = [] then sp else sp @ '' '' @ m)"
    by (simp add: forward_text_def)
  moreover have "trim (if m = [] then sp else sp @ '' '' @ m) = trim m"
    using assms(3) trim_space [of m] trim_space [of "'' '' @ m"] trim_space [of "[]"] by auto
  ultimately have "extract_log_prefix (forward_text (''['' @ f @ '']'' @ sp) m) = (f, trim m)"
    using extract_bracketed [OF assms(1,2)] by (simp only:)
  then show ?thesis
    using assms(4) forward_bit [of env l]
    by (cases l)
      (simp_all add: sentry_init_def Let_def pc_emit_forwarded configure_log_forwarding_def forward_bit
        deliver_def receive_log_def sentry_data_of_def set_sentry_data_def resolve_env_def opt_cow_def
        keeps fills issue_title_def exception_value_def del: append.simps)
qed

text \<open>Defaults as \<open>sentry::init\<close> documents them, for a release build.\<close>

definition demo_fill :: "environment \<Rightarrow> ('d, 'f) client_options \<Rightarrow> ('d, 'f) client_options" where
  "demo_fill env c =
     (case co_environment c of
        Some v \<Rightarrow> c
      | None \<Rightarrow> c\<lparr>co_environment := Some (unwrap_or (env ''SENTRY_ENVIRONMENT'') ''production'')\<rparr>)"

theorem log_line_to_issue_witness:
  "let (on, log, st) = sentry_init (demo_fill Map.empty) (\<lambda>s. Some ()) Map.empty identity_init ()
         ((sentry_options_default ())\<lparr>so_dsn := ''d''\<rparr>)
         (log_initial, \<lparr>ss_client = None, ss_data = None, ss_captures = []\<rparr>);
       log' = pc_emit LError ''[pchelper.Pay]'' ''refused'' log;
       st' = deliver identity_init (drop (length (ls_forwarded log)) (ls_forwarded log')) st
   in map cp_captured (ss_captures st') =
     [Captured_Event S_Error ''[pchelper.Pay] refused''
        (''[pchelper.Pay] [env=production]'', ''[error] refused'')]"
proof -
  have "trim ''refused'' = ''refused''"
    by (simp add: trim_def trim_start_id trim_end_def trim_rev_id ws1_def ws2_def ws3_def)
  moreover have "co_environment c = Some v \<Longrightarrow> co_environment (demo_fill Map.empty c) = Some v"
    "co_environment c = None \<Longrightarrow> co_environment (demo_fill Map.empty c) =
       Some (unwrap_or (Map.empty ''SENTRY_ENVIRONMENT'') ''production'')"
    for c :: "(unit, unit) client_options" and v
    by (simp_all add: demo_fill_def)
  ultimately show ?thesis
    using log_line_to_issue [of "''pchelper.Pay''" "''''"
      "(sentry_options_default ())\<lparr>so_dsn := ''d''\<rparr>" "demo_fill Map.empty" Map.empty "''production''"
      "\<lambda>s. Some ()" identity_init "()" log_initial
      "\<lparr>ss_client = None, ss_data = None, ss_captures = []\<rparr>" LError "''refused''"]
    by (simp add: Let_def split_beta env_enabled_def sentry_level_for_def forward_text_def
        sentry_options_default_def)
qed

end
