(* ===== verification/PcTrace.thy ===== *)
theory PcTrace
  imports PcCore
begin

section \<open>pc-trace: configuration, start-up, carriers and histograms\<close>

text \<open>
  \<open>crates/pc-trace/src\<close>. A double is an opaque value with the operations of \<open>floats\<close>; a float
  literal is read from its source text. The OpenTelemetry SDK is the record \<open>otel\<close>: building an
  exporter and shutting a provider down may fail, and a propagator turns a context into
  header entries and back. A provider is the settings it was built with.
\<close>

record 'f floats =
  fl_parse :: "string \<Rightarrow> 'f option"
  fl_literal :: "string \<Rightarrow> 'f"
  fl_is_zero :: "'f \<Rightarrow> bool"
  fl_negative :: "'f \<Rightarrow> bool"
  fl_finite :: "'f \<Rightarrow> bool"
  fl_in_unit :: "'f \<Rightarrow> bool"
  fl_times :: "'f \<Rightarrow> 'f \<Rightarrow> 'f"
  fl_try_from_secs :: "'f \<Rightarrow> duration option"
  fl_of_nat :: "nat \<Rightarrow> 'f"

subsection \<open>Names of fields\<close>

text \<open>The module \<open>fields\<close>: the names a span or a log line carries its keys under.\<close>

definition field_names :: "string list" where
  "field_names =
     [''trace_id'', ''span_id'', ''ticket_id'', ''reff_no'', ''merchant_id'', ''order_id'', ''trx_id'',
      ''trx_no'', ''service'', ''route'', ''vendor'']"

subsection \<open>Reading the environment\<close>

definition trimmed_env :: "environment \<Rightarrow> string \<Rightarrow> string" where
  "trimmed_env env key = trim (unwrap_or (env key) [])"

fun first_non_empty :: "string list \<Rightarrow> string" where
  "first_non_empty [] = []"
| "first_non_empty (v # vals) = (if trim v \<noteq> [] then trim v else first_non_empty vals)"

definition truthy :: "string \<Rightarrow> bool" where
  "truthy v \<longleftrightarrow>
     to_ascii_lowercase (trim v) \<in> {''1'', ''t'', ''true'', ''y'', ''yes'', ''on''}"

definition trace_env_bool :: "environment \<Rightarrow> string \<Rightarrow> bool \<Rightarrow> bool" where
  "trace_env_bool env key def =
     (let v = trimmed_env env key in if v = [] then def else truthy v)"

definition trace_env_int :: "environment \<Rightarrow> string \<Rightarrow> nat \<Rightarrow> nat" where
  "trace_env_int env key def =
     (let v = trimmed_env env key in if v = [] then def else unwrap_or (parse_uint u64_max v) def)"

definition trace_env_float :: "'f floats \<Rightarrow> environment \<Rightarrow> string \<Rightarrow> 'f \<Rightarrow> 'f" where
  "trace_env_float fl env key def =
     (let v = trimmed_env env key in if v = [] then def else unwrap_or (fl_parse fl v) def)"

definition strip_suffix :: "string \<Rightarrow> string \<Rightarrow> string option" where
  "strip_suffix p s = map_option rev (strip_prefix (rev p) (rev s))"

definition duration_units :: "(string \<times> string) list" where
  "duration_units =
     [(''ns'', ''1e-9''), (''us'', ''1e-6''), (''ms'', ''1e-3''), (''s'', ''1.0''), (''m'', ''60.0''),
      (''h'', ''3600.0'')]"

fun parse_unit :: "'f floats \<Rightarrow> string \<Rightarrow> (string \<times> string) list \<Rightarrow> duration option" where
  "parse_unit fl s [] = None"
| "parse_unit fl s ((unit, seconds_per_unit) # units) =
     (case strip_suffix unit s of
        None \<Rightarrow> parse_unit fl s units
      | Some num \<Rightarrow>
          (case fl_parse fl (trim num) of
             None \<Rightarrow> None
           | Some value \<Rightarrow>
               if fl_negative fl value \<or> \<not> fl_finite fl value then None
               else fl_try_from_secs fl (fl_times fl value (fl_literal fl seconds_per_unit))))"

definition parse_go_duration :: "'f floats \<Rightarrow> string \<Rightarrow> duration option" where
  "parse_go_duration fl s = parse_unit fl (trim s) duration_units"

definition trace_env_duration :: "'f floats \<Rightarrow> environment \<Rightarrow> string \<Rightarrow> duration \<Rightarrow> duration" where
  "trace_env_duration fl env key def =
     (let v = trimmed_env env key in if v = [] then def else unwrap_or (parse_go_duration fl v) def)"

definition resource_attr :: "string \<Rightarrow> (string \<rightharpoonup> string) \<Rightarrow> (string \<rightharpoonup> string)" where
  "resource_attr kv out =
     (case split_once ''='' (trim kv) of
        None \<Rightarrow> out
      | Some (k, v) \<Rightarrow> if trim k \<noteq> [] then out(trim k \<mapsto> trim v) else out)"

definition parse_resource_attrs :: "string \<Rightarrow> (string \<rightharpoonup> string)" where
  "parse_resource_attrs raw =
     (if trim raw = [] then Map.empty else fold resource_attr (split_on (CHR '','') raw) Map.empty)"

subsection \<open>Configuration\<close>

record 'f trace_config =
  tc_enabled :: bool
  tc_service_name :: string
  tc_service_version :: string
  tc_environment :: string
  tc_endpoint :: string
  tc_insecure :: bool
  tc_sampling_ratio :: 'f
  tc_dial_timeout :: duration
  tc_batch_timeout :: duration
  tc_batch_max_export_size :: nat
  tc_metric_export_interval :: duration
  tc_resource_attributes :: "string \<rightharpoonup> string"

definition trace_config_from_env :: "'f floats \<Rightarrow> environment \<Rightarrow> 'f trace_config" where
  "trace_config_from_env fl env =
     (let endpoint = trimmed_env env ''OTEL_EXPORTER_OTLP_ENDPOINT'';
          switch = trimmed_env env ''OTEL_ENABLED''
      in \<lparr>tc_enabled = (if switch \<noteq> [] then truthy switch else endpoint \<noteq> []),
          tc_service_name = trimmed_env env ''OTEL_SERVICE_NAME'',
          tc_service_version = trimmed_env env ''OTEL_SERVICE_VERSION'',
          tc_environment = first_non_empty
            [unwrap_or (env ''OTEL_DEPLOYMENT_ENV'') [], unwrap_or (env ''APP_ENV'') [], ''dev''],
          tc_endpoint = endpoint,
          tc_insecure = trace_env_bool env ''OTEL_EXPORTER_OTLP_INSECURE'' True,
          tc_sampling_ratio = trace_env_float fl env ''OTEL_TRACES_SAMPLER_ARG'' (fl_literal fl ''1.0''),
          tc_dial_timeout = trace_env_duration fl env ''OTEL_DIAL_TIMEOUT'' (from_secs 5),
          tc_batch_timeout = trace_env_duration fl env ''OTEL_BATCH_TIMEOUT'' (from_secs 5),
          tc_batch_max_export_size = trace_env_int env ''OTEL_BATCH_MAX_EXPORT_SIZE'' 512,
          tc_metric_export_interval =
            trace_env_duration fl env ''OTEL_METRIC_EXPORT_INTERVAL'' (from_secs 15),
          tc_resource_attributes =
            parse_resource_attrs (trimmed_env env ''OTEL_RESOURCE_ATTRIBUTES'')\<rparr>)"

definition with_defaults :: "'f floats \<Rightarrow> 'f trace_config \<Rightarrow> 'f trace_config" where
  "with_defaults fl c =
     (let c1 = (if tc_dial_timeout c = 0 then c\<lparr>tc_dial_timeout := from_secs 5\<rparr> else c);
          c2 = (if tc_batch_timeout c1 = 0 then c1\<lparr>tc_batch_timeout := from_secs 5\<rparr> else c1);
          c3 = (if tc_batch_max_export_size c2 = 0 then c2\<lparr>tc_batch_max_export_size := 512\<rparr> else c2);
          c4 = (if tc_metric_export_interval c3 = 0
                then c3\<lparr>tc_metric_export_interval := from_secs 15\<rparr> else c3);
          c5 = (if fl_is_zero fl (tc_sampling_ratio c4)
                then c4\<lparr>tc_sampling_ratio := fl_literal fl ''1.0''\<rparr> else c4)
      in if tc_environment c5 = [] then c5\<lparr>tc_environment := ''dev''\<rparr> else c5)"

subsection \<open>Start-up and shutdown\<close>

record exporter_spec =
  ex_endpoint :: string
  ex_timeout :: duration
  ex_grpc :: bool

text \<open>The resource of a provider: three attributes, then the configured ones. The span provider
  samples by ratio below a parent's decision, the metric one reads periodically.\<close>

record 'f tracer_spec =
  tr_exporter :: exporter_spec
  tr_resource :: "(string \<times> string) list \<times> (string \<rightharpoonup> string)"
  tr_ratio :: 'f

record meter_spec =
  mt_exporter :: exporter_spec
  mt_resource :: "(string \<times> string) list \<times> (string \<rightharpoonup> string)"
  mt_interval :: duration

datatype signal = Spans | Metrics

record ('f, 'x) otel =
  ot_build :: "signal \<Rightarrow> exporter_spec \<Rightarrow> 'x option"
  ot_shutdown_tracer :: "'f tracer_spec \<Rightarrow> string option"
  ot_shutdown_meter :: "meter_spec \<Rightarrow> string option"

record 'f trace_guard =
  tg_tracer :: "'f tracer_spec option"
  tg_meter :: "meter_spec option"

text \<open>\<open>ENABLED\<close> and the globals that \<open>build_pipeline\<close> installs.\<close>

record 'f trace_state =
  ts_enabled :: bool
  ts_tracer :: "'f tracer_spec option"
  ts_meter :: "meter_spec option"
  ts_propagator :: bool

datatype 'x trace_error =
  Empty_Service_Name
| Empty_Endpoint
| Ratio_Out_Of_Range
| Zero_Dial_Timeout
| Exporter_Failed signal 'x

definition guard_disabled :: "'f trace_guard" where
  "guard_disabled = \<lparr>tg_tracer = None, tg_meter = None\<rparr>"

definition is_enabled :: "'f trace_state \<Rightarrow> bool" where
  "is_enabled st = ts_enabled st"

definition ensure_required :: "'f floats \<Rightarrow> 'f trace_config \<Rightarrow> 'x trace_error + unit" where
  "ensure_required fl c =
     (if tc_service_name c = [] then Err Empty_Service_Name
      else if tc_endpoint c = [] then Err Empty_Endpoint
      else if \<not> fl_in_unit fl (tc_sampling_ratio c) then Err Ratio_Out_Of_Range
      else if tc_dial_timeout c = 0 then Err Zero_Dial_Timeout
      else Ok ())"

definition exporter_of :: "'f trace_config \<Rightarrow> exporter_spec" where
  "exporter_of c = \<lparr>ex_endpoint = tc_endpoint c, ex_timeout = tc_dial_timeout c, ex_grpc = tc_insecure c\<rparr>"

definition resource_of :: "'f trace_config \<Rightarrow> (string \<times> string) list \<times> (string \<rightharpoonup> string)" where
  "resource_of c =
     ([(''service.name'', tc_service_name c), (''service.version'', tc_service_version c),
       (''deployment.environment'', tc_environment c)], tc_resource_attributes c)"

definition build_pipeline ::
  "('f, 'x) otel \<Rightarrow> 'f trace_config \<Rightarrow> 'f trace_state
     \<Rightarrow> ('x trace_error + 'f trace_guard) \<times> 'f trace_state" where
  "build_pipeline ot c st =
     (let ex = exporter_of c in
      case ot_build ot Spans ex of
        Some e \<Rightarrow> (Err (Exporter_Failed Spans e), st)
      | None \<Rightarrow>
          (let tracer = \<lparr>tr_exporter = ex, tr_resource = resource_of c, tr_ratio = tc_sampling_ratio c\<rparr>
           in case ot_build ot Metrics ex of
                Some e \<Rightarrow> (Err (Exporter_Failed Metrics e), st)
              | None \<Rightarrow>
                  (let meter = \<lparr>mt_exporter = ex, mt_resource = resource_of c,
                                mt_interval = tc_metric_export_interval c\<rparr>
                   in (Ok \<lparr>tg_tracer = Some tracer, tg_meter = Some meter\<rparr>,
                       st\<lparr>ts_tracer := Some tracer, ts_meter := Some meter, ts_propagator := True\<rparr>))))"

definition trace_init ::
  "'f floats \<Rightarrow> ('f, 'x) otel \<Rightarrow> 'f trace_config \<Rightarrow> 'f trace_state
     \<Rightarrow> ('x trace_error + 'f trace_guard) \<times> 'f trace_state" where
  "trace_init fl ot cfg st =
     (let c = with_defaults fl cfg in
      if \<not> tc_enabled c then (Ok guard_disabled, st)
      else
        (case ensure_required fl c of
           Inl e \<Rightarrow> (Err e, st)
         | Inr u \<Rightarrow>
             (case build_pipeline ot c st of
                (Inl e, st') \<Rightarrow> (Err e, st')
              | (Inr g, st') \<Rightarrow> (Ok g, st'\<lparr>ts_enabled := True\<rparr>))))"

definition trace_init_from_env ::
  "'f floats \<Rightarrow> ('f, 'x) otel \<Rightarrow> environment \<Rightarrow> 'f trace_state
     \<Rightarrow> ('x trace_error + 'f trace_guard) \<times> 'f trace_state" where
  "trace_init_from_env fl ot env st = trace_init fl ot (trace_config_from_env fl env) st"

text \<open>\<open>shutdown\<close> takes the providers out of the guard, so only the first one does work; the
  messages of the failures are joined. \<open>drop\<close> is \<open>shutdown\<close> with the result ignored.\<close>

definition trace_shutdown ::
  "('f, 'x) otel \<Rightarrow> 'f trace_guard \<Rightarrow> 'f trace_state
     \<Rightarrow> (string + unit) \<times> 'f trace_guard \<times> 'f trace_state" where
  "trace_shutdown ot g st =
     (let failed = (\<lambda>who r. case r of Some e \<Rightarrow> [who @ '' shutdown: '' @ e] | None \<Rightarrow> []);
          errs1 = (case tg_tracer g of None \<Rightarrow> [] | Some t \<Rightarrow> failed ''tracer'' (ot_shutdown_tracer ot t));
          errs = errs1 @
            (case tg_meter g of None \<Rightarrow> [] | Some m \<Rightarrow> failed ''meter'' (ot_shutdown_meter ot m))
      in (if errs = [] then Ok () else Err (join ''; '' errs), guard_disabled, st\<lparr>ts_enabled := False\<rparr>))"

text \<open>\<open>Drop for TraceGuard\<close>.\<close>

definition trace_drop :: "('f, 'x) otel \<Rightarrow> 'f trace_guard \<Rightarrow> 'f trace_state \<Rightarrow> 'f trace_state" where
  "trace_drop ot g st = (case trace_shutdown ot g st of (res, g', st') \<Rightarrow> st')"

text \<open>The flag is one for the process and every guard lowers it: dropping the empty guard of a
  disabled second start-up marks a running pipeline as off.\<close>

lemma disabled_guard_lowers_flag:
  "\<not> is_enabled (trace_drop ot guard_disabled st)"
  by (simp add: trace_drop_def trace_shutdown_def guard_disabled_def is_enabled_def Let_def)

subsection \<open>AMQP header carriers\<close>

text \<open>\<open>std::str::from_utf8\<close>.\<close>

definition cont :: "char \<Rightarrow> nat \<Rightarrow> nat \<Rightarrow> bool" where
  "cont c lo hi \<longleftrightarrow> lo \<le> code c \<and> code c \<le> hi"

definition lead3 :: "char \<Rightarrow> char \<Rightarrow> bool" where
  "lead3 a b \<longleftrightarrow>
     code a = 224 \<and> cont b 160 191 \<or> code a = 237 \<and> cont b 128 159 \<or>
     (cont a 225 236 \<or> cont a 238 239) \<and> cont b 128 191"

definition lead4 :: "char \<Rightarrow> char \<Rightarrow> bool" where
  "lead4 a b \<longleftrightarrow>
     code a = 240 \<and> cont b 144 191 \<or> cont a 241 243 \<and> cont b 128 191 \<or>
     code a = 244 \<and> cont b 128 143"

fun utf8_ok :: "bytes \<Rightarrow> bool" where
  "utf8_ok [] = True"
| "utf8_ok [a] = (code a < 128)"
| "utf8_ok (a # b # s) =
     (if code a < 128 then utf8_ok (b # s)
      else if cont a 194 223 then cont b 128 191 \<and> utf8_ok s
      else (case s of
              [] \<Rightarrow> False
            | c # t \<Rightarrow>
                if lead3 a b then cont c 128 191 \<and> utf8_ok t
                else (case t of
                        [] \<Rightarrow> False
                      | d # u \<Rightarrow> lead4 a b \<and> cont c 128 191 \<and> cont d 128 191 \<and> utf8_ok u)))"

datatype amqp_value = Long_String bytes | Short_String string | Other_Value

type_synonym field_table = "string \<rightharpoonup> amqp_value"

definition injector_set :: "string \<times> string \<Rightarrow> field_table \<Rightarrow> field_table" where
  "injector_set kv headers =
     (let (key, value) = kv in if key = [] then headers else headers(key \<mapsto> Long_String value))"

definition extractor_get :: "field_table \<Rightarrow> string \<Rightarrow> string option" where
  "extractor_get headers key =
     (case headers key of
        None \<Rightarrow> None
      | Some (Long_String v) \<Rightarrow> if utf8_ok v then Some v else None
      | Some (Short_String v) \<Rightarrow> Some v
      | Some Other_Value \<Rightarrow> None)"

definition extractor_keys :: "field_table \<Rightarrow> string set" where
  "extractor_keys headers = dom headers"

text \<open>The composite propagator: the entries \<open>inject_context\<close> sets, in order, and what
  \<open>extract_with_context\<close> makes of a carrier's \<open>get\<close> and \<open>keys\<close>.\<close>

record 'c propagator =
  pr_inject :: "'c \<Rightarrow> (string \<times> string) list"
  pr_extract :: "(string \<Rightarrow> string option) \<Rightarrow> string set \<Rightarrow> 'c"

definition inject_amqp :: "'c propagator \<Rightarrow> 'c \<Rightarrow> field_table \<Rightarrow> field_table" where
  "inject_amqp pr cx headers = fold injector_set (pr_inject pr cx) headers"

definition extract_amqp :: "'c propagator \<Rightarrow> field_table \<Rightarrow> 'c" where
  "extract_amqp pr headers = pr_extract pr (extractor_get headers) (extractor_keys headers)"

subsection \<open>Phase histograms\<close>

definition default_phase_buckets :: "string list" where
  "default_phase_buckets =
     [''5.0'', ''10.0'', ''25.0'', ''50.0'', ''100.0'', ''250.0'', ''500.0'', ''1000.0'', ''2500.0'',
      ''5000.0'', ''10000.0'']"

record 'f phase_histogram =
  ph_meter :: string
  ph_name :: string
  ph_unit :: string
  ph_description :: string
  ph_boundaries :: "'f list"

definition phase_histogram_new ::
  "'f floats \<Rightarrow> string \<Rightarrow> string \<Rightarrow> 'f list \<Rightarrow> 'f phase_histogram" where
  "phase_histogram_new fl meter_name hist_name buckets =
     \<lparr>ph_meter = meter_name, ph_name = hist_name, ph_unit = ''ms'',
      ph_description = ''QR-MPM transaction phase duration in milliseconds'',
      ph_boundaries =
        (if buckets = [] then map (fl_literal fl) default_phase_buckets else buckets)\<rparr>"

text \<open>One measurement handed to the meter: the value and its attributes.\<close>

definition phase_record ::
  "'f floats \<Rightarrow> string \<Rightarrow> duration \<Rightarrow> (string \<times> string) list \<Rightarrow> 'f \<times> (string \<times> string) list" where
  "phase_record fl phase d extra = (fl_of_nat fl (as_millis d), (''phase'', phase) # extra)"

definition phase_observe ::
  "'f floats \<Rightarrow> instant \<Rightarrow> string \<Rightarrow> (string \<times> string) list \<Rightarrow> instant
     \<Rightarrow> 'f \<times> (string \<times> string) list" where
  "phase_observe fl start phase extra now = phase_record fl phase (since now start) extra"




subsection \<open>Properties\<close>

lemma with_defaults_fields:
  "tc_enabled (with_defaults fl c) = tc_enabled c"
  "tc_service_name (with_defaults fl c) = tc_service_name c"
  "tc_endpoint (with_defaults fl c) = tc_endpoint c"
  "tc_resource_attributes (with_defaults fl c) = tc_resource_attributes c"
  "tc_sampling_ratio (with_defaults fl c) =
     (if fl_is_zero fl (tc_sampling_ratio c) then fl_literal fl ''1.0'' else tc_sampling_ratio c)"
  "0 < tc_dial_timeout (with_defaults fl c)" "0 < tc_metric_export_interval (with_defaults fl c)"
  "tc_environment (with_defaults fl c) \<noteq> []"
  by (simp_all add: with_defaults_def Let_def from_secs_def)

lemma ensure_required_Ok:
  "ensure_required fl (with_defaults fl c) = Inr u \<longleftrightarrow>
     tc_service_name c \<noteq> [] \<and> tc_endpoint c \<noteq> [] \<and>
     fl_in_unit fl (tc_sampling_ratio (with_defaults fl c))"
  using with_defaults_fields(6) [of fl c]
  by (auto simp: ensure_required_def with_defaults_fields(1-4))

text \<open>C24: Start-up is all or nothing: a disabled configuration gives an empty guard and changes
  nothing; an enabled one either fails, leaving the flag and every global provider as they were, or
  installs both providers and the propagator, raises the flag and hands both providers to the
  guard.  It succeeds exactly when service and endpoint are named, the ratio is in range and both
  exporters build; and shutting that guard down lowers the flag and empties it, so that a second
  shutdown finds nothing to do.\<close>

theorem trace_start_stop:
  "let (r, st') = trace_init fl ot cfg st;
       c = with_defaults fl cfg;
       ready = (tc_service_name cfg \<noteq> [] \<and> tc_endpoint cfg \<noteq> [] \<and>
                fl_in_unit fl (tc_sampling_ratio c) \<and>
                ot_build ot Spans (exporter_of c) = None \<and> ot_build ot Metrics (exporter_of c) = None)
   in (is_ok r = (\<not> (tc_enabled cfg \<and> \<not> ready))) \<and>
      (case r of
         Inl e \<Rightarrow> st' = st
       | Inr g \<Rightarrow>
           (if tc_enabled cfg
            then is_enabled st' \<and> ts_propagator st' \<and>
                 tg_tracer g \<noteq> None \<and> ts_tracer st' = tg_tracer g \<and>
                 tg_meter g \<noteq> None \<and> ts_meter st' = tg_meter g
            else g = guard_disabled \<and> st' = st) \<and>
           (let (res, g', st'') = trace_shutdown ot g st'
            in \<not> is_enabled st'' \<and> ts_tracer st'' = ts_tracer st' \<and>
               trace_shutdown ot g' st'' = (Ok (), g', st'')))"
  using ensure_required_Ok [of fl cfg "()"]
  by (auto simp: trace_init_def build_pipeline_def Let_def with_defaults_fields(1) guard_disabled_def
      is_enabled_def trace_shutdown_def split: sum.splits option.splits prod.splits)

text \<open>Sampling cannot be switched off by its ratio: whatever the environment holds, a started
  pipeline samples with a ratio that is not zero, because \<open>with_defaults\<close> takes an explicit
  \<open>OTEL_TRACES_SAMPLER_ARG=0\<close> for an unset field and makes it 1.\<close>

theorem sampling_never_off:
  assumes "\<not> fl_is_zero fl (fl_literal fl ''1.0'')"
    and "trace_init_from_env fl ot env st = (Ok \<lparr>tg_tracer = Some t, tg_meter = m\<rparr>, st')"
  shows "\<not> fl_is_zero fl (tr_ratio t) \<and>
    tr_ratio t = (let r = tc_sampling_ratio (trace_config_from_env fl env)
                  in if fl_is_zero fl r then fl_literal fl ''1.0'' else r)"
proof -
  have "tr_ratio t = tc_sampling_ratio (with_defaults fl (trace_config_from_env fl env))"
    using assms(2)
    by (auto simp: trace_init_from_env_def trace_init_def build_pipeline_def Let_def guard_disabled_def
        split: sum.splits option.splits prod.splits if_splits)
  with assms(1) show ?thesis by (simp add: with_defaults_fields Let_def)
qed

definition demo_floats :: "int floats" where
  "demo_floats = \<lparr>fl_parse = parse_i64, fl_literal = (\<lambda>s. if s = ''1.0'' then 1 else 60),
     fl_is_zero = (\<lambda>x. x = 0), fl_negative = (\<lambda>x. x < 0), fl_finite = (\<lambda>x. True),
     fl_in_unit = (\<lambda>x. 0 \<le> x \<and> x \<le> 1), fl_times = (*), fl_try_from_secs = (\<lambda>x. Some (from_secs (nat x))),
     fl_of_nat = int\<rparr>"

definition demo_otel :: "(int, unit) otel" where
  "demo_otel = \<lparr>ot_build = (\<lambda>s e. None), ot_shutdown_tracer = (\<lambda>t. None), ot_shutdown_meter = (\<lambda>m. None)\<rparr>"

definition demo_trace_env :: environment where
  "demo_trace_env = [''OTEL_SERVICE_NAME'' \<mapsto> ''s'', ''OTEL_EXPORTER_OTLP_ENDPOINT'' \<mapsto> ''e'',
     ''OTEL_TRACES_SAMPLER_ARG'' \<mapsto> ''0'']"

definition trace_off :: "'f trace_state" where
  "trace_off = \<lparr>ts_enabled = False, ts_tracer = None, ts_meter = None, ts_propagator = False\<rparr>"

theorem sampling_never_off_witness:
  "\<exists>t m st'. trace_init_from_env demo_floats demo_otel demo_trace_env trace_off =
       (Ok \<lparr>tg_tracer = Some t, tg_meter = m\<rparr> :: unit trace_error + _, st') \<and> tr_ratio t = 1"
proof -
  have trims: "trim ''s'' = ''s''" "trim ''e'' = ''e''" "trim ''0'' = ''0''" "trim [] = []"
    by (simp_all add: trim_def trim_start_id trim_end_def trim_rev_id ws1_def ws2_def ws3_def)
  let ?c = "trace_config_from_env demo_floats demo_trace_env"
  have c: "tc_enabled ?c" "tc_service_name ?c = ''s''" "tc_endpoint ?c = ''e''" "tc_sampling_ratio ?c = 0"
    by (simp_all add: trace_config_from_env_def Let_def trimmed_env_def demo_trace_env_def trims
        trace_env_float_def demo_floats_def parse_i64_def parse_uint_def read_dec_def is_digit_def
        digit_val_def i64_max_def)
  obtain u where req: "ensure_required demo_floats (with_defaults demo_floats ?c) = (Inr u :: unit trace_error + unit)"
    using ensure_required_Ok [of demo_floats ?c "()", where 'a = unit] c
    by (auto simp: with_defaults_fields(5) demo_floats_def)
  then obtain t m st' where run: "trace_init_from_env demo_floats demo_otel demo_trace_env trace_off =
      (Ok \<lparr>tg_tracer = Some t, tg_meter = m\<rparr> :: unit trace_error + _, st')"
    using c by (auto simp: trace_init_from_env_def trace_init_def build_pipeline_def Let_def
        with_defaults_fields(1) demo_otel_def)
  with sampling_never_off [OF _ run] c show ?thesis by (auto simp: demo_floats_def)
qed

text \<open>C34: The carriers lose and add nothing: seen as text, a header table after \<open>inject_amqp\<close> is the
  table before, overwritten by what the propagator set, last value first, whatever other headers, of
  whatever types, it holds, and these are untouched.  So on a table in which none of the propagator's
  fields can be read, \<open>extract_amqp\<close> gives the context that the propagator reads from a carrier with
  exactly the entries it set; in any other table, the fields it did not set keep their old values.
  Assumed of the propagator is that it sets non-empty keys to UTF-8 text and that extraction looks
  at nothing but its fields.\<close>

theorem carrier_roundtrip:
  assumes "[] \<notin> fst ` set (pr_inject pr cx)" "list_all utf8_ok (map snd (pr_inject pr cx))"
    and extracts: "\<And>get get' ks ks'. (\<And>k. k \<in> own \<Longrightarrow> get k = get' k) \<Longrightarrow>
           pr_extract pr get ks = pr_extract pr get' ks'"
  shows "extractor_get (inject_amqp pr cx headers) = extractor_get headers ++ map_of (rev (pr_inject pr cx)) \<and>
    inject_amqp pr cx headers |` (- fst ` set (pr_inject pr cx)) =
      headers |` (- fst ` set (pr_inject pr cx)) \<and>
    extract_amqp pr (inject_amqp pr cx headers) =
      pr_extract pr (extractor_get headers ++ map_of (rev (pr_inject pr cx)))
        (extractor_keys headers \<union> fst ` set (pr_inject pr cx)) \<and>
    ((\<forall>k \<in> own. extractor_get headers k = None) \<longrightarrow>
      extract_amqp pr (inject_amqp pr cx headers) =
        pr_extract pr (map_of (rev (pr_inject pr cx))) (fst ` set (pr_inject pr cx)))"
proof -
  have sets: "fold injector_set kvs h k =
      (case map_of (rev kvs) k of None \<Rightarrow> h k | Some v \<Rightarrow> Some (Long_String v))"
    if "[] \<notin> fst ` set kvs" for kvs h k
    using that
  proof (induction kvs rule: rev_induct)
    case (snoc kv kvs)
    then show ?case by (cases kv) (auto simp: injector_set_def)
  qed simp
  have utf8: "utf8_ok v" if "map_of (rev (pr_inject pr cx)) k = Some v" for k v
    using map_of_SomeD [OF that] assms(2) by (auto simp: list_all_iff)
  have view: "extractor_get (inject_amqp pr cx headers) = extractor_get headers ++ map_of (rev (pr_inject pr cx))"
    using utf8 by (auto simp: fun_eq_iff extractor_get_def inject_amqp_def sets [OF assms(1)] map_add_def
        split: option.split)
  have "inject_amqp pr cx headers k = headers k" if "k \<notin> fst ` set (pr_inject pr cx)" for k
    using that sets [OF assms(1), of headers k]
    by (simp add: inject_amqp_def map_of_eq_None_iff [THEN iffD2])
  then have rest: "inject_amqp pr cx headers |` (- fst ` set (pr_inject pr cx)) =
      headers |` (- fst ` set (pr_inject pr cx))"
    by (auto simp: restrict_map_def)
  have reads: "extract_amqp pr (inject_amqp pr cx headers) = pr_extract pr get ks"
    if "\<And>k. k \<in> own \<Longrightarrow> (extractor_get headers ++ map_of (rev (pr_inject pr cx))) k = get k" for get ks
    unfolding extract_amqp_def view by (rule extracts) (rule that)
  show ?thesis
    using view rest reads by (auto simp: map_add_def split: option.split)
qed

definition demo_propagator :: "string propagator" where
  "demo_propagator = \<lparr>pr_inject = (\<lambda>cx. [(''traceparent'', cx)]),
     pr_extract = (\<lambda>get ks. unwrap_or (get ''traceparent'') [] @ unwrap_or (get ''baggage'') [])\<rparr>"

theorem carrier_roundtrip_witness:
  "extract_amqp demo_propagator
     (inject_amqp demo_propagator ''00'' [''traceparent'' \<mapsto> Other_Value, ''x'' \<mapsto> Short_String ''y'']) = ''00'' \<and>
   extract_amqp demo_propagator
     (inject_amqp demo_propagator ''00'' [''baggage'' \<mapsto> Short_String ''k=v'']) = ''00k=v''"
  using carrier_roundtrip [of demo_propagator "''00''" "{''traceparent'', ''baggage''}"
      "[''traceparent'' \<mapsto> Other_Value, ''x'' \<mapsto> Short_String ''y'']"]
    carrier_roundtrip [of demo_propagator "''00''" "{''traceparent'', ''baggage''}"
      "[''baggage'' \<mapsto> Short_String ''k=v'']"]
  by (simp add: demo_propagator_def extractor_get_def map_add_def)

end
