(* ===== verification/PcS3.thy ===== *)
theory PcS3
  imports PcJson
begin

section \<open>pc-s3minio: the object-store client\<close>

text \<open>
  \<open>crates/pc-s3minio/src/lib.rs\<close>. The trait \<open>Client\<close> is the record \<open>s3_client\<close> of its
  operations, each a function on the state of the outside world; the facade \<open>S3Minio\<close> takes such
  a record, and \<open>grpc_client\<close> and \<open>http_client\<close> are the two implementations. The generated gRPC
  service and the HTTP library are parameters: an operation of the service answers or returns a
  status, a request answers with a status code, a content type and a body or fails.
\<close>

definition code_ok :: nat where
  "code_ok = 0"

record download_request =
  dq_object :: string
  dq_path :: string
  dq_bucket :: string
  dq_expires :: int
  dq_user_id :: int
  dq_merchant_id :: int

record download_response =
  dr_code :: nat
  dr_status :: string
  dr_message :: string
  dr_data :: string

record upload_request =
  uq_filename :: string
  uq_size :: nat
  uq_content_type :: string
  uq_content :: bytes
  uq_bucket :: string
  uq_path :: string
  uq_expires :: nat
  uq_user_id :: int
  uq_merchant_id :: int

record upload_result =
  ur_filename :: string
  ur_url :: string
  ur_presigned_url :: string

record upload_response =
  us_code :: nat
  us_status :: string
  us_message :: string
  us_data :: "upload_result option"

record health_response =
  hr_code :: nat
  hr_message :: string
  hr_status :: string

record ready_response =
  rr_code :: nat
  rr_message :: string
  rr_status :: string
  rr_dependencies :: "(string \<times> string) list"

record file_response =
  fr_code :: nat
  fr_message :: string
  fr_status :: string
  fr_data :: bytes
  fr_content_type :: string
  fr_filename :: string

record view_response =
  vr_code :: nat
  vr_message :: string
  vr_status :: string
  vr_data :: bytes
  vr_content_type :: string

datatype 'x s3_error =
  S3_Remote string string
| S3_Missing string
| S3_Missing_Upload_Data
| S3_Invalid_Request string
| S3_Unsupported string
| S3_Grpc string
| S3_Http 'x
| S3_Io 'x

type_synonym ('w, 'x, 'a) s3_op = "'w \<Rightarrow> ('x s3_error + 'a) \<times> 'w"

record ('w, 'x) s3_client =
  cl_download :: "download_request \<Rightarrow> ('w, 'x, download_response) s3_op"
  cl_generate_view_url :: "download_request \<Rightarrow> ('w, 'x, download_response) s3_op"
  cl_upload :: "upload_request \<Rightarrow> ('w, 'x, upload_response) s3_op"
  cl_health :: "('w, 'x, health_response) s3_op"
  cl_ready :: "('w, 'x, ready_response) s3_op"
  cl_download_file :: "download_request \<Rightarrow> ('w, 'x, file_response) s3_op"
  cl_view :: "string \<Rightarrow> ('w, 'x, view_response) s3_op"

subsection \<open>Request builders\<close>

definition given :: "string option \<Rightarrow> string" where
  "given v = (case v of None \<Rightarrow> [] | Some s \<Rightarrow> s)"

definition build_download_request ::
  "string \<Rightarrow> int \<Rightarrow> int \<Rightarrow> string option \<Rightarrow> string option \<Rightarrow> int option \<Rightarrow> download_request" where
  "build_download_request object user_id merchant_id path bucket expires =
     \<lparr>dq_object = object, dq_path = given path, dq_bucket = given bucket,
      dq_expires = (case expires of None \<Rightarrow> 0 | Some v \<Rightarrow> if v > 0 then v else 0),
      dq_user_id = user_id, dq_merchant_id = merchant_id\<rparr>"

text \<open>\<open>Path::file_name\<close> and \<open>Path::extension\<close> of an ordinary path: the last component after
  trailing separators, unless it is \<open>..\<close> (or there is none), and what follows its last dot unless
  that dot is the first character. A path that ends in \<open>/.\<close> has its last \<open>.\<close> dropped.\<close>

definition components :: "string \<Rightarrow> string list" where
  "components p =
     (let cs = split_on (CHR ''/'') p
      in filter (\<lambda>c. c \<noteq> []) (hd cs # filter (\<lambda>c. c \<noteq> ''.'') (tl cs)))"

definition file_name :: "string \<Rightarrow> string option" where
  "file_name p =
     (case rev (components p) of
        [] \<Rightarrow> None
      | c # cs \<Rightarrow> if c = ''..'' \<or> c = ''.'' then None else Some c)"

definition extension :: "string \<Rightarrow> string option" where
  "extension p =
     (case file_name p of
        None \<Rightarrow> None
      | Some f \<Rightarrow> file_extension f)"

definition mime_from_extension :: "string \<Rightarrow> string" where
  "mime_from_extension path =
     (let e = to_ascii_lowercase (given (extension path)) in
      if e = ''json'' then ''application/json''
      else if e = ''pdf'' then ''application/pdf''
      else if e = ''png'' then ''image/png''
      else if e = ''jpg'' \<or> e = ''jpeg'' then ''image/jpeg''
      else if e = ''csv'' then ''text/csv''
      else if e = ''txt'' then ''text/plain''
      else ''application/octet-stream'')"


subsection \<open>The facade\<close>

definition ensure_ok :: "string \<Rightarrow> nat \<Rightarrow> string \<Rightarrow> 'x s3_error + unit" where
  "ensure_ok operation c message =
     (if c = code_ok then Ok ()
      else Err (S3_Remote operation (if message = [] then operation @ '' failed'' else message)))"

text \<open>Each facade operation is one call of the client and a check of its answer.\<close>

definition checked ::
  "('w, 'x, 'a) s3_op \<Rightarrow> ('a \<Rightarrow> 'x s3_error + 'b) \<Rightarrow> ('w, 'x, 'b) s3_op" where
  "checked op check w = (let (r, w') = op w in (and_then r check, w'))"

definition url_or_object :: "download_request \<Rightarrow> string \<Rightarrow> download_response \<Rightarrow> 'x s3_error + string" where
  "url_or_object request operation response =
     and_then (ensure_ok operation (dr_code response) (dr_message response)) (\<lambda>_.
       Ok (if dr_data response = [] then dq_object request else dr_data response))"

definition get_presigned_url ::
  "('w, 'x) s3_client \<Rightarrow> download_request \<Rightarrow> ('w, 'x, string) s3_op" where
  "get_presigned_url c request = checked (cl_download c request) (url_or_object request ''download'')"

definition get_view_url ::
  "('w, 'x) s3_client \<Rightarrow> download_request \<Rightarrow> ('w, 'x, string) s3_op" where
  "get_view_url c request = checked (cl_generate_view_url c request) (url_or_object request ''view'')"


definition facade_health :: "('w, 'x) s3_client \<Rightarrow> ('w, 'x, health_response) s3_op" where
  "facade_health c =
     checked (cl_health c) (\<lambda>response.
       and_then (ensure_ok ''health'' (hr_code response) (hr_message response)) (\<lambda>_. Ok response))"

definition facade_ready :: "('w, 'x) s3_client \<Rightarrow> ('w, 'x, ready_response) s3_op" where
  "facade_ready c =
     checked (cl_ready c) (\<lambda>response.
       and_then (ensure_ok ''ready'' (rr_code response) (rr_message response)) (\<lambda>_. Ok response))"

subsection \<open>The gRPC client\<close>

text \<open>\<open>GrpcService\<close>: its operations answer or return a status, which is rendered as text. The
  health call answers with a text.\<close>

record ('w, 's) grpc_service =
  gs_download :: "download_request \<Rightarrow> 'w \<Rightarrow> ('s + download_response) \<times> 'w"
  gs_generate_view_url :: "download_request \<Rightarrow> 'w \<Rightarrow> ('s + download_response) \<times> 'w"
  gs_upload :: "upload_request \<Rightarrow> 'w \<Rightarrow> ('s + upload_response) \<times> 'w"
  gs_health :: "'w \<Rightarrow> ('s + string) \<times> 'w"

definition from_status :: "('s \<Rightarrow> string) \<Rightarrow> ('w \<Rightarrow> ('s + 'a) \<times> 'w) \<Rightarrow> ('w, 'x, 'a) s3_op" where
  "from_status to_text op w =
     (case op w of (Inl s, w') \<Rightarrow> (Err (S3_Grpc (to_text s)), w') | (Inr a, w') \<Rightarrow> (Ok a, w'))"

definition grpc_health_of :: "string \<Rightarrow> health_response" where
  "grpc_health_of raw =
     (let trimmed = trim raw;
          status = (if eq_ignore_ascii_case trimmed ''ok'' then ''ok'' else trimmed)
      in \<lparr>hr_code = (if status = ''ok'' then code_ok else 503), hr_message = ''grpc health'',
          hr_status = status\<rparr>)"

definition grpc_health :: "('s \<Rightarrow> string) \<Rightarrow> ('w, 's) grpc_service \<Rightarrow> ('w, 'x, health_response) s3_op" where
  "grpc_health to_text svc =
     checked (from_status to_text (gs_health svc)) (\<lambda>raw. Ok (grpc_health_of raw))"

definition grpc_ready_of :: "health_response \<Rightarrow> ready_response" where
  "grpc_ready_of health =
     (let status = (if hr_status health = [] then ''unavailable'' else hr_status health)
      in \<lparr>rr_code = hr_code health, rr_message = ''grpc readiness'', rr_status = status,
          rr_dependencies = [(''grpc'', status)]\<rparr>)"

definition grpc_client :: "('s \<Rightarrow> string) \<Rightarrow> ('w, 's) grpc_service \<Rightarrow> ('w, 'x) s3_client" where
  "grpc_client to_text svc =
     \<lparr>cl_download = (\<lambda>q. from_status to_text (gs_download svc q)),
      cl_generate_view_url = (\<lambda>q. from_status to_text (gs_generate_view_url svc q)),
      cl_upload = (\<lambda>q. from_status to_text (gs_upload svc q)),
      cl_health = grpc_health to_text svc,
      cl_ready = checked (grpc_health to_text svc) (\<lambda>h. Ok (grpc_ready_of h)),
      cl_download_file = (\<lambda>q w. (Err (S3_Unsupported
        ''download_file is not exposed over s3minio grpc yet''), w)),
      cl_view = (\<lambda>path w. (Err (S3_Unsupported ''view stream is not exposed over s3minio grpc yet''), w))\<rparr>"

subsection \<open>The HTTP client\<close>

datatype form_part = Part_File string string string bytes | Part_Text string string

datatype http_body_spec =
  No_Body
| Json_Body download_request
| Form_Body "form_part list"
| Query "(string \<times> string) list"

datatype http_verb = Http_Get | Http_Post

type_synonym http_call = "http_verb \<times> string \<times> http_body_spec"

text \<open>A response; reading its body may fail. \<open>ev_data\<close> is the \<open>data\<close> member of the envelope.\<close>

record 'x http_answer =
  ha_status :: nat
  ha_content_type :: "string option"
  ha_body :: "'x + bytes"

record 'd envelope =
  ev_code :: nat
  ev_status :: string
  ev_message :: string
  ev_data :: "'d option"

record ('w, 'x) http_transport =
  ht_base_url :: string
  ht_send :: "http_call \<Rightarrow> 'w \<Rightarrow> ('x + 'x http_answer) \<times> 'w"
  ht_status_text :: "nat \<Rightarrow> string"
  ht_mime_check :: "string \<Rightarrow> 'x option"
  ht_value_envelope :: "bytes \<Rightarrow> 'x + jvalue envelope"
  ht_upload_envelope :: "bytes \<Rightarrow> 'x + upload_result envelope"

definition trim_slashes :: "string \<Rightarrow> string" where
  "trim_slashes s = rev (dropWhile (\<lambda>c. c = CHR ''/'') (rev s))"

text \<open>\<open>HttpClient::new\<close> with a client at hand; \<open>url\<close>.\<close>

definition http_new :: "string \<Rightarrow> ('w, 'x) http_transport \<Rightarrow> ('w, 'x) http_transport" where
  "http_new base_url t = t\<lparr>ht_base_url := trim_slashes base_url\<rparr>"

definition http_url :: "('w, 'x) http_transport \<Rightarrow> string \<Rightarrow> string" where
  "http_url t path = ht_base_url t @ path"

definition is_success :: "nat \<Rightarrow> bool" where
  "is_success status \<longleftrightarrow> 200 \<le> status \<and> status < 300"

text \<open>Send one request, then work on the answer.\<close>

definition http_do ::
  "('w, 'x) http_transport \<Rightarrow> http_call \<Rightarrow> ('x http_answer \<Rightarrow> 'x s3_error + 'a) \<Rightarrow> ('w, 'x, 'a) s3_op" where
  "http_do t call k w =
     (case ht_send t call w of
        (Inl e, w') \<Rightarrow> (Err (S3_Http e), w')
      | (Inr answer, w') \<Rightarrow> (k answer, w'))"

definition http_try :: "'x + 'a \<Rightarrow> ('a \<Rightarrow> 'x s3_error + 'b) \<Rightarrow> 'x s3_error + 'b" where
  "http_try r k = (case r of Inl e \<Rightarrow> Err (S3_Http e) | Inr a \<Rightarrow> k a)"

definition download_like ::
  "('w, 'x) http_transport \<Rightarrow> string \<Rightarrow> download_request \<Rightarrow> ('w, 'x, download_response) s3_op" where
  "download_like t endpoint request =
     http_do t (Http_Post, http_url t endpoint, Json_Body request) (\<lambda>answer.
       http_try (ha_body answer) (\<lambda>body.
         http_try (ht_value_envelope t body) (\<lambda>envelope.
           if \<not> is_success (ha_status answer) then
             Err (S3_Remote ''download''
               (if ev_message envelope = [] then ht_status_text t (ha_status answer)
                else ev_message envelope))
           else
             Ok \<lparr>dr_code = ev_code envelope, dr_status = ev_status envelope,
                 dr_message = ev_message envelope,
                 dr_data = (case ev_data envelope of Some (JStr s) \<Rightarrow> s | _ \<Rightarrow> [])\<rparr>)))"

definition upload_form :: "upload_request \<Rightarrow> string \<Rightarrow> form_part list" where
  "upload_form r mime =
     [Part_File ''object'' (uq_filename r) mime (uq_content r), Part_Text ''signed'' ''true''] @
     (if uq_path r \<noteq> [] then [Part_Text ''path'' (uq_path r)] else []) @
     (if uq_bucket r \<noteq> [] then [Part_Text ''bucket'' (uq_bucket r)] else []) @
     (if uq_expires r > 0 then [Part_Text ''expires'' (show_nat (uq_expires r))] else [])"

definition http_upload ::
  "('w, 'x) http_transport \<Rightarrow> upload_request \<Rightarrow> ('w, 'x, upload_response) s3_op" where
  "http_upload t r w =
     (if uq_filename r = [] then (Err (S3_Invalid_Request ''upload filename is required''), w)
      else
        let mime = (if uq_content_type r = [] then ''application/octet-stream'' else uq_content_type r) in
        (case ht_mime_check t mime of
           Some e \<Rightarrow> (Err (S3_Http e), w)
         | None \<Rightarrow>
             http_do t (Http_Post, http_url t ''/api/v2/upload'', Form_Body (upload_form r mime))
               (\<lambda>answer.
                  if \<not> is_success (ha_status answer)
                  then Err (S3_Remote ''upload'' (ht_status_text t (ha_status answer)))
                  else
                    http_try (ha_body answer) (\<lambda>body.
                      http_try (ht_upload_envelope t body) (\<lambda>envelope.
                        Ok \<lparr>us_code = ev_code envelope, us_status = ev_status envelope,
                            us_message = ev_message envelope, us_data = ev_data envelope\<rparr>))) w))"

definition http_health :: "('w, 'x) http_transport \<Rightarrow> ('w, 'x, health_response) s3_op" where
  "http_health t =
     http_do t (Http_Get, http_url t ''/healthz'', No_Body) (\<lambda>answer.
       if \<not> is_success (ha_status answer)
       then Err (S3_Remote ''health'' (ht_status_text t (ha_status answer)))
       else Ok \<lparr>hr_code = code_ok, hr_message = ''http health'', hr_status = ''ok''\<rparr>)"

definition http_ready :: "('w, 'x) http_transport \<Rightarrow> ('w, 'x, ready_response) s3_op" where
  "http_ready t =
     http_do t (Http_Get, http_url t ''/readyz'', No_Body) (\<lambda>answer.
       let status = (if is_success (ha_status answer) then ''ok'' else ''unavailable'')
       in Ok \<lparr>rr_code = ha_status answer, rr_message = ''http ready'', rr_status = status,
              rr_dependencies = [(''http'', status)]\<rparr>)"

definition http_download_file ::
  "('w, 'x) http_transport \<Rightarrow> download_request \<Rightarrow> ('w, 'x, file_response) s3_op" where
  "http_download_file t request =
     http_do t (Http_Post, http_url t ''/api/v2/download_file'', Json_Body request) (\<lambda>answer.
       if \<not> is_success (ha_status answer)
       then Err (S3_Remote ''download file'' (ht_status_text t (ha_status answer)))
       else
         http_try (ha_body answer) (\<lambda>data.
           Ok \<lparr>fr_code = ha_status answer, fr_message = ''download file'',
               fr_status = ht_status_text t (ha_status answer), fr_data = data,
               fr_content_type = given (ha_content_type answer), fr_filename = []\<rparr>))"

definition http_view :: "('w, 'x) http_transport \<Rightarrow> string \<Rightarrow> ('w, 'x, view_response) s3_op" where
  "http_view t path w =
     (if path = [] then (Err (S3_Invalid_Request ''view path is required''), w)
      else
        http_do t (Http_Get, http_url t ''/api/v2/view'', Query [(''path'', path)]) (\<lambda>answer.
          if \<not> is_success (ha_status answer)
          then Err (S3_Remote ''view'' (ht_status_text t (ha_status answer)))
          else
            http_try (ha_body answer) (\<lambda>data.
              Ok \<lparr>vr_code = ha_status answer, vr_message = ''view'',
                  vr_status = ht_status_text t (ha_status answer), vr_data = data,
                  vr_content_type = given (ha_content_type answer)\<rparr>)) w)"

definition http_client :: "('w, 'x) http_transport \<Rightarrow> ('w, 'x) s3_client" where
  "http_client t =
     \<lparr>cl_download = download_like t ''/api/v2/download'',
      cl_generate_view_url = download_like t ''/api/v2/generate_view_url'',
      cl_upload = http_upload t, cl_health = http_health t, cl_ready = http_ready t,
      cl_download_file = http_download_file t, cl_view = http_view t\<rparr>"

subsection \<open>What a client promises of its probes\<close>

text \<open>A client whose health answer carries the OK code exactly when it says \<open>ok\<close>; and one whose
  readiness answer does so as well.  The HTTP client is only of the first kind: its readiness
  answer carries the HTTP status.\<close>

locale health_client =
  fixes c :: "('w, 'x) s3_client"
  assumes health_code: "cl_health c w = (Inr r, w') \<Longrightarrow> (hr_code r = code_ok) = (hr_status r = ''ok'')"
begin

lemma facade_health_status: "facade_health c w = (Inr r, w') \<Longrightarrow> hr_status r = ''ok''"
  using health_code
  by (auto simp: facade_health_def checked_def ensure_ok_def and_then_Ok_iff
      split: prod.splits if_splits)

lemma facade_health_passes:
  "cl_health c w = (Inr r, w') \<Longrightarrow> hr_status r = ''ok'' \<Longrightarrow> facade_health c w = (Ok r, w')"
  using health_code by (auto simp: facade_health_def checked_def ensure_ok_def)

lemma facade_health_fails:
  "cl_health c w = (Inr r, w') \<Longrightarrow> hr_status r \<noteq> ''ok'' \<Longrightarrow> hr_message r \<noteq> [] \<Longrightarrow>
     facade_health c w = (Err (S3_Remote ''health'' (hr_message r)), w')"
  using health_code by (auto simp: facade_health_def checked_def ensure_ok_def)

end

locale probe_client = health_client c for c :: "('w, 'x) s3_client" +
  assumes ready_code: "cl_ready c w = (Inr r, w') \<Longrightarrow> (rr_code r = code_ok) = (rr_status r = ''ok'')"
begin

lemma facade_ready_passes:
  "cl_ready c w = (Inr r, w') \<Longrightarrow> rr_status r = ''ok'' \<Longrightarrow> facade_ready c w = (Ok r, w')"
  using ready_code by (auto simp: facade_ready_def checked_def ensure_ok_def)

lemma facade_ready_fails:
  "cl_ready c w = (Inr r, w') \<Longrightarrow> rr_status r \<noteq> ''ok'' \<Longrightarrow> rr_message r \<noteq> [] \<Longrightarrow>
     facade_ready c w = (Err (S3_Remote ''ready'' (rr_message r)), w')"
  using ready_code by (auto simp: facade_ready_def checked_def ensure_ok_def)

end

lemma grpc_health_code:
  "hr_code (grpc_health_of raw) = 0 \<longleftrightarrow> hr_status (grpc_health_of raw) = ''ok''"
  "hr_status (grpc_health_of raw) = ''ok'' \<longleftrightarrow> eq_ignore_ascii_case (trim raw) ''ok''"
  "hr_message (grpc_health_of raw) = ''grpc health''"
  by (auto simp: grpc_health_of_def Let_def code_ok_def eq_ignore_ascii_case_def)

lemma grpc_probe_answers:
  "gs_health svc w = (Inl s, w') \<Longrightarrow> cl_health (grpc_client to_text svc) w = (Err (S3_Grpc (to_text s)), w')"
  "gs_health svc w = (Inr raw, w') \<Longrightarrow> cl_health (grpc_client to_text svc) w = (Ok (grpc_health_of raw), w')"
  "gs_health svc w = (Inr raw, w') \<Longrightarrow>
     cl_ready (grpc_client to_text svc) w = (Ok (grpc_ready_of (grpc_health_of raw)), w')"
  by (simp_all add: grpc_client_def grpc_health_def checked_def from_status_def)

lemma grpc_ready_code:
  "rr_code (grpc_ready_of h) = hr_code h" "rr_message (grpc_ready_of h) = ''grpc readiness''"
  "rr_status (grpc_ready_of h) = ''ok'' \<longleftrightarrow> hr_status h = ''ok''"
  by (auto simp: grpc_ready_of_def Let_def)

interpretation over_grpc: probe_client "grpc_client to_text svc" for to_text svc
proof
  fix w r w'
  show "cl_health (grpc_client to_text svc) w = (Inr r, w') \<Longrightarrow> (hr_code r = code_ok) = (hr_status r = ''ok'')"
    by (cases "gs_health svc w"; cases "fst (gs_health svc w)")
      (auto simp: grpc_probe_answers grpc_health_code code_ok_def)
next
  fix w r w'
  show "cl_ready (grpc_client to_text svc) w = (Inr r, w') \<Longrightarrow> (rr_code r = code_ok) = (rr_status r = ''ok'')"
    by (cases "gs_health svc w"; cases "fst (gs_health svc w)")
      (auto simp: grpc_client_def grpc_health_def checked_def from_status_def grpc_ready_code
        grpc_health_code code_ok_def)
qed

interpretation over_http: health_client "http_client t" for t
  by unfold_locales
    (auto simp: http_client_def http_health_def http_do_def split: prod.splits sum.splits if_splits)

lemma facade_over_grpc:
  assumes "gs_health svc w = (Inr raw, w')"
  shows "facade_health (grpc_client to_text svc) w =
      (if eq_ignore_ascii_case (trim raw) ''ok'' then (Ok (grpc_health_of raw), w')
       else (Err (S3_Remote ''health'' ''grpc health''), w'))"
    "facade_ready (grpc_client to_text svc) w =
      (if eq_ignore_ascii_case (trim raw) ''ok'' then (Ok (grpc_ready_of (grpc_health_of raw)), w')
       else (Err (S3_Remote ''ready'' ''grpc readiness''), w'))"
  by (simp_all add: over_grpc.facade_health_passes [OF grpc_probe_answers(2) [OF assms]]
      over_grpc.facade_health_fails [OF grpc_probe_answers(2) [OF assms]]
      over_grpc.facade_ready_passes [OF grpc_probe_answers(3) [OF assms]]
      over_grpc.facade_ready_fails [OF grpc_probe_answers(3) [OF assms]]
      grpc_health_code grpc_ready_code)

lemma facade_over_grpc_error:
  "gs_health svc w = (Inl s, w') \<Longrightarrow>
     facade_health (grpc_client to_text svc) w = (Err (S3_Grpc (to_text s)), w') \<and>
     facade_ready (grpc_client to_text svc) w = (Err (S3_Grpc (to_text s)), w')"
  by (simp add: facade_health_def facade_ready_def checked_def grpc_client_def grpc_health_def from_status_def)

lemma facade_over_http:
  "is_ok (fst (facade_health (http_client t) v)) =
     (case fst (ht_send t (Http_Get, http_url t ''/healthz'', No_Body) v) of
        Inl e \<Rightarrow> False | Inr answer \<Rightarrow> is_success (ha_status answer))"
  "fst (facade_ready (http_client t) v) =
     (case fst (ht_send t (Http_Get, http_url t ''/readyz'', No_Body) v) of
        Inl e \<Rightarrow> Err (S3_Http e)
      | Inr answer \<Rightarrow>
          if ha_status answer \<noteq> 0 then Err (S3_Remote ''ready'' ''http ready'')
          else Ok \<lparr>rr_code = 0, rr_message = ''http ready'', rr_status = ''unavailable'',
                   rr_dependencies = [(''http'', ''unavailable'')]\<rparr>)"
  by (auto simp: facade_health_def facade_ready_def checked_def http_client_def http_health_def
      http_ready_def http_do_def ensure_ok_def code_ok_def Let_def is_success_def
      split: sum.split prod.split)

subsection \<open>Properties\<close>

text \<open>C39: The probes of the facade: over gRPC it reports healthy and ready exactly when the service
  answers \<open>ok\<close>, in any case and with any white space around it: a call that fails is passed on as its
  status by both probes, and any other answer is an error of both. Over HTTP it reports healthy
  exactly on a success status; but over HTTP it never reports ready, because the client puts the HTTP status
  into the code and the facade takes any code but 0 for a failure, 200 included.\<close>

theorem facade_probes:
  "(case gs_health svc w of
      (Inl s, w') \<Rightarrow>
        facade_health (grpc_client to_text svc) w = (Err (S3_Grpc (to_text s)), w') \<and>
        facade_ready (grpc_client to_text svc) w = (Err (S3_Grpc (to_text s)), w')
    | (Inr raw, w') \<Rightarrow>
        (if eq_ignore_ascii_case (trim raw) ''ok''
         then fst (facade_health (grpc_client to_text svc) w) = Ok (grpc_health_of raw) \<and>
              fst (facade_ready (grpc_client to_text svc) w) = Ok (grpc_ready_of (grpc_health_of raw))
         else fst (facade_health (grpc_client to_text svc) w) = Err (S3_Remote ''health'' ''grpc health'') \<and>
              fst (facade_ready (grpc_client to_text svc) w) = Err (S3_Remote ''ready'' ''grpc readiness''))) \<and>
   is_ok (fst (facade_health (http_client t) v)) =
     (case fst (ht_send t (Http_Get, http_url t ''/healthz'', No_Body) v) of
        Inl e \<Rightarrow> False | Inr answer \<Rightarrow> is_success (ha_status answer)) \<and>
   fst (facade_ready (http_client t) v) =
     (case fst (ht_send t (Http_Get, http_url t ''/readyz'', No_Body) v) of
        Inl e \<Rightarrow> Err (S3_Http e)
      | Inr answer \<Rightarrow>
          if ha_status answer \<noteq> 0 then Err (S3_Remote ''ready'' ''http ready'')
          else Ok \<lparr>rr_code = 0, rr_message = ''http ready'', rr_status = ''unavailable'',
                   rr_dependencies = [(''http'', ''unavailable'')]\<rparr>)"
  by (auto simp: facade_over_http facade_over_grpc facade_over_grpc_error split: sum.split prod.split)

text \<open>The mime type of a built request is never empty.\<close>

lemma mime_nonempty [simp]: "mime_from_extension p \<noteq> []"
  by (simp add: mime_from_extension_def Let_def)






end
