(* ===== verification/PcAmqpPush.thy ===== *)
theory PcAmqpPush
  imports PcAmqp
begin

section \<open>pc-amqp: a publisher cut at its awaits, and the deadline of push\<close>

text \<open>
  \<open>crates/pc-amqp/src/lib.rs\<close>. \<open>push\<close> and \<open>push_with_ttl\<close> as tasks: a publisher's program point,
  with what it still knows there, at each of its awaits (the reconnect mutex, every command of the
  handshake, the publish with its confirm, the pause before a retry).  \<open>pub_advance\<close> runs it up to
  and through its next await, \<open>pub_run\<close> some number of them; \<open>push\<close> is the retry loop, or, when its
  deadline fires, what the loop had done by then.
\<close>

record job =
  jb_key :: string
  jb_data :: bytes
  jb_ttl :: "string option"
  jb_props :: basic_props
  jb_retries :: "nat option"

datatype dial =
  Dial_Connect
| Dial_Channel nat
| Dial_Confirm nat nat
| Dial_Probe nat nat
| Dial_Reopen nat
| Dial_Reconfirm nat nat
| Dial_Declare nat nat

datatype 'x point =
  Ensuring nat
| Locking nat
| Checking nat
| Dialing nat dial
| Installing nat broker_state
| Publishing nat broker_state
| Resetting nat "'x amqp_error"
| Resending nat
| Returned "'x amqp_error + unit"
| Dropped

text \<open>\<open>push\<close> makes \<open>PUSH_MAX_RETRIES\<close> attempts and resets the cell after each failure; the other
  publishers make one attempt and return its error.\<close>

definition push_job :: "amqp_client \<Rightarrow> bytes \<Rightarrow> job" where
  "push_job cl data = \<lparr>jb_key = ac_queue cl, jb_data = data, jb_ttl = Some default_message_ttl,
     jb_props = props_default, jb_retries = Some push_max_retries\<rparr>"

definition push_with_ttl_job :: "amqp_client \<Rightarrow> bytes \<Rightarrow> string \<Rightarrow> job" where
  "push_with_ttl_job cl data ttl_ms = \<lparr>jb_key = ac_queue cl, jb_data = data,
     jb_ttl = (if ttl_ms \<noteq> [] then Some ttl_ms else None), jb_props = props_default, jb_retries = None\<rparr>"

definition job_start :: "job \<Rightarrow> 'x point" where
  "job_start j = Ensuring (case jb_retries j of None \<Rightarrow> 0 | Some n \<Rightarrow> n - 1)"

definition attempt_failed :: "job \<Rightarrow> nat \<Rightarrow> 'x amqp_error \<Rightarrow> 'x point" where
  "attempt_failed j left e = (if jb_retries j = None then Returned (Err e) else Resetting left e)"

definition next_point ::
  "job \<Rightarrow> nat \<Rightarrow> ('a \<Rightarrow> 'x point) \<Rightarrow> ('x amqp_error + 'a) \<times> 'w amqp_world \<Rightarrow> 'x point \<times> 'w amqp_world" where
  "next_point j left k m =
     (case m of (Inl e, s) \<Rightarrow> (attempt_failed j left e, s) | (Inr a, s) \<Rightarrow> (k a, s))"

fun dial_advance ::
  "('w, 'x) broker \<Rightarrow> amqp_client \<Rightarrow> job \<Rightarrow> nat \<Rightarrow> dial \<Rightarrow> 'w amqp_world \<Rightarrow> 'x point \<times> 'w amqp_world" where
  "dial_advance b cl j left Dial_Connect s =
     next_point j left (\<lambda>conn. Dialing left (Dial_Channel conn))
       (handle b (Connect (with_heartbeat (ac_addr cl)) (ac_name cl)) s)"
| "dial_advance b cl j left (Dial_Channel conn) s =
     next_point j left (\<lambda>chan. Dialing left (Dial_Confirm conn chan)) (handle b (Create_Channel conn) s)"
| "dial_advance b cl j left (Dial_Confirm conn chan) s =
     next_point j left (\<lambda>_. Dialing left (Dial_Probe conn chan)) (cmd b (Confirm_Select chan) s)"
| "dial_advance b cl j left (Dial_Probe conn chan) s =
     (case cmd b (Queue_Declare chan (ac_queue cl) passive_probe_options) s of
        (Inr r, s') \<Rightarrow> (Installing left \<lparr>bs_connection = conn, bs_channel = chan\<rparr>, s')
      | (Inl e, s') \<Rightarrow> (Dialing left (Dial_Reopen conn), s'))"
| "dial_advance b cl j left (Dial_Reopen conn) s =
     next_point j left (\<lambda>chan. Dialing left (Dial_Reconfirm conn chan)) (handle b (Create_Channel conn) s)"
| "dial_advance b cl j left (Dial_Reconfirm conn chan) s =
     next_point j left (\<lambda>_. Dialing left (Dial_Declare conn chan)) (cmd b (Confirm_Select chan) s)"
| "dial_advance b cl j left (Dial_Declare conn chan) s =
     next_point j left (\<lambda>_. Installing left \<lparr>bs_connection = conn, bs_channel = chan\<rparr>)
       (cmd b (Queue_Declare chan (ac_queue cl) declare_options) s)"

fun pub_advance ::
  "('w, 'x) broker \<Rightarrow> amqp_client \<Rightarrow> job \<Rightarrow> 'x point \<Rightarrow> 'w amqp_world \<Rightarrow> 'x point \<times> 'w amqp_world" where
  "pub_advance b cl j (Ensuring left) s =
     (case ready_state b s of Some st \<Rightarrow> (Publishing left st, s) | None \<Rightarrow> (Locking left, s))"
| "pub_advance b cl j (Locking left) s = (Checking left, s)"
| "pub_advance b cl j (Checking left) s =
     (case ready_state b s of Some st \<Rightarrow> (Publishing left st, s) | None \<Rightarrow> (Dialing left Dial_Connect, s))"
| "pub_advance b cl j (Dialing left d) s = dial_advance b cl j left d s"
| "pub_advance b cl j (Installing left st) s = (Publishing left st, snd (set_state st s :: ('x amqp_error + _) \<times> _))"
| "pub_advance b cl j (Publishing left st) s =
     (case cmd b (Basic_Publish (bs_channel st) (jb_key j) (jb_data j) (publish_props (jb_ttl j) (jb_props j))) s of
        (Inr (Reply_Confirm nack), s') \<Rightarrow>
          ((if nack then attempt_failed j left Nacked else Returned (Ok ())), s')
      | (Inr _, s') \<Rightarrow> (attempt_failed j left Bad_Reply, s')
      | (Inl e, s') \<Rightarrow> (attempt_failed j left e, s'))"
| "pub_advance b cl j (Resetting left e) s =
     ((if left > 0 then Resending left else Returned (Err e)), drop_state s)"
| "pub_advance b cl j (Resending left) s =
     (Ensuring (left - 1), snd (cmd b (Sleep resend_delay) s))"
| "pub_advance b cl j (Returned r) s = (Returned r, s)"
| "pub_advance b cl j Dropped s = (Dropped, s)"

fun live :: "'x point \<Rightarrow> bool" where
  "live (Returned r) = False"
| "live Dropped = False"
| "live (Ensuring left) = True"
| "live (Locking left) = True"
| "live (Checking left) = True"
| "live (Dialing left d) = True"
| "live (Installing left st) = True"
| "live (Publishing left st) = True"
| "live (Resetting left e) = True"
| "live (Resending left) = True"

fun holding :: "'x point \<Rightarrow> bool" where
  "holding (Checking left) = True"
| "holding (Dialing left d) = True"
| "holding (Installing left st) = True"
| "holding (Ensuring left) = False"
| "holding (Locking left) = False"
| "holding (Publishing left st) = False"
| "holding (Resetting left e) = False"
| "holding (Resending left) = False"
| "holding (Returned r) = False"
| "holding Dropped = False"

subsection \<open>One publisher alone\<close>

fun pub_run ::
  "nat \<Rightarrow> ('w, 'x) broker \<Rightarrow> amqp_client \<Rightarrow> job \<Rightarrow> 'x point \<Rightarrow> 'w amqp_world \<Rightarrow> 'x point \<times> 'w amqp_world" where
  "pub_run 0 b cl j t s = (t, s)"
| "pub_run (Suc n) b cl j t s = (case pub_advance b cl j t s of (t', s') \<Rightarrow> pub_run n b cl j t' s')"

lemma pub_run_returned [simp]: "pub_run n b cl j (Returned r) s = (Returned r, s)"
  by (induction n) simp_all

lemma pub_run_add: "pub_run (m + n) b cl j t s = (case pub_run m b cl j t s of (t', s') \<Rightarrow> pub_run n b cl j t' s')"
  by (induction m arbitrary: t s) (simp_all split: prod.split)

definition lands ::
  "nat \<Rightarrow> ('w, 'x) broker \<Rightarrow> amqp_client \<Rightarrow> job \<Rightarrow> 'x point \<Rightarrow> 'w amqp_world
     \<Rightarrow> 'x point \<times> 'w amqp_world \<Rightarrow> bool" where
  "lands n b cl j t s r \<longleftrightarrow> (\<exists>m \<le> n. pub_run m b cl j t s = r)"

lemma lands_here [intro]: "lands n b cl j t s (t, s)"
  unfolding lands_def by (rule exI [of _ 0]) simp

lemma lands_step:
  "pub_advance b cl j t s = (t1, s1) \<Longrightarrow> lands n b cl j t1 s1 r \<Longrightarrow> lands (Suc n) b cl j t s r"
  unfolding lands_def by (metis (no_types, lifting) Suc_le_mono case_prod_conv pub_run.simps(2))

lemma lands_trans:
  assumes "lands m b cl j t s (t1, s1)" "lands n b cl j t1 s1 r"
  shows "lands (m + n) b cl j t s r"
proof -
  obtain k l where "k \<le> m" "pub_run k b cl j t s = (t1, s1)" "l \<le> n" "pub_run l b cl j t1 s1 = r"
    using assms unfolding lands_def by blast
  then show ?thesis
    unfolding lands_def by (intro exI [of _ "k + l"]) (simp add: pub_run_add)
qed

lemma lands_mono: "lands m b cl j t s r \<Longrightarrow> m \<le> n \<Longrightarrow> lands n b cl j t s r"
  unfolding lands_def using le_trans by blast

lemma lands_returned:
  assumes "lands n b cl j t s (Returned r, s')"
  shows "pub_run n b cl j t s = (Returned r, s')"
proof -
  obtain m where "m \<le> n" "pub_run m b cl j t s = (Returned r, s')"
    using assms unfolding lands_def by blast
  then show ?thesis using pub_run_add [of m "n - m" b cl j t s] by simp
qed

definition settled ::
  "job \<Rightarrow> nat \<Rightarrow> ('x amqp_error + unit) \<times> 'w amqp_world \<Rightarrow> 'x point \<times> 'w amqp_world" where
  "settled j left m = next_point j left (\<lambda>u. Returned (Ok u)) m"

lemma publishing_lands:
  "lands 1 b cl j (Publishing left st) s
     (settled j left
       (seq (cmd b (Basic_Publish (bs_channel st) (jb_key j) (jb_data j) (publish_props (jb_ttl j) (jb_props j))))
         (\<lambda>r. case r of Reply_Confirm nack \<Rightarrow> if nack then fail_with Nacked else ret () | _ \<Rightarrow> fail_with Bad_Reply) s))"
  unfolding lands_def
  by (rule exI [of _ 1])
    (simp add: settled_def next_point_def seq_def fail_with_def ret_def split: prod.split sum.split amqp_reply.split)

lemma lands_next:
  assumes "pub_advance b cl j t s = next_point j left k (m s)"
    and "\<And>a s'. m s = (Ok a, s') \<Longrightarrow> lands n b cl j (k a) s' (next_point j left k' (m' a s'))"
  shows "lands (Suc n) b cl j t s (next_point j left k' (seq m m' s))"
proof -
  obtain r s' where m: "m s = (r, s')"
    by (metis prod.exhaust)
  show ?thesis
  proof (cases r)
    case (Inl e)
    with assms(1) m show ?thesis
      by (auto simp: next_point_def seq_def intro!: lands_step)
  next
    case (Inr a)
    with assms(1) m assms(2) [of a s'] show ?thesis
      by (auto simp: next_point_def seq_def intro: lands_step)
  qed
qed

lemma probe_lands:
  "lands 4 b cl j (Dialing left (Dial_Probe conn chan)) s
     (next_point j left (\<lambda>chan'. Installing left \<lparr>bs_connection = conn, bs_channel = chan'\<rparr>)
       (probe_or_declare b cl conn chan s))"
proof -
  obtain r s1 where probe: "cmd b (Queue_Declare chan (ac_queue cl) passive_probe_options) s = (r, s1)"
    by (metis prod.exhaust)
  show ?thesis
  proof (cases r)
    case (Inr a)
    with probe have "lands (Suc 0) b cl j (Dialing left (Dial_Probe conn chan)) s
        (Installing left \<lparr>bs_connection = conn, bs_channel = chan\<rparr>, s1)"
      by (intro lands_step [OF _ lands_here]) simp
    with probe Inr show ?thesis
      by (auto simp: probe_or_declare_def next_point_def intro: lands_mono)
  next
    case (Inl e)
    have reopen: "lands (Suc (Suc (Suc 0))) b cl j (Dialing left (Dial_Reopen conn)) s1
      (next_point j left (\<lambda>chan'. Installing left \<lparr>bs_connection = conn, bs_channel = chan'\<rparr>)
        (seq (handle b (Create_Channel conn)) (\<lambda>chan'.
          seq (cmd b (Confirm_Select chan')) (\<lambda>_.
            seq (cmd b (Queue_Declare chan' (ac_queue cl) declare_options)) (\<lambda>_. ret chan'))) s1))"
      by (rule lands_next, simp, rule lands_next, simp, rule lands_next, simp)
        (auto simp: ret_def next_point_def)
    have "lands (Suc (Suc (Suc (Suc 0)))) b cl j (Dialing left (Dial_Probe conn chan)) s
      (next_point j left (\<lambda>chan'. Installing left \<lparr>bs_connection = conn, bs_channel = chan'\<rparr>)
        (seq (handle b (Create_Channel conn)) (\<lambda>chan'.
          seq (cmd b (Confirm_Select chan')) (\<lambda>_.
            seq (cmd b (Queue_Declare chan' (ac_queue cl) declare_options)) (\<lambda>_. ret chan'))) s1))"
      by (rule lands_step [OF _ reopen]) (simp add: probe Inl)
    then show ?thesis by (simp add: probe_or_declare_def probe Inl eval_nat_numeral)
  qed
qed

lemma dial_lands:
  "lands 8 b cl j (Dialing left Dial_Connect) s
     (next_point j left (\<lambda>st. Publishing left st)
       (seq (handle b (Connect (with_heartbeat (ac_addr cl)) (ac_name cl))) (\<lambda>conn.
          seq (handle b (Create_Channel conn)) (\<lambda>chan.
            seq (cmd b (Confirm_Select chan)) (\<lambda>_.
              seq (probe_or_declare b cl conn chan) (\<lambda>chan'.
                set_state \<lparr>bs_connection = conn, bs_channel = chan'\<rparr>)))) s))"
proof -
  have install: "lands 5 b cl j (Dialing left (Dial_Probe conn chan)) s
     (next_point j left (\<lambda>st. Publishing left st)
       (seq (probe_or_declare b cl conn chan) (\<lambda>chan'.
          set_state \<lparr>bs_connection = conn, bs_channel = chan'\<rparr>) s))" for conn chan s
  proof -
    obtain r s1 where p: "probe_or_declare b cl conn chan s = (r, s1)"
      by (metis prod.exhaust)
    show ?thesis
    proof (cases r)
      case (Inl e)
      with p probe_lands [of b cl j left conn chan s] show ?thesis
        by (auto simp: next_point_def seq_def intro: lands_mono)
    next
      case (Inr chan')
      have "lands (Suc 0) b cl j (Installing left \<lparr>bs_connection = conn, bs_channel = chan'\<rparr>) s1
         (Publishing left \<lparr>bs_connection = conn, bs_channel = chan'\<rparr>,
          s1\<lparr>am_state := Some \<lparr>bs_connection = conn, bs_channel = chan'\<rparr>\<rparr>)"
        by (intro lands_step [OF _ lands_here]) (simp add: set_state_def)
      with Inr p probe_lands [of b cl j left conn chan s] show ?thesis
        using lands_trans [of 4 b cl j "Dialing left (Dial_Probe conn chan)" s _ s1 "Suc 0"]
        by (simp add: next_point_def seq_def set_state_def)
    qed
  qed
  have "lands (Suc (Suc (Suc 5))) b cl j (Dialing left Dial_Connect) s
     (next_point j left (\<lambda>st. Publishing left st)
       (seq (handle b (Connect (with_heartbeat (ac_addr cl)) (ac_name cl))) (\<lambda>conn.
          seq (handle b (Create_Channel conn)) (\<lambda>chan.
            seq (cmd b (Confirm_Select chan)) (\<lambda>_.
              seq (probe_or_declare b cl conn chan) (\<lambda>chan'.
                set_state \<lparr>bs_connection = conn, bs_channel = chan'\<rparr>)))) s))"
    by (rule lands_next, simp, rule lands_next, simp, rule lands_next, simp, rule install)
  then show ?thesis by simp
qed

lemma ensure_lands:
  "lands 11 b cl j (Ensuring left) s (next_point j left (\<lambda>st. Publishing left st) (ensure_state b cl s))"
proof (cases "ready_state b s")
  case None
  have "lands (Suc (Suc (Suc 8))) b cl j (Ensuring left) s
      (next_point j left (\<lambda>st. Publishing left st) (reconnect b cl s))"
    unfolding reconnect_def None option.case
    by (rule lands_step, simp add: None, rule lands_step, simp, rule lands_step, simp add: None,
        rule dial_lands)
  then show ?thesis by (simp add: ensure_state_def None)
next
  case (Some st)
  have "lands (Suc 0) b cl j (Ensuring left) s (Publishing left st, s)"
    by (intro lands_step [OF _ lands_here]) (simp add: Some)
  then show ?thesis by (auto simp: ensure_state_def Some next_point_def intro: lands_mono)
qed

lemma attempt_lands:
  "lands 12 b cl j (Ensuring left) s
     (settled j left (publish_once b cl (jb_key j) (jb_data j) (jb_ttl j) (jb_props j) s))"
proof -
  obtain r s1 where e: "ensure_state b cl s = (r, s1)"
    by (metis prod.exhaust)
  show ?thesis
  proof (cases r)
    case (Inl x)
    with e ensure_lands [of b cl j left s] show ?thesis
      by (auto simp: publish_once_def settled_def next_point_def seq_def intro: lands_mono)
  next
    case (Inr st)
    with e lands_trans [OF _ publishing_lands, where m = 11]
      ensure_lands [of b cl j left s] show ?thesis
      by (simp add: publish_once_def next_point_def seq_def)
  qed
qed

lemma push_lands:
  assumes "jb_retries j \<noteq> None" "jb_key j = ac_queue cl" "jb_ttl j = Some default_message_ttl"
    "jb_props j = props_default"
  shows "lands (14 * Suc left) b cl j (Ensuring left) s
    (case push_loop b cl (jb_data j) (Suc left) e s of (r, s') \<Rightarrow> (Returned r, s'))"
proof (induction left arbitrary: s e)
  case 0
  obtain r s1 where p: "publish_once b cl (ac_queue cl) (jb_data j) (Some default_message_ttl) props_default s = (r, s1)"
    by (metis prod.exhaust)
  have reset: "lands 2 b cl j (Resetting 0 x) s1 (Returned (Err x), drop_state s1)" for x
    by (rule lands_mono [of "Suc 0"], rule lands_step [OF _ lands_here]) simp_all
  show ?case
    using attempt_lands [of b cl j 0 s] assms p lands_trans [OF _ reset, where m = 12]
    by (cases r) (auto simp: settled_def next_point_def attempt_failed_def Let_def intro: lands_mono)
next
  case (Suc left)
  obtain r s1 where p: "publish_once b cl (ac_queue cl) (jb_data j) (Some default_message_ttl) props_default s = (r, s1)"
    by (metis prod.exhaust)
  show ?case
  proof (cases r)
    case (Inr u)
    with attempt_lands [of b cl j "Suc left" s] assms p show ?thesis
      by (auto simp: settled_def next_point_def intro: lands_mono)
  next
    case (Inl x)
    let ?s2 = "snd (cmd b (Sleep resend_delay) (drop_state s1))"
    have retry: "lands (Suc (Suc (14 * Suc left))) b cl j (Resetting (Suc left) x) s1
        (case push_loop b cl (jb_data j) (Suc left) x ?s2 of (r, s') \<Rightarrow> (Returned r, s'))"
      by (rule lands_step, simp, rule lands_step, simp, rule Suc.IH)
    have "lands 12 b cl j (Ensuring (Suc left)) s (Resetting (Suc left) x, s1)"
      using attempt_lands [of b cl j "Suc left" s] assms p Inl
      by (auto simp: settled_def next_point_def attempt_failed_def)
    from lands_trans [OF this retry] show ?thesis
      by (simp add: p Inl split_beta Let_def del: push_loop.simps(2) add: push_loop.simps(2) [of _ _ _ "Suc left"])
  qed
qed

subsection \<open>The deadline\<close>

text \<open>\<open>push\<close>: the retry loop under \<open>PUSH_TIMEOUT\<close>.  \<open>Some n\<close> says that the deadline fires once \<open>n\<close>
  steps of the loop have been taken: the future is dropped where it stands, what it has sent stays
  sent, the answer to the last command is lost, and the caller gets the timeout error.\<close>

definition push ::
  "('w, 'x) broker \<Rightarrow> amqp_client \<Rightarrow> bytes \<Rightarrow> nat option \<Rightarrow> ('w, 'x, unit) amqp_m" where
  "push b cl data deadline s =
     (case deadline of
        None \<Rightarrow> push_loop b cl data push_max_retries Push_Failed s
      | Some n \<Rightarrow>
          (let (t, s') = pub_run n b cl (push_job cl data) (job_start (push_job cl data) :: 'x point) s
           in (Err (Push_Timeout push_timeout), s')))"

lemma cmd_effect:
  "cmd b c s = (r, s') \<Longrightarrow> am_log s' = am_log s @ [c] \<and> am_state s' = am_state s"
  by (auto simp: cmd_def Let_def split: prod.splits sum.splits)

lemma handle_effect:
  "handle b c s = (r, s') \<Longrightarrow> am_log s' = am_log s @ [c] \<and> am_state s' = am_state s"
  by (auto simp: handle_def seq_def ret_def fail_with_def split: prod.splits sum.splits amqp_reply.splits
      dest!: cmd_effect)

lemma push_uncut:
  "pub_run 42 b cl (push_job cl data) (job_start (push_job cl data)) s =
     (case push b cl data None s of (r, s') \<Rightarrow> (Returned r, s'))"
proof -
  have "lands (14 * Suc 2) b cl (push_job cl data) (Ensuring 2) s
      (case push_loop b cl (jb_data (push_job cl data)) (Suc 2) Push_Failed s of (r, s') \<Rightarrow> (Returned r, s'))"
    by (rule push_lands) (simp_all add: push_job_def)
  then show ?thesis
    by (auto simp: push_def push_job_def job_start_def push_max_retries_def eval_nat_numeral
        split: prod.splits dest: lands_returned)
qed

lemma advance_log:
  assumes "pub_advance b cl j t s = (t', s')"
  shows "\<exists>cs. am_log s' = am_log s @ cs"
proof (cases t)
  case (Dialing left d)
  with assms show ?thesis
    by (cases d) (auto simp: next_point_def split: prod.splits sum.splits dest!: cmd_effect handle_effect)
next
  case (Resending left)
  with assms show ?thesis
    by (cases "cmd b (Sleep resend_delay) s") (auto dest!: cmd_effect)
qed (use assms in \<open>auto simp: set_state_def drop_state_def
      split: prod.splits sum.splits option.splits amqp_reply.splits if_splits dest!: cmd_effect\<close>)

lemma run_log: "\<exists>cs. am_log (snd (pub_run n b cl j t s)) = am_log s @ cs"
proof (induction n arbitrary: t s)
  case (Suc n)
  obtain t1 s1 where step: "pub_advance b cl j t s = (t1, s1)"
    by (metis prod.exhaust)
  with advance_log [OF this] Suc [of t1 s1] show ?case by auto
qed simp

text \<open>What a push that the deadline cuts off has issued is a beginning of what it would have issued.\<close>

lemma push_log_cut:
  "\<exists>ds. am_log (snd (push b cl data None s)) = am_log (snd (push b cl data deadline s)) @ ds"
proof (cases deadline)
  case (Some n)
  let ?j = "push_job cl data"
  obtain t1 s1 where cut: "pub_run n b cl ?j (job_start ?j) s = (t1, s1)"
    by (metis prod.exhaust)
  have "snd (pub_run (n + 42) b cl ?j (job_start ?j) s) = snd (pub_run 42 b cl ?j t1 s1)"
    by (simp add: pub_run_add cut)
  moreover have "snd (pub_run (42 + n) b cl ?j (job_start ?j) s) = snd (push b cl data None s)"
    unfolding pub_run_add push_uncut by (simp split: prod.split)
  ultimately have "snd (push b cl data None s) = snd (pub_run 42 b cl ?j t1 s1)"
    by (simp add: add.commute)
  with run_log [of 42 b cl ?j t1 s1] show ?thesis
    by (simp add: Some push_def cut)
qed simp

lemma push_log_from: "\<exists>cs. am_log (snd (push b cl data deadline s)) = am_log s @ cs"
proof (cases deadline)
  case None
  have "am_log (snd (push b cl data None s)) =
      am_log (snd (pub_run 42 b cl (push_job cl data) (job_start (push_job cl data)) s))"
    unfolding push_uncut by (simp split: prod.split)
  with None run_log [of 42 b cl "push_job cl data" "job_start (push_job cl data)" s] show ?thesis
    by simp
next
  case (Some n)
  with run_log [of n b cl "push_job cl data" "job_start (push_job cl data)" s] show ?thesis
    by (auto simp: push_def split: prod.splits)
qed

text \<open>The budget of the whole loop: what it issues, every beginning of it included.\<close>

lemma push_log_within:
  assumes "am_log (snd (push b cl data None s)) = am_log s @ cs @ ds"
  shows "publishes cs \<le> 3 \<and> slept cs \<le> from_secs 10 \<and>
    (queue_exists b (ac_queue cl) \<longrightarrow> list_all (\<lambda>c. \<not> is_active_declare c) cs)"
proof -
  define P where "P = (\<lambda>c. queue_exists b (ac_queue cl) \<longrightarrow> \<not> is_active_declare c)"
  have "issues_within P 0 0 (reconnect b cl)"
    by (rule within_reconnect) (auto simp: P_def)
  then have "issues_within P push_max_retries ((push_max_retries - 1) * resend_delay)
      (push_loop b cl data push_max_retries Push_Failed)"
    by (rule within_push_loop) (auto simp: P_def is_active_declare_def)
  moreover have "push_max_retries = 3" "(push_max_retries - 1) * resend_delay = from_secs 10"
    by (simp_all add: push_max_retries_def resend_delay_def from_secs_def)
  ultimately have within: "issues_within P 3 (from_secs 10) (push_loop b cl data push_max_retries Push_Failed)"
    by metis
  obtain r s' where run: "push_loop b cl data push_max_retries Push_Failed s = (r, s')"
    by (metis prod.exhaust)
  with within obtain es where
    es: "issues s s' es" "list_all P es" "publishes es \<le> 3" "slept es \<le> from_secs 10"
    unfolding issues_within_def by blast
  with run assms have "es = cs @ ds"
    by (simp add: push_def issues_def)
  with es(2-4) show ?thesis by (auto simp: P_def list_all_iff)
qed

subsection \<open>Properties\<close>

text \<open>C15: One \<open>push\<close>, whatever the broker answers and wherever the deadline cuts it off: it publishes at
  most three times and sleeps at most ten seconds in all, and on a broker that has the queue it never
  issues an active declaration, however often it reconnects, so it cannot collide with the arguments
  the queue was created with.  What a push that was cut off has issued is a beginning of what it
  would have issued.\<close>

theorem push_bounded:
  assumes "push b cl data deadline s = (r, s')"
  shows "\<exists>cs ds. am_log s' = am_log s @ cs \<and> publishes cs \<le> 3 \<and> slept cs \<le> from_secs 10 \<and>
    (queue_exists b (ac_queue cl) \<longrightarrow> list_all (\<lambda>c. \<not> is_active_declare c) cs) \<and>
    am_log (snd (push b cl data None s)) = am_log s' @ ds"
proof -
  obtain ds where ds: "am_log (snd (push b cl data None s)) = am_log s' @ ds"
    using push_log_cut [of b cl data s deadline] assms by auto
  obtain cs where "am_log s' = am_log s @ cs"
    using push_log_from [of b cl data deadline s] assms by auto
  with ds push_log_within [of b cl data s] show ?thesis
    by (intro exI [of _ cs] exI [of _ ds]) auto
qed

theorem push_bounded_witness:
  "publishes (am_log (snd (push demo_broker demo_client ''x'' (Some 17) demo_start))) \<le> 3 \<and>
   list_all (\<lambda>c. \<not> is_active_declare c) (am_log (snd (push demo_broker demo_client ''x'' (Some 17) demo_start)))"
proof -
  obtain r s' where run: "push demo_broker demo_client ''x'' (Some 17) demo_start = (r, s')"
    by (metis prod.exhaust)
  have "queue_exists demo_broker (ac_queue demo_client)"
    by (simp add: queue_exists_def demo_broker_def)
  moreover have "am_log demo_start = []"
    by (simp add: demo_start_def)
  ultimately show ?thesis
    using push_bounded [OF run] unfolding run by auto
qed

text \<open>C16: A push that reports success was confirmed: the last thing it asked of the broker was a publish
  to the client's queue, of exactly these bytes and properties, and the broker answered it with a
  positive confirmation. A publish that is not acknowledged is an error, not a success.\<close>

theorem push_confirmed:
  assumes "push b cl data deadline s = (Ok (), s')"
  shows "deadline = None \<and> (\<exists>cs ch w.
    let sent = Basic_Publish ch (ac_queue cl) data
      \<lparr>bp_content_type = Some ''application/json'', bp_expiration = Some ''60000'',
       bp_reply_to = None, bp_correlation_id = None\<rparr>
    in am_log s' = am_log s @ cs @ [sent] \<and>
       bk_exec b w sent = (Ok (Reply_Confirm False), am_world s'))"
proof -
  have "publish_props (Some default_message_ttl) props_default =
    \<lparr>bp_content_type = Some ''application/json'', bp_expiration = Some ''60000'',
     bp_reply_to = None, bp_correlation_id = None\<rparr>"
    by (simp add: publish_props_def props_default_def default_message_ttl_def)
  moreover from assms have "deadline = None" "push_loop b cl data push_max_retries Push_Failed s = (Ok (), s')"
    by (auto simp: push_def split: prod.splits option.splits)
  ultimately show ?thesis
    using push_loop_Ok [of b cl data push_max_retries Push_Failed s "()" s'] by (simp add: Let_def)
qed

definition confirming_broker :: "(nat, unit) broker" where
  "confirming_broker = demo_broker\<lparr>bk_exec := (\<lambda>w c. case c of Basic_Publish ch rk d p \<Rightarrow> (Ok (Reply_Confirm False), w)
     | Connect a n \<Rightarrow> (Ok (Reply_Handle w), w + 1) | Create_Channel conn \<Rightarrow> (Ok (Reply_Handle w), w + 1)
     | _ \<Rightarrow> (Ok Reply_Done, w))\<rparr>"

theorem push_confirmed_witness:
  "\<exists>ch props. last (am_log (snd (push confirming_broker demo_client ''x'' None demo_start))) =
     Basic_Publish ch ''q'' ''x'' props"
proof -
  have "fst (push confirming_broker demo_client ''x'' None demo_start) = Ok ()"
    by code_simp
  then obtain s' where s': "push confirming_broker demo_client ''x'' None demo_start = (Ok (), s')"
    by (metis prod.collapse)
  from push_confirmed [OF s'] s' show ?thesis by (auto simp: demo_client_def Let_def)
qed

text \<open>C19: With nothing in between, a task is its publisher: run from its start to its return, within 42
  steps for \<open>push\<close> and 12 for \<open>push_with_ttl\<close>, it returns what that function returns and leaves the
  broker, the cell and the log as the function leaves them.\<close>

theorem publishers_cut_exact:
  "pub_run 42 b cl (push_job cl data) (job_start (push_job cl data)) s =
     (case push b cl data None s of (r, s') \<Rightarrow> (Returned r, s')) \<and>
   pub_run 12 b cl (push_with_ttl_job cl data ttl) (job_start (push_with_ttl_job cl data ttl)) s =
     (case push_with_ttl b cl data ttl s of (r, s') \<Rightarrow> (Returned r, s'))"
proof -
  have "pub_run 12 b cl (push_with_ttl_job cl data ttl) (Ensuring 0) s =
     (case push_with_ttl b cl data ttl s of (r, s') \<Rightarrow> (Returned r, s'))"
    using attempt_lands [of b cl "push_with_ttl_job cl data ttl" 0 s]
    by (auto simp: push_with_ttl_job_def push_with_ttl_def settled_def next_point_def attempt_failed_def
        split: prod.splits sum.splits dest: lands_returned)
  then show ?thesis
    using push_uncut by (simp add: job_start_def push_with_ttl_job_def)
qed

end
