(* ===== verification/PcAmqpShared.thy ===== *)
theory PcAmqpShared
  imports PcAmqpPush "HOL-Library.Multiset"
begin

section \<open>pc-amqp: one client shared by many tasks\<close>

text \<open>
  \<open>crates/pc-amqp/src/lib.rs\<close>. Clones of an \<open>AmqpClient\<close> share the cell \<open>state\<close> and the mutex
  \<open>reconnect\<close>. A publisher is suspended at each of its awaits (the program points of \<open>PcAmqpPush\<close>)
  and the others run: \<open>shared_step\<close> interleaves tasks, deadlines, callers that give up, and whatever
  happens to the broker's connections.  What a command in flight did before its task was dropped is
  a step of the broker.

  The guard of the mutex lives from the lock in \<open>reconnect\<close> to its return, and is released as well
  when the future is dropped. The guards of \<open>state\<close>, an \<open>RwLock\<close>, are not held across an await that
  waits for anything else, so a read or write of it is one step. \<open>sh_lost\<close> is history that no step
  reads: what became of the connections that are not the current one.
\<close>

subsection \<open>Many publishers\<close>

datatype loss =
  Set_Up_Failed nat
| Replaced nat
| Thrown_Away nat bool

record ('w, 'x) shared =
  sh_tasks :: "(job \<times> 'x point) list"
  sh_lock :: "nat option"
  sh_store :: "'w amqp_world"
  sh_lost :: "loss list"

definition shared_new :: "'w amqp_world \<Rightarrow> ('w, 'x) shared" where
  "shared_new st = \<lparr>sh_tasks = [], sh_lock = None, sh_store = st, sh_lost = []\<rparr>"

text \<open>A connection was asked for and is not in the cell yet.\<close>

fun dialled :: "'x point \<Rightarrow> bool" where
  "dialled (Dialing left d) = (d \<noteq> Dial_Connect)"
| "dialled (Installing left st) = True"
| "dialled (Ensuring left) = False"
| "dialled (Locking left) = False"
| "dialled (Checking left) = False"
| "dialled (Publishing left st) = False"
| "dialled (Resetting left e) = False"
| "dialled (Resending left) = False"
| "dialled (Returned r) = False"
| "dialled Dropped = False"

fun losses :: "('w, 'x) broker \<Rightarrow> nat \<Rightarrow> 'x point \<Rightarrow> 'x point \<Rightarrow> 'w amqp_world \<Rightarrow> loss list" where
  "losses b i (Dialing left d) t s = (if holding t then [] else [Set_Up_Failed i])"
| "losses b i (Installing left st) t s = (if am_state s = None then [] else [Replaced i])"
| "losses b i (Resetting left e) t s =
     (case am_state s of
        None \<Rightarrow> []
      | Some st \<Rightarrow> [Thrown_Away i (state_ready b (am_world s) st)])"
| "losses b i (Ensuring left) t s = []"
| "losses b i (Locking left) t s = []"
| "losses b i (Checking left) t s = []"
| "losses b i (Publishing left st) t s = []"
| "losses b i (Resending left) t s = []"
| "losses b i (Returned r) t s = []"
| "losses b i Dropped t s = []"

definition shared_call :: "job \<Rightarrow> ('w, 'x) shared \<Rightarrow> ('w, 'x) shared" where
  "shared_call j s = s\<lparr>sh_tasks := sh_tasks s @ [(j, job_start j)]\<rparr>"

definition shared_acquire :: "nat \<Rightarrow> nat \<Rightarrow> ('w, 'x) shared \<Rightarrow> ('w, 'x) shared" where
  "shared_acquire i left s =
     s\<lparr>sh_tasks := (sh_tasks s)[i := (fst (sh_tasks s ! i), Checking left)], sh_lock := Some i\<rparr>"

definition shared_run ::
  "('w, 'x) broker \<Rightarrow> amqp_client \<Rightarrow> nat \<Rightarrow> ('w, 'x) shared \<Rightarrow> ('w, 'x) shared" where
  "shared_run b cl i s =
     (let (j, t) = sh_tasks s ! i; (t', st) = pub_advance b cl j t (sh_store s)
      in \<lparr>sh_tasks = (sh_tasks s)[i := (j, t')],
          sh_lock = (if holding t \<and> \<not> holding t' then None else sh_lock s),
          sh_store = st, sh_lost = sh_lost s @ losses b i t t' (sh_store s)\<rparr>)"

text \<open>The future of a task is dropped where it stands: at the deadline of \<open>push\<close>, or by its caller.\<close>

definition shared_end :: "nat \<Rightarrow> 'x point \<Rightarrow> ('w, 'x) shared \<Rightarrow> ('w, 'x) shared" where
  "shared_end i t' s =
     (let (j, t) = sh_tasks s ! i
      in s\<lparr>sh_tasks := (sh_tasks s)[i := (j, t')],
           sh_lock := (if holding t then None else sh_lock s),
           sh_lost := sh_lost s @ (if dialled t then [Set_Up_Failed i] else [])\<rparr>)"

definition at_broker :: "'w \<Rightarrow> ('w, 'x) shared \<Rightarrow> ('w, 'x) shared" where
  "at_broker w s = s\<lparr>sh_store := (sh_store s)\<lparr>am_world := w\<rparr>\<rparr>"

fun waiting :: "'x point \<Rightarrow> bool" where
  "waiting (Locking left) = True"
| "waiting (Ensuring left) = False"
| "waiting (Checking left) = False"
| "waiting (Dialing left d) = False"
| "waiting (Installing left st) = False"
| "waiting (Publishing left st) = False"
| "waiting (Resetting left e) = False"
| "waiting (Resending left) = False"
| "waiting (Returned r) = False"
| "waiting Dropped = False"

definition program_job :: "job \<Rightarrow> bool" where
  "program_job j \<longleftrightarrow> jb_retries j \<in> {None, Some push_max_retries}"

inductive shared_step ::
  "('w, 'x) broker \<Rightarrow> amqp_client \<Rightarrow> ('w, 'x) shared \<Rightarrow> ('w, 'x) shared \<Rightarrow> bool"
  for b :: "('w, 'x) broker" and cl :: amqp_client where
  Call: "program_job j \<Longrightarrow> shared_step b cl s (shared_call j s)"
| Acquire: "i < length (sh_tasks s) \<Longrightarrow> snd (sh_tasks s ! i) = Locking left \<Longrightarrow> sh_lock s = None \<Longrightarrow>
    shared_step b cl s (shared_acquire i left s)"
| Run: "i < length (sh_tasks s) \<Longrightarrow> live (snd (sh_tasks s ! i)) \<Longrightarrow> \<not> waiting (snd (sh_tasks s ! i)) \<Longrightarrow>
    shared_step b cl s (shared_run b cl i s)"
| Time_Out: "i < length (sh_tasks s) \<Longrightarrow> live (snd (sh_tasks s ! i)) \<Longrightarrow>
    jb_retries (fst (sh_tasks s ! i)) \<noteq> None \<Longrightarrow>
    shared_step b cl s (shared_end i (Returned (Err (Push_Timeout push_timeout))) s)"
| Cancel: "i < length (sh_tasks s) \<Longrightarrow> live (snd (sh_tasks s ! i)) \<Longrightarrow>
    shared_step b cl s (shared_end i Dropped s)"
| Broker: "shared_step b cl s (at_broker w s)"

text \<open>The states of a client that \<open>with_connection_name\<close> built.\<close>

definition shared_reachable ::
  "('w, 'x) broker \<Rightarrow> amqp_client \<Rightarrow> 'w \<Rightarrow> ('w, 'x) shared \<Rightarrow> bool" where
  "shared_reachable b cl w s \<longleftrightarrow>
     (\<exists>st. with_connection_name b (ac_queue cl) (ac_addr cl) (ac_name cl)
         \<lparr>am_world = w, am_log = [], am_acks = [], am_state = None\<rparr> = (Ok cl, st) \<and>
       (shared_step b cl)\<^sup>*\<^sup>* (shared_new st) s)"

subsection \<open>The lock and the connections\<close>

definition opened :: "amqp_cmd list \<Rightarrow> nat" where
  "opened cs = length (filter (\<lambda>c. case c of Connect a n \<Rightarrow> True | _ \<Rightarrow> False) cs)"

definition current :: "'w amqp_world \<Rightarrow> nat" where
  "current s = (if am_state s = None then 0 else 1)"

definition dialling :: "(job \<times> 'x point) list \<Rightarrow> nat" where
  "dialling ts = length (filter (\<lambda>t. dialled (snd t)) ts)"

lemma opened_simps [simp]:
  "opened [] = 0" "opened (xs @ ys) = opened xs + opened ys"
  "opened (Connect a n # cs) = Suc (opened cs)" "opened (Create_Channel c # cs) = opened cs"
  "opened (Confirm_Select c # cs) = opened cs" "opened (Queue_Declare c q opts # cs) = opened cs"
  "opened (Basic_Publish c k m p # cs) = opened cs" "opened (Sleep t # cs) = opened cs"
  by (simp_all add: opened_def)

lemma attempt_failed_free [simp]:
  "holding (attempt_failed j left e) = False" "dialled (attempt_failed j left e) = False"
  by (simp_all add: attempt_failed_def)

lemma advance_opened:
  assumes "pub_advance b cl j t s = (t', s')"
  shows "opened (am_log s') + current s + of_bool (dialled t) =
    opened (am_log s) + length (losses b i t t' s) + current s' + of_bool (dialled t')"
proof (cases t)
  case (Dialing left d)
  with assms show ?thesis
    by (cases d) (auto simp: next_point_def current_def split: prod.splits sum.splits
        dest!: cmd_effect handle_effect)
next
  case (Resending left)
  with assms show ?thesis
    by (cases "cmd b (Sleep resend_delay) s") (auto simp: current_def dest!: cmd_effect)
qed (use assms in \<open>auto simp: current_def set_state_def drop_state_def
      split: prod.splits sum.splits option.splits amqp_reply.splits if_splits dest!: cmd_effect\<close>)

lemma dialling_update:
  "i < length ts \<Longrightarrow>
     dialling (ts[i := t]) + of_bool (dialled (snd (ts ! i))) = dialling ts + of_bool (dialled (snd t))"
proof (induction ts arbitrary: i)
  case (Cons u ts)
  then show ?case by (cases i) (auto simp: dialling_def)
qed simp

lemma dialled_holding: "dialled t \<Longrightarrow> holding t"
  by (cases t) auto

lemma advance_holding:
  assumes "pub_advance b cl j t s = (t', s')" "\<not> waiting t" "holding t'"
  shows "holding t"
proof (cases t)
  case (Dialing left d)
  then show ?thesis by simp
qed (use assms in \<open>auto simp: attempt_failed_def
      split: prod.splits sum.splits option.splits amqp_reply.splits if_splits\<close>)

text \<open>The lock is held by the one task in the section it guards; and every connection that was ever
  asked for is the one in the cell, being set up, or among the lost.\<close>

definition shared_inv :: "('w, 'x) shared \<Rightarrow> bool" where
  "shared_inv s \<longleftrightarrow>
     (\<forall>i < length (sh_tasks s). holding (snd (sh_tasks s ! i)) \<longleftrightarrow> sh_lock s = Some i) \<and>
     (\<forall>i. sh_lock s = Some i \<longrightarrow> i < length (sh_tasks s)) \<and>
     opened (am_log (sh_store s)) =
       length (sh_lost s) + current (sh_store s) + dialling (sh_tasks s)"

lemma shared_invI:
  assumes "\<And>i. i < length (sh_tasks s) \<Longrightarrow> holding (snd (sh_tasks s ! i)) \<longleftrightarrow> sh_lock s = Some i"
    and "\<And>i. sh_lock s = Some i \<Longrightarrow> i < length (sh_tasks s)"
    and "opened (am_log (sh_store s)) = length (sh_lost s) + current (sh_store s) + dialling (sh_tasks s)"
  shows "shared_inv s"
  using assms by (simp add: shared_inv_def)

lemma shared_invD:
  assumes "shared_inv s"
  shows "\<And>i. i < length (sh_tasks s) \<Longrightarrow> holding (snd (sh_tasks s ! i)) \<longleftrightarrow> sh_lock s = Some i"
    and "\<And>i. sh_lock s = Some i \<Longrightarrow> i < length (sh_tasks s)"
    and "opened (am_log (sh_store s)) = length (sh_lost s) + current (sh_store s) + dialling (sh_tasks s)"
  using assms by (simp_all add: shared_inv_def)

lemma job_start_free [simp]: "holding (job_start j) = False" "dialled (job_start j) = False"
  by (simp_all add: job_start_def)

lemma shared_inv_call: "shared_inv s \<Longrightarrow> shared_inv (shared_call j s)"
  by (auto simp: shared_inv_def shared_call_def nth_append less_Suc_eq dialling_def)

lemma shared_inv_acquire:
  assumes "shared_inv s" "i < length (sh_tasks s)" "snd (sh_tasks s ! i) = Locking left" "sh_lock s = None"
  shows "shared_inv (shared_acquire i left s)"
proof -
  have "dialling ((sh_tasks s)[i := (fst (sh_tasks s ! i), Checking left)]) = dialling (sh_tasks s)"
    using dialling_update [OF assms(2), of "(fst (sh_tasks s ! i), Checking left)"] assms(3) by simp
  with shared_invD [OF assms(1)] assms(2-4) show ?thesis
    by (intro shared_invI) (auto simp: shared_acquire_def nth_list_update)
qed

lemma shared_inv_run:
  assumes inv: "shared_inv s" and i: "i < length (sh_tasks s)" and run: "\<not> waiting (snd (sh_tasks s ! i))"
  shows "shared_inv (shared_run b cl i s)"
proof -
  obtain j t where jt: "sh_tasks s ! i = (j, t)"
    by (metis prod.exhaust)
  obtain t' st where adv: "pub_advance b cl j t (sh_store s) = (t', st)"
    by (metis prod.exhaust)
  have s': "shared_run b cl i s =
      \<lparr>sh_tasks = (sh_tasks s)[i := (j, t')],
       sh_lock = (if holding t \<and> \<not> holding t' then None else sh_lock s),
       sh_store = st, sh_lost = sh_lost s @ losses b i t t' (sh_store s)\<rparr>"
    by (simp add: shared_run_def jt adv)
  have own: "holding t \<longleftrightarrow> sh_lock s = Some i"
    using shared_invD(1) [OF inv i] jt by simp
  have enters: "holding t' \<Longrightarrow> holding t"
    using advance_holding [OF adv] run jt by simp
  show ?thesis
    unfolding s'
  proof (rule shared_invI, goal_cases)
    case (1 k)
    then show ?case
      using shared_invD(1) [OF inv, of k] own enters i jt by (cases "k = i") auto
  next
    case (2 k)
    then show ?case using shared_invD(2) [OF inv, of k] by (auto split: if_splits)
  next
    case 3
    then show ?case
      using shared_invD(3) [OF inv] advance_opened [OF adv, of i] dialling_update [OF i, of "(j, t')"] jt
      by simp
  qed
qed

lemma shared_inv_end:
  assumes inv: "shared_inv s" and i: "i < length (sh_tasks s)" and t': "\<not> holding t'"
  shows "shared_inv (shared_end i t' s)"
proof -
  obtain j t where jt: "sh_tasks s ! i = (j, t)"
    by (metis prod.exhaust)
  have own: "holding t \<longleftrightarrow> sh_lock s = Some i"
    using shared_invD(1) [OF inv i] jt by simp
  have "\<not> dialled t'"
    using t' dialled_holding by blast
  then have count: "dialling ((sh_tasks s)[i := (j, t')]) + of_bool (dialled t) = dialling (sh_tasks s)"
    using dialling_update [OF i, of "(j, t')"] jt by simp
  show ?thesis
    unfolding shared_end_def jt prod.case
  proof (rule shared_invI, goal_cases)
    case (1 k)
    then show ?case
      using shared_invD(1) [OF inv, of k] own t' i jt by (cases "k = i") auto
  next
    case (2 k)
    then show ?case using shared_invD(2) [OF inv, of k] by (auto split: if_splits)
  next
    case 3
    then show ?case using shared_invD(3) [OF inv] count by (auto split: if_splits)
  qed
qed

lemma shared_inv_broker: "shared_inv s \<Longrightarrow> shared_inv (at_broker w s)"
  by (simp add: at_broker_def shared_inv_def current_def)

lemma shared_inv_step: "shared_step b cl s s' \<Longrightarrow> shared_inv s \<Longrightarrow> shared_inv s'"
  by (induction rule: shared_step.induct)
    (auto intro: shared_inv_call shared_inv_acquire shared_inv_run shared_inv_end shared_inv_broker)

lemma probe_effect:
  "probe_or_declare b cl conn chan s = (r, s') \<Longrightarrow>
     opened (am_log s') = opened (am_log s) \<and> am_state s' = am_state s"
  by (auto simp: probe_or_declare_def seq_def ret_def split: prod.splits sum.splits
      dest!: cmd_effect handle_effect)

lemma constructor_opens_one:
  assumes "with_connection_name b q a n \<lparr>am_world = w, am_log = [], am_acks = [], am_state = None\<rparr> = (Ok cl, st)"
  shows "opened (am_log st) = 1 \<and> current st = 1"
  using assms
  by (auto simp: with_connection_name_def reconnect_def ready_state_def Let_def seq_def ret_def fail_with_def
      set_state_def current_def split: prod.splits sum.splits if_splits
      dest!: cmd_effect handle_effect probe_effect)

lemma shared_reachable_inv:
  assumes "shared_reachable b cl w s"
  shows "shared_inv s"
proof -
  obtain st where st: "with_connection_name b (ac_queue cl) (ac_addr cl) (ac_name cl)
        \<lparr>am_world = w, am_log = [], am_acks = [], am_state = None\<rparr> = (Ok cl, st)"
    and steps: "(shared_step b cl)\<^sup>*\<^sup>* (shared_new st) s"
    using assms unfolding shared_reachable_def by blast
  have "shared_inv (shared_new st)"
    using constructor_opens_one [OF st] by (simp add: shared_inv_def shared_new_def dialling_def)
  with steps show ?thesis
    by (induction rule: rtranclp_induct) (auto intro: shared_inv_step)
qed

subsection \<open>Confirmed publishes\<close>

text \<open>What the publishes among some commands carried: routing key, bytes and properties.\<close>

definition messages :: "amqp_cmd list \<Rightarrow> (string \<times> bytes \<times> basic_props) list" where
  "messages cs = concat (map (\<lambda>c. case c of Basic_Publish ch rk data pr \<Rightarrow> [(rk, data, pr)] | _ \<Rightarrow> []) cs)"

lemma messages_simps [simp]:
  "messages [] = []" "messages (cs @ ds) = messages cs @ messages ds"
  "messages [Basic_Publish ch rk data pr] = [(rk, data, pr)]"
  by (simp_all add: messages_def)

definition job_message :: "job \<Rightarrow> string \<times> bytes \<times> basic_props" where
  "job_message j = (jb_key j, jb_data j, publish_props (jb_ttl j) (jb_props j))"

definition returned_ok :: "'x point \<Rightarrow> bool" where
  "returned_ok t = (case t of Returned r \<Rightarrow> is_ok r | _ \<Rightarrow> False)"

lemma returned_ok_simps [simp]:
  "returned_ok (Returned r) = is_ok r" "live t \<Longrightarrow> \<not> returned_ok t" "\<not> returned_ok Dropped"
  "\<not> returned_ok (attempt_failed j left e)" "\<not> returned_ok (job_start j)"
  by (auto simp: returned_ok_def attempt_failed_def job_start_def split: point.split)

definition delivered :: "(job \<times> 'x point) list \<Rightarrow> (string \<times> bytes \<times> basic_props) list" where
  "delivered ts = map (job_message \<circ> fst) (filter (returned_ok \<circ> snd) ts)"

text \<open>Every task that returned success has a confirmed publish of its own, and only commands that were
  issued were confirmed.\<close>

definition acks_inv :: "('w, 'x) shared \<Rightarrow> bool" where
  "acks_inv s \<longleftrightarrow>
     mset (delivered (sh_tasks s)) \<subseteq># mset (messages (am_acks (sh_store s))) \<and>
     mset (am_acks (sh_store s)) \<subseteq># mset (am_log (sh_store s))"

definition acks_grow :: "'w amqp_world \<Rightarrow> 'w amqp_world \<Rightarrow> bool" where
  "acks_grow s s' \<longleftrightarrow>
     (\<exists>cs ds. am_log s' = am_log s @ cs \<and> am_acks s' = am_acks s @ ds \<and> mset ds \<subseteq># mset cs)"

lemma acks_grow_refl [intro]: "am_log s' = am_log s \<Longrightarrow> am_acks s' = am_acks s \<Longrightarrow> acks_grow s s'"
  by (auto simp: acks_grow_def)

lemma acks_grow_trans: "acks_grow s s' \<Longrightarrow> acks_grow s' s'' \<Longrightarrow> acks_grow s s''"
  unfolding acks_grow_def by (auto intro: subset_mset.add_mono)

lemma acks_growD:
  assumes "acks_grow s s'"
  shows "mset (messages (am_acks s)) \<subseteq># mset (messages (am_acks s'))"
    and "mset (am_acks s) \<subseteq># mset (am_log s) \<Longrightarrow> mset (am_acks s') \<subseteq># mset (am_log s')"
  using assms by (auto simp: acks_grow_def intro: subset_mset.add_mono)

lemma cmd_acks: "cmd b c s = (r, s') \<Longrightarrow> acks_grow s s'"
  unfolding acks_grow_def
  by (rule exI [of _ "[c]"]) (auto simp: cmd_def Let_def split: prod.splits sum.splits if_splits)

lemma handle_acks: "handle b c s = (r, s') \<Longrightarrow> acks_grow s s'"
  by (auto simp: handle_def seq_def ret_def fail_with_def split: prod.splits sum.splits amqp_reply.splits
      dest: cmd_acks)

lemma confirmed_acks:
  "cmd b c s = (Ok (Reply_Confirm False), s') \<Longrightarrow> am_acks s' = am_acks s @ [c]"
  by (auto simp: cmd_def Let_def split: prod.splits sum.splits if_splits)

lemma advance_acks:
  assumes "pub_advance b cl j t s = (t', s')"
  shows "acks_grow s s'"
proof (cases t)
  case (Dialing left d)
  with assms show ?thesis
    by (cases d) (auto simp: next_point_def split: prod.splits sum.splits dest: cmd_acks handle_acks)
next
  case (Resending left)
  with assms show ?thesis
    by (cases "cmd b (Sleep resend_delay) s") (auto dest: cmd_acks)
qed (use assms in \<open>auto simp: set_state_def drop_state_def
      split: prod.splits sum.splits option.splits amqp_reply.splits if_splits dest: cmd_acks\<close>)

lemma advance_delivers:
  assumes "pub_advance b cl j t s = (t', s')" "live t" "returned_ok t'"
  shows "\<exists>ch. am_acks s' = am_acks s @
    [Basic_Publish ch (jb_key j) (jb_data j) (publish_props (jb_ttl j) (jb_props j))]"
proof (cases t)
  case (Dialing left d)
  with assms show ?thesis
    by (cases d) (auto simp: next_point_def split: prod.splits sum.splits)
next
  case (Publishing left st)
  with assms show ?thesis
    by (auto split: prod.splits sum.splits amqp_reply.splits if_splits dest: confirmed_acks)
qed (use assms in \<open>auto split: option.splits if_splits\<close>)

lemma delivered_update:
  "i < length ts \<Longrightarrow> \<not> returned_ok (snd (ts ! i)) \<Longrightarrow>
     mset (delivered (ts[i := (j, t)])) =
       mset (delivered ts) + (if returned_ok t then {#job_message j#} else {#})"
proof (induction ts arbitrary: i)
  case (Cons u ts)
  then show ?case by (cases i) (auto simp: delivered_def)
qed simp

lemma delivered_append: "delivered (ts @ [(j, t)]) = delivered ts @ (if returned_ok t then [job_message j] else [])"
  by (simp add: delivered_def)

lemma acks_inv_run:
  assumes inv: "acks_inv s" and i: "i < length (sh_tasks s)" "live (snd (sh_tasks s ! i))"
  shows "acks_inv (shared_run b cl i s)"
proof -
  obtain j t where jt: "sh_tasks s ! i = (j, t)"
    by (metis prod.exhaust)
  obtain t' st where adv: "pub_advance b cl j t (sh_store s) = (t', st)"
    by (metis prod.exhaust)
  have s': "sh_tasks (shared_run b cl i s) = (sh_tasks s)[i := (j, t')]" "sh_store (shared_run b cl i s) = st"
    by (simp_all add: shared_run_def jt adv)
  note grow = advance_acks [OF adv]
  from inv have old: "mset (delivered (sh_tasks s)) \<subseteq># mset (messages (am_acks (sh_store s)))"
    and log: "mset (am_acks (sh_store s)) \<subseteq># mset (am_log (sh_store s))"
    by (simp_all add: acks_inv_def)
  have update: "mset (delivered ((sh_tasks s)[i := (j, t')])) =
      mset (delivered (sh_tasks s)) + (if returned_ok t' then {#job_message j#} else {#})"
    using i jt by (intro delivered_update) simp_all
  have "mset (delivered ((sh_tasks s)[i := (j, t')])) \<subseteq># mset (messages (am_acks st))"
  proof (cases "returned_ok t'")
    case True
    with advance_delivers [OF adv] i jt obtain ch where
      "am_acks st = am_acks (sh_store s) @ [Basic_Publish ch (jb_key j) (jb_data j) (publish_props (jb_ttl j) (jb_props j))]"
      by auto
    with True update old show ?thesis by (simp add: job_message_def)
  next
    case False
    with update old acks_growD(1) [OF grow] show ?thesis by (auto intro: subset_mset.order_trans)
  qed
  with acks_growD(2) [OF grow log] show ?thesis by (simp add: acks_inv_def s')
qed

lemma acks_inv_end:
  assumes "acks_inv s" "i < length (sh_tasks s)" "live (snd (sh_tasks s ! i))" "\<not> returned_ok t'"
  shows "acks_inv (shared_end i t' s)"
proof -
  obtain j t where "sh_tasks s ! i = (j, t)" by (metis prod.exhaust)
  with assms delivered_update [OF assms(2), of j t'] show ?thesis
    by (simp add: acks_inv_def shared_end_def)
qed

lemma acks_inv_step: "shared_step b cl s s' \<Longrightarrow> acks_inv s \<Longrightarrow> acks_inv s'"
proof (induction rule: shared_step.induct)
  case (Acquire i s left)
  then show ?case
    using delivered_update [OF Acquire(1), of "fst (sh_tasks s ! i)" "Checking left"]
    by (simp add: acks_inv_def shared_acquire_def)
next
  case (Run i s)
  then show ?case by (intro acks_inv_run)
next
  case (Time_Out i s)
  then show ?case by (intro acks_inv_end) simp_all
next
  case (Cancel i s)
  then show ?case by (intro acks_inv_end) simp_all
qed (simp_all add: acks_inv_def shared_call_def delivered_append at_broker_def)

text \<open>A finished task stays as it is, and no step changes what a task was asked to do.\<close>

lemma shared_step_tasks:
  "shared_step b cl s s' \<Longrightarrow> k < length (sh_tasks s) \<Longrightarrow>
     k < length (sh_tasks s') \<and> fst (sh_tasks s' ! k) = fst (sh_tasks s ! k) \<and>
     (\<not> live (snd (sh_tasks s ! k)) \<longrightarrow> sh_tasks s' ! k = sh_tasks s ! k)"
  by (induction rule: shared_step.induct)
    (auto simp: shared_call_def shared_acquire_def shared_run_def shared_end_def at_broker_def nth_append
      nth_list_update split: prod.splits)

text \<open>The same for the setup of a client.\<close>

definition acking :: "('w, 'x, 'a) amqp_m \<Rightarrow> bool" where
  "acking m \<longleftrightarrow> (\<forall>s. acks_grow s (snd (m s)))"

lemma acking_seq:
  assumes "acking m" "\<And>a. acking (f a)"
  shows "acking (seq m f)"
  unfolding acking_def
proof
  fix s
  obtain r s' where m: "m s = (r, s')" by fastforce
  with assms(1) have "acks_grow s s'" by (auto simp: acking_def dest: spec [of _ s])
  with assms(2) m show "acks_grow s (snd (seq m f s))"
    by (cases r) (auto simp: seq_def acking_def intro: acks_grow_trans)
qed

lemma acking_basic [intro]:
  "acking (cmd b c)" "acking (handle b c)" "acking (ret a)" "acking (fail_with e)" "acking (set_state st)"
  using cmd_acks [of b c] handle_acks [of b c]
  by (auto simp: acking_def ret_def fail_with_def set_state_def) (metis prod.collapse)+

lemma acking_probe: "acking (probe_or_declare b cl conn chan)"
  unfolding acking_def
proof
  fix s
  let ?fresh = "seq (handle b (Create_Channel conn)) (\<lambda>chan'.
    seq (cmd b (Confirm_Select chan')) (\<lambda>_.
      seq (cmd b (Queue_Declare chan' (ac_queue cl) declare_options)) (\<lambda>_. ret chan')))"
  obtain r s' where c: "cmd b (Queue_Declare chan (ac_queue cl) passive_probe_options) s = (r, s')"
    by fastforce
  have "acking ?fresh" by (intro acking_seq acking_basic)
  then have "acks_grow s' (snd (?fresh s'))" by (simp add: acking_def)
  with cmd_acks [OF c] c show "acks_grow s (snd (probe_or_declare b cl conn chan s))"
    by (cases r) (auto simp: probe_or_declare_def intro: acks_grow_trans)
qed

lemma acking_reconnect: "acking (reconnect b cl)"
proof -
  have "acking (seq (handle b (Connect (with_heartbeat (ac_addr cl)) (ac_name cl))) (\<lambda>conn.
      seq (handle b (Create_Channel conn)) (\<lambda>chan.
        seq (cmd b (Confirm_Select chan)) (\<lambda>_.
          seq (probe_or_declare b cl conn chan) (\<lambda>chan'.
            set_state \<lparr>bs_connection = conn, bs_channel = chan'\<rparr>)))))"
    by (intro acking_seq acking_basic acking_probe)
  then show ?thesis
    by (auto simp: acking_def reconnect_def split: option.split)
qed

lemma new_client_acks:
  "with_connection_name b queue addr name s = (r, s') \<Longrightarrow> acks_grow s s'"
proof -
  assume run: "with_connection_name b queue addr name s = (r, s')"
  have "acking (with_connection_name b queue addr name)"
    unfolding with_connection_name_def Let_def
    by (auto intro: acking_seq acking_reconnect acking_basic)
  with run show ?thesis by (metis acking_def snd_conv)
qed

lemma shared_reachable_acks:
  assumes "shared_reachable b cl w s"
  shows "acks_inv s"
proof -
  obtain st where st: "with_connection_name b (ac_queue cl) (ac_addr cl) (ac_name cl)
      \<lparr>am_world = w, am_log = [], am_acks = [], am_state = None\<rparr> = (Ok cl, st)"
    and run: "(shared_step b cl)\<^sup>*\<^sup>* (shared_new st) s"
    using assms unfolding shared_reachable_def by blast
  from run show ?thesis
  proof (induction rule: rtranclp_induct)
    case base
    from new_client_acks [OF st] show ?case
      by (auto simp: acks_grow_def acks_inv_def shared_new_def delivered_def)
  qed (blast intro: acks_inv_step)
qed

subsection \<open>Progress\<close>

fun dial_rank :: "dial \<Rightarrow> nat" where
  "dial_rank Dial_Connect = 11"
| "dial_rank (Dial_Channel conn) = 10"
| "dial_rank (Dial_Confirm conn chan) = 9"
| "dial_rank (Dial_Probe conn chan) = 8"
| "dial_rank (Dial_Reopen conn) = 7"
| "dial_rank (Dial_Reconfirm conn chan) = 6"
| "dial_rank (Dial_Declare conn chan) = 5"

fun rank :: "'x point \<Rightarrow> nat" where
  "rank (Ensuring left) = 14 * left + 14"
| "rank (Locking left) = 14 * left + 13"
| "rank (Checking left) = 14 * left + 12"
| "rank (Dialing left d) = 14 * left + dial_rank d"
| "rank (Installing left st) = 14 * left + 4"
| "rank (Publishing left st) = 14 * left + 3"
| "rank (Resetting left e) = 14 * left + 2"
| "rank (Resending left) = (if left = 0 then 15 else 14 * left + 1)"
| "rank (Returned r) = 0"
| "rank Dropped = 0"

lemma attempt_failed_rank: "rank (attempt_failed j left e) \<le> 14 * left + 2"
  by (simp add: attempt_failed_def)

lemma advance_rank:
  assumes "pub_advance b cl j t s = (t', s')" "live t"
  shows "rank t' < rank t"
proof (cases t)
  case (Dialing left d)
  have *: "rank (attempt_failed j left e) < 14 * left + k" if "3 \<le> k" for e k
    using attempt_failed_rank [of j left e] that by simp
  show ?thesis
    using assms Dialing
    by (cases d) (auto simp: next_point_def * split: prod.splits sum.splits)
next
  case (Publishing left st)
  have *: "rank (attempt_failed j left e) < 14 * left + 3" for e
    using attempt_failed_rank [of j left e] by simp
  show ?thesis
    using assms Publishing
    by (auto simp: * split: prod.splits sum.splits amqp_reply.splits if_splits)
next
  case (Resending left)
  with assms show ?thesis by (cases left) auto
qed (use assms in \<open>auto split: option.splits if_splits\<close>)

text \<open>The steps of publishers that go on, with the broker changing in between.\<close>

inductive work_step ::
  "('w, 'x) broker \<Rightarrow> amqp_client \<Rightarrow> ('w, 'x) shared \<Rightarrow> ('w, 'x) shared \<Rightarrow> bool"
  for b :: "('w, 'x) broker" and cl :: amqp_client where
  W_Acquire: "i < length (sh_tasks s) \<Longrightarrow> snd (sh_tasks s ! i) = Locking left \<Longrightarrow> sh_lock s = None \<Longrightarrow>
    work_step b cl s (at_broker w (shared_acquire i left s))"
| W_Run: "i < length (sh_tasks s) \<Longrightarrow> live (snd (sh_tasks s ! i)) \<Longrightarrow> \<not> waiting (snd (sh_tasks s ! i)) \<Longrightarrow>
    work_step b cl s (at_broker w (shared_run b cl i s))"

definition to_do :: "('w, 'x) shared \<Rightarrow> nat" where
  "to_do s = sum_list (map (\<lambda>t. rank (snd t)) (sh_tasks s))"

lemma rank_update:
  "i < length ts \<Longrightarrow> sum_list (map (\<lambda>t. rank (snd t)) (ts[i := t])) + rank (snd (ts ! i)) =
     sum_list (map (\<lambda>t. rank (snd t)) ts) + rank (snd t)"
proof (induction ts arbitrary: i)
  case (Cons u ts)
  then show ?case by (cases i) auto
qed simp

lemma work_step_shared: "work_step b cl s s' \<Longrightarrow> (shared_step b cl)\<^sup>*\<^sup>* s s'"
  by (induction rule: work_step.induct)
    (meson converse_rtranclp_into_rtranclp r_into_rtranclp shared_step.intros)+

lemma work_step_to_do:
  assumes "work_step b cl s s'"
  shows "to_do s' < to_do s \<and> length (sh_tasks s') = length (sh_tasks s)"
  using assms
proof cases
  case (W_Acquire i left w)
  with rank_update [OF W_Acquire(2), of "(fst (sh_tasks s ! i), Checking left)"] show ?thesis
    by (simp add: at_broker_def to_do_def shared_acquire_def)
next
  case (W_Run i w)
  obtain j t where jt: "sh_tasks s ! i = (j, t)"
    by (metis prod.exhaust)
  obtain t' st where adv: "pub_advance b cl j t (sh_store s) = (t', st)"
    by (metis prod.exhaust)
  show ?thesis
    using W_Run advance_rank [OF adv] rank_update [OF W_Run(2), of "(j, t')"] jt adv
    by (simp add: at_broker_def to_do_def shared_run_def)
qed

lemma holding_runs: "holding t \<Longrightarrow> live t \<and> \<not> waiting t"
  by (cases t) auto

lemma waiting_Locking: "waiting t \<Longrightarrow> \<exists>left. t = Locking left"
  by (cases t) auto

lemma work_stuck:
  assumes inv: "shared_inv s" and stuck: "\<And>s'. \<not> work_step b cl s s'" and i: "i < length (sh_tasks s)"
  shows "\<not> live (snd (sh_tasks s ! i))"
proof
  assume live: "live (snd (sh_tasks s ! i))"
  show False
  proof (cases "waiting (snd (sh_tasks s ! i))")
    case False
    from work_step.W_Run [OF i live this] stuck show False by (rule notE [rotated])
  next
    case True
    then obtain left where left: "snd (sh_tasks s ! i) = Locking left"
      using waiting_Locking by blast
    show False
    proof (cases "sh_lock s")
      case None
      from work_step.W_Acquire [OF i left this] stuck show False by (rule notE [rotated])
    next
      case (Some k)
      then have k: "k < length (sh_tasks s)" "holding (snd (sh_tasks s ! k))"
        using shared_invD(1,2) [OF inv, of k] by simp_all
      from work_step.W_Run [OF k(1)] holding_runs [OF k(2)] stuck show False by (metis (no_types))
    qed
  qed
qed

lemma work_run:
  "(work_step b cl ^^ n) s s' \<Longrightarrow>
     n + to_do s' \<le> to_do s \<and> length (sh_tasks s') = length (sh_tasks s) \<and> (shared_step b cl)\<^sup>*\<^sup>* s s'"
proof (induction n arbitrary: s')
  case (Suc n)
  then obtain q where q: "(work_step b cl ^^ n) s q" "work_step b cl q s'" by auto
  from Suc.IH [OF q(1)] work_step_to_do [OF q(2)] work_step_shared [OF q(2)] show ?case
    by (auto intro: rtranclp_trans)
qed auto

text \<open>No task has more than the steps of three attempts before it.\<close>

definition ranks_ok :: "('w, 'x) shared \<Rightarrow> bool" where
  "ranks_ok s \<longleftrightarrow> (\<forall>t \<in> set (sh_tasks s). rank (snd t) \<le> 42)"

lemma ranks_ok_update:
  "\<forall>t \<in> set ts. rank (snd t) \<le> 42 \<Longrightarrow> i < length ts \<Longrightarrow> rank (snd t) \<le> rank (snd (ts ! i)) \<Longrightarrow>
     \<forall>t \<in> set (ts[i := t]). rank (snd t) \<le> 42"
  using set_update_subset_insert [of ts i t] nth_mem [of i ts] by fastforce

lemma ranks_ok_step:
  assumes "shared_step b cl s s'" "ranks_ok s"
  shows "ranks_ok s'"
  using assms
proof cases
  case (Call j)
  then have "rank (job_start j :: 'b point) \<le> 42"
    by (auto simp: program_job_def job_start_def push_max_retries_def)
  with Call assms(2) show ?thesis by (simp add: ranks_ok_def shared_call_def)
next
  case (Acquire i left)
  with assms(2) ranks_ok_update [OF _ Acquire(2), of "(fst (sh_tasks s ! i), Checking left)"] show ?thesis
    by (simp add: ranks_ok_def shared_acquire_def)
next
  case (Run i)
  obtain j t where jt: "sh_tasks s ! i = (j, t)"
    by (metis prod.exhaust)
  obtain t' st where adv: "pub_advance b cl j t (sh_store s) = (t', st)"
    by (metis prod.exhaust)
  show ?thesis
    using Run assms(2) advance_rank [OF adv] ranks_ok_update [OF _ Run(2), of "(j, t')"] jt adv
    by (simp add: ranks_ok_def shared_run_def)
next
  case (Time_Out i)
  with assms(2) ranks_ok_update [OF _ Time_Out(2), of "(fst (sh_tasks s ! i), Returned (Err (Push_Timeout push_timeout)))"]
  show ?thesis by (simp add: ranks_ok_def shared_end_def split_beta)
next
  case (Cancel i)
  with assms(2) ranks_ok_update [OF _ Cancel(2), of "(fst (sh_tasks s ! i), Dropped)"]
  show ?thesis by (simp add: ranks_ok_def shared_end_def split_beta)
next
  case (Broker w)
  with assms(2) show ?thesis by (simp add: ranks_ok_def at_broker_def)
qed

lemma shared_reachable_ranks: "shared_reachable b cl w s \<Longrightarrow> ranks_ok s"
proof -
  assume "shared_reachable b cl w s"
  then obtain st where "(shared_step b cl)\<^sup>*\<^sup>* (shared_new st) s"
    unfolding shared_reachable_def by blast
  then show ?thesis
  proof (induction rule: rtranclp_induct)
    case base
    show ?case by (simp add: ranks_ok_def shared_new_def)
  next
    case (step y z)
    from step.hyps(2) step.IH show ?case by (rule ranks_ok_step)
  qed
qed

lemma ranks_sum: "\<forall>t \<in> set ts. rank (snd t) \<le> 42 \<Longrightarrow> sum_list (map (\<lambda>t. rank (snd t)) ts) \<le> 42 * length ts"
  by (induction ts) auto

lemma ranks_ok_to_do:
  assumes "ranks_ok s"
  shows "to_do s \<le> 42 * length (sh_tasks s)"
  using ranks_sum [of "sh_tasks s"] assms by (simp add: ranks_ok_def to_do_def)

subsection \<open>A run\<close>

text \<open>What the program and the broker do one after another, where each can.\<close>

datatype 'w move = Make job | Take nat | Go nat | Broker_At 'w

fun act ::
  "('w, 'x) broker \<Rightarrow> amqp_client \<Rightarrow> 'w move \<Rightarrow> ('w, 'x) shared \<Rightarrow> ('w, 'x) shared option" where
  "act b cl (Make j) s = (if program_job j then Some (shared_call j s) else None)"
| "act b cl (Take i) s =
     (if i < length (sh_tasks s) \<and> sh_lock s = None
      then (case snd (sh_tasks s ! i) of Locking left \<Rightarrow> Some (shared_acquire i left s) | _ \<Rightarrow> None) else None)"
| "act b cl (Go i) s =
     (if i < length (sh_tasks s) \<and> live (snd (sh_tasks s ! i)) \<and> \<not> waiting (snd (sh_tasks s ! i))
      then Some (shared_run b cl i s) else None)"
| "act b cl (Broker_At w) s = Some (at_broker w s)"

fun play ::
  "('w, 'x) broker \<Rightarrow> amqp_client \<Rightarrow> 'w move list \<Rightarrow> ('w, 'x) shared \<Rightarrow> ('w, 'x) shared option" where
  "play b cl [] s = Some s"
| "play b cl (x # xs) s = Option.bind (act b cl x s) (play b cl xs)"

lemma act_step: "act b cl x s = Some s' \<Longrightarrow> shared_step b cl s s'"
  by (cases x) (auto intro: shared_step.intros split: if_splits point.splits)

lemma play_steps: "play b cl xs s = Some s' \<Longrightarrow> (shared_step b cl)\<^sup>*\<^sup>* s s'"
  by (induction xs arbitrary: s)
    (auto simp: bind_eq_Some_conv intro: converse_rtranclp_into_rtranclp act_step)

lemma play_reachable:
  assumes "with_connection_name b (ac_queue cl) (ac_addr cl) (ac_name cl)
      \<lparr>am_world = w, am_log = [], am_acks = [], am_state = None\<rparr> = (Ok cl, st)"
    and "play b cl xs (shared_new st) = Some s"
  shows "shared_reachable b cl w s"
  using assms play_steps unfolding shared_reachable_def by blast

text \<open>A broker whose handles below the second number of its state are dead; a publish on a dead
  channel fails.\<close>

definition mortal_broker :: "(nat \<times> nat, unit) broker" where
  "mortal_broker =
     \<lparr>bk_exec = (\<lambda>(n, dead) c. case c of
          Basic_Publish ch rk d p \<Rightarrow> ((if ch < dead then Inl () else Ok (Reply_Confirm False)), (n, dead))
        | Connect a m \<Rightarrow> (Ok (Reply_Handle n), (n + 1, dead))
        | Create_Channel conn \<Rightarrow> (Ok (Reply_Handle n), (n + 1, dead))
        | _ \<Rightarrow> (Ok Reply_Done, (n, dead))),
      bk_connected = (\<lambda>(n, dead) h. dead \<le> h), bk_channel_open = (\<lambda>(n, dead) h. dead \<le> h)\<rparr>"

definition demo_shared :: "(nat \<times> nat, unit) shared" where
  "demo_shared = shared_new \<lparr>am_world = (2, 0),
     am_log = [Connect (with_heartbeat ''amqp://h'') ''amqp-demo'', Create_Channel 0, Confirm_Select 1,
       Queue_Declare 1 ''q'' passive_probe_options],
     am_acks = [], am_state = Some \<lparr>bs_connection = 0, bs_channel = 1\<rparr>\<rparr>"

definition outage :: "(nat \<times> nat) move list" where
  "outage =
     [Make (push_job demo_client ''x''), Make (push_job demo_client ''y''), Go 0, Go 1,
      Broker_At (2, 2), Go 0, Go 0, Go 0, Go 0, Take 0, Go 0, Go 0, Go 0, Go 0, Go 0, Go 0,
      Go 1, Go 1]"

lemma demo_shared_new:
  "with_connection_name mortal_broker (ac_queue demo_client) (ac_addr demo_client) (ac_name demo_client)
     \<lparr>am_world = (0, 0), am_log = [], am_acks = [], am_state = None\<rparr> = (Ok demo_client, sh_store demo_shared)"
  by code_simp

lemmas run_defs = shared_call_def shared_acquire_def shared_run_def at_broker_def program_job_def
  push_job_def job_start_def push_max_retries_def attempt_failed_def next_point_def cmd_def handle_def
  seq_def ret_def ready_state_def state_ready_def set_state_def drop_state_def

lemma outage_losses:
  "\<exists>s. play mortal_broker demo_client outage demo_shared = Some s \<and>
     sh_lost s = [Thrown_Away 0 False, Thrown_Away 1 True]"
  by (simp add: outage_def demo_shared_def shared_new_def mortal_broker_def run_defs)

lemma outage_reachable:
  "\<exists>s. shared_reachable mortal_broker demo_client (0, 0) s \<and>
     sh_lost s = [Thrown_Away 0 False, Thrown_Away 1 True]"
proof -
  obtain s where s: "play mortal_broker demo_client outage demo_shared = Some s"
    "sh_lost s = [Thrown_Away 0 False, Thrown_Away 1 True]"
    using outage_losses by blast
  have "demo_shared = shared_new (sh_store demo_shared)"
    by (simp add: demo_shared_def shared_new_def)
  with s play_reachable [OF demo_shared_new, of outage s]
  show ?thesis by auto
qed

lemma dialling_le_one:
  assumes "shared_inv s"
  shows "dialling (sh_tasks s) \<le> 1"
proof -
  have "{i. i < length (sh_tasks s) \<and> dialled (snd (sh_tasks s ! i))} \<subseteq> {the (sh_lock s)}"
    using shared_invD(1) [OF assms] dialled_holding by (metis (mono_tags, lifting) insert_iff mem_Collect_eq option.sel subsetI)
  from card_mono [OF _ this] show ?thesis
    by (simp add: dialling_def length_filter_conv_card)
qed

subsection \<open>Properties\<close>

text \<open>C17: One connection at a time.  However many publishers share a client, and whenever the broker drops
  connections, deadlines pass or callers give up: only one task at a time is in the section that
  looks and connects; and every connection ever opened is the one in the cell, the one being set up,
  or is accounted for once as lost: its set-up failed, it was replaced when it was found dead, or
  a failed \<open>push\<close> threw it away.  (What a \<open>push\<close> throws away need not be what failed it: in
  \<open>outage_losses\<close> a late failure discards the connection another task has just made.)\<close>

theorem shared_connections:
  assumes "shared_reachable b cl w s"
  shows "(i < length (sh_tasks s) \<and> k < length (sh_tasks s) \<and>
      holding (snd (sh_tasks s ! i)) \<and> holding (snd (sh_tasks s ! k)) \<longrightarrow> i = k) \<and>
    opened (am_log (sh_store s)) =
      length (sh_lost s) + current (sh_store s) + dialling (sh_tasks s) \<and>
    dialling (sh_tasks s) \<le> 1"
proof -
  note inv = shared_reachable_inv [OF assms]
  from shared_invD(1) [OF inv, of i] shared_invD(1) [OF inv, of k] shared_invD(3) [OF inv] dialling_le_one [OF inv]
  show ?thesis by auto
qed

theorem shared_connections_witness:
  "\<exists>s. sh_lost s = [Thrown_Away 0 False, Thrown_Away 1 True] \<and>
     opened (am_log (sh_store (s :: (nat \<times> nat, unit) shared))) = 2 + current (sh_store s) + dialling (sh_tasks s)"
proof -
  obtain s :: "(nat \<times> nat, unit) shared" where s: "shared_reachable mortal_broker demo_client (0, 0) s"
    "sh_lost s = [Thrown_Away 0 False, Thrown_Away 1 True]"
    using outage_reachable by blast
  from shared_connections [OF s(1)] s(2) show ?thesis by auto
qed

text \<open>C18: Publishers do not block each other.  From any state a client can be in, and whatever the broker
  does between the steps, the publishers together take at most 42 steps per publisher; and as long as one of them has
  not returned some publisher can go on, because the holder of the mutex never waits for it.\<close>

theorem shared_progress:
  assumes "shared_reachable b cl w s" "(work_step b cl ^^ n) s s'"
  shows "n \<le> 42 * length (sh_tasks s) \<and>
    ((\<exists>q. work_step b cl s' q) \<or> (\<forall>t \<in> set (sh_tasks s'). \<not> live (snd t)))"
proof -
  note run = work_run [OF assms(2)]
  then have "shared_reachable b cl w s'"
    using assms(1) unfolding shared_reachable_def by (meson rtranclp_trans)
  then have inv: "shared_inv s'"
    by (rule shared_reachable_inv)
  have "\<not> live (snd t)" if "\<nexists>q. work_step b cl s' q" "t \<in> set (sh_tasks s')" for t
    using work_stuck [OF inv] that by (metis in_set_conv_nth)
  with run ranks_ok_to_do [OF shared_reachable_ranks [OF assms(1)]] show ?thesis by auto
qed

theorem shared_progress_witness:
  "let s = shared_call (push_job demo_client ''x'') demo_shared;
       s' = at_broker (2, 2) (shared_run mortal_broker demo_client 0 s)
   in \<exists>q. work_step mortal_broker demo_client s' q"
proof -
  let ?s = "shared_call (push_job demo_client ''x'') demo_shared"
  let ?s' = "at_broker (2, 2) (shared_run mortal_broker demo_client 0 ?s)"
  have "play mortal_broker demo_client [Make (push_job demo_client ''x'')] (shared_new (sh_store demo_shared)) = Some ?s"
    by (simp add: program_job_def push_job_def demo_shared_def shared_new_def)
  then have "shared_reachable mortal_broker demo_client (0, 0) ?s"
    by (rule play_reachable [OF demo_shared_new])
  moreover have tasks: "sh_tasks ?s = [(push_job demo_client ''x'', Ensuring 2)]"
    by (simp add: shared_call_def demo_shared_def shared_new_def job_start_def push_job_def push_max_retries_def)
  then have "work_step mortal_broker demo_client ?s ?s'"
    by (intro work_step.W_Run) simp_all
  then have "(work_step mortal_broker demo_client ^^ 1) ?s ?s'"
    by (simp add: relcompp_apply)
  ultimately have "(\<exists>q. work_step mortal_broker demo_client ?s' q) \<or> (\<forall>t \<in> set (sh_tasks ?s'). \<not> live (snd t))"
    by (rule shared_progress [THEN conjunct2])
  moreover have "\<exists>t \<in> set (sh_tasks ?s'). live (snd t)"
    by (simp add: at_broker_def shared_run_def tasks split: option.split)
  ultimately show ?thesis by (auto simp: Let_def)
qed

end
