(* ===== verification/PcAuditAmqp.thy ===== *)
theory PcAuditAmqp
  imports PcAuditPublisher PcAmqpShared
begin

section \<open>pc-audit over pc-amqp: the audit trail on its transport\<close>

text \<open>
  The two crates meet in the trait \<open>Publisher\<close> (\<open>crates/pc-amqp/src/lib.rs\<close>), which the AMQP client
  implements: \<open>publish\<close> is \<open>push_with_ttl\<close> and \<open>ready\<close> is \<open>is_ready\<close>. The audit publisher's workers
  share one client, so each call of \<open>publish\<close> is a task of \<open>shared_step\<close>: it is suspended at each of
  its awaits, where the other workers and every other user of the client go on. \<open>tr_calls\<close> maps each
  worker that waits for a publish to its task. A worker resumes when its task has returned; one
  whose task was dropped (the runtime shut down) stays where it is.

  \<open>is_ready\<close> reads the cell with \<open>try_read\<close>, which also fails while somebody writes the cell; the
  flag a worker sees is therefore at most \<open>amqp_ready\<close>.
\<close>

definition amqp_publish :: "amqp_client \<Rightarrow> bytes \<Rightarrow> string \<Rightarrow> job" where
  "amqp_publish cl data ttl_ms = push_with_ttl_job cl data ttl_ms"

definition amqp_ready :: "('w, 'x) broker \<Rightarrow> 'w amqp_world \<Rightarrow> bool" where
  "amqp_ready b s = is_ready b s"

record ('q, 'w, 'x) trail =
  tr_pub :: "'q publisher"
  tr_amqp :: "('w, 'x) shared"
  tr_calls :: "nat \<Rightarrow> nat option"

text \<open>A worker's call, and what it does with the answer.\<close>

definition trail_call :: "amqp_client \<Rightarrow> nat \<Rightarrow> bytes \<Rightarrow> ('q, 'w, 'x) trail \<Rightarrow> ('q, 'w, 'x) trail" where
  "trail_call cl i body t =
     t\<lparr>tr_amqp := shared_call (amqp_publish cl body (pb_ttl (tr_pub t))) (tr_amqp t),
       tr_calls := (tr_calls t)(i \<mapsto> length (sh_tasks (tr_amqp t)))\<rparr>"

definition trail_return ::
  "nat \<Rightarrow> bool \<Rightarrow> message_payload \<Rightarrow> bytes \<Rightarrow> ('q, 'w, 'x) trail \<Rightarrow> ('q, 'w, 'x) trail" where
  "trail_return i success payload body t =
     t\<lparr>tr_pub := worker_published i success payload body (tr_pub t),
       tr_calls := (tr_calls t)(i := None)\<rparr>"

inductive trail_step ::
  "('w, 'x) broker \<Rightarrow> amqp_client \<Rightarrow> 'q queue_ops \<Rightarrow> (message_payload \<Rightarrow> 'e + bytes) \<Rightarrow>
     ('q, 'w, 'x) trail \<Rightarrow> ('q, 'w, 'x) trail \<Rightarrow> bool"
  for b :: "('w, 'x) broker" and cl :: amqp_client and ops :: "'q queue_ops"
    and marsh :: "message_payload \<Rightarrow> 'e + bytes"
where
  T_Submit: "trail_step b cl ops marsh t (t\<lparr>tr_pub := snd (submit ops now payload (tr_pub t))\<rparr>)"
| T_Recv: "i < length (pb_workers (tr_pub t)) \<Longrightarrow> pb_workers (tr_pub t) ! i = Waiting \<Longrightarrow>
    trail_step b cl ops marsh t (t\<lparr>tr_pub := worker_recv ops i (tr_pub t)\<rparr>)"
| T_Check: "i < length (pb_workers (tr_pub t)) \<Longrightarrow> pb_workers (tr_pub t) ! i = Received payload \<Longrightarrow>
    (ready \<longrightarrow> amqp_ready b (sh_store (tr_amqp t))) \<Longrightarrow>
    trail_step b cl ops marsh t
      (t\<lparr>tr_pub := worker_check (marsh payload) now i ready payload (tr_pub t)\<rparr>)"
| T_Publish: "i < length (pb_workers (tr_pub t)) \<Longrightarrow>
    pb_workers (tr_pub t) ! i = worker.Publishing payload body \<Longrightarrow> tr_calls t i = None \<Longrightarrow>
    trail_step b cl ops marsh t (trail_call cl i body t)"
| T_Return: "pb_workers (tr_pub t) ! i = worker.Publishing payload body \<Longrightarrow> tr_calls t i = Some k \<Longrightarrow>
    snd (sh_tasks (tr_amqp t) ! k) = Returned r \<Longrightarrow>
    trail_step b cl ops marsh t (trail_return i (is_ok r) payload body t)"
| T_Trip: "i < length (pb_workers (tr_pub t)) \<Longrightarrow> pb_workers (tr_pub t) ! i = Counted cnt \<Longrightarrow>
    trail_step b cl ops marsh t (t\<lparr>tr_pub := worker_trip now i cnt (tr_pub t)\<rparr>)"
| T_Stop: "trail_step b cl ops marsh t (t\<lparr>tr_pub := publisher_stop (tr_pub t)\<rparr>)"
| T_Client: "shared_step b cl (tr_amqp t) s \<Longrightarrow> trail_step b cl ops marsh t (t\<lparr>tr_amqp := s\<rparr>)"

inductive_cases trail_stepE: "trail_step b cl ops marsh t t'"

definition trail_new :: "'q \<Rightarrow> audit_config \<Rightarrow> 'w amqp_world \<Rightarrow> ('q, 'w, 'x) trail" where
  "trail_new fresh config st =
     \<lparr>tr_pub = publisher_new fresh config, tr_amqp = shared_new st, tr_calls = Map.empty\<rparr>"

text \<open>From a client that \<open>with_connection_name\<close> built and a new publisher.\<close>

definition trail_reachable ::
  "('w, 'x) broker \<Rightarrow> amqp_client \<Rightarrow> 'q queue_ops \<Rightarrow> (message_payload \<Rightarrow> 'e + bytes) \<Rightarrow> 'q \<Rightarrow>
     audit_config \<Rightarrow> 'w \<Rightarrow> ('q, 'w, 'x) trail \<Rightarrow> bool" where
  "trail_reachable b cl ops marsh fresh config w t \<longleftrightarrow>
     (\<exists>st. with_connection_name b (ac_queue cl) (ac_addr cl) (ac_name cl)
         \<lparr>am_world = w, am_log = [], am_acks = [], am_state = None\<rparr> = (Ok cl, st) \<and>
       (trail_step b cl ops marsh)\<^sup>*\<^sup>* (trail_new fresh config st) t)"

subsection \<open>The parts of a run\<close>

lemma trail_step_shared:
  "trail_step b cl ops marsh t t' \<Longrightarrow>
     tr_amqp t' = tr_amqp t \<or> shared_step b cl (tr_amqp t) (tr_amqp t')"
  by (induction rule: trail_step.induct)
    (auto simp: trail_call_def trail_return_def amqp_publish_def push_with_ttl_job_def program_job_def
      intro: shared_step.Call)

lemma trail_reachable_shared:
  "trail_reachable b cl ops marsh fresh config w t \<Longrightarrow> shared_reachable b cl w (tr_amqp t)"
proof -
  assume "trail_reachable b cl ops marsh fresh config w t"
  then obtain st where st: "with_connection_name b (ac_queue cl) (ac_addr cl) (ac_name cl)
      \<lparr>am_world = w, am_log = [], am_acks = [], am_state = None\<rparr> = (Ok cl, st)"
    and run: "(trail_step b cl ops marsh)\<^sup>*\<^sup>* (trail_new fresh config st) t"
    unfolding trail_reachable_def by blast
  from run have "(shared_step b cl)\<^sup>*\<^sup>* (shared_new st) (tr_amqp t)"
    by (induction rule: rtranclp_induct)
      (auto simp: trail_new_def dest: trail_step_shared intro: rtranclp.rtrancl_into_rtrancl)
  with st show ?thesis unfolding shared_reachable_def by blast
qed

text \<open>Every worker that waits for a publish has a task of its own, and the task publishes what the
  worker holds.\<close>

definition waits_inv :: "amqp_client \<Rightarrow> string \<Rightarrow> ('q, 'w, 'x) trail \<Rightarrow> bool" where
  "waits_inv cl ttl t \<longleftrightarrow>
     pb_ttl (tr_pub t) = ttl \<and> inj_on (tr_calls t) (dom (tr_calls t)) \<and>
     (\<forall>i k. tr_calls t i = Some k \<longrightarrow>
        i < length (pb_workers (tr_pub t)) \<and> k < length (sh_tasks (tr_amqp t)) \<and>
        (\<exists>m body. pb_workers (tr_pub t) ! i = worker.Publishing m body \<and>
           fst (sh_tasks (tr_amqp t) ! k) = amqp_publish cl body ttl))"

definition steps_at :: "nat \<Rightarrow> 'q publisher \<Rightarrow> 'q publisher \<Rightarrow> bool" where
  "steps_at i p p' \<longleftrightarrow>
     pb_ttl p' = pb_ttl p \<and> length (pb_workers p') = length (pb_workers p) \<and>
     (\<forall>j. j \<noteq> i \<longrightarrow> pb_workers p' ! j = pb_workers p ! j)"

lemma worker_steps_at [simp]:
  "steps_at i p (worker_recv ops i p)"
  "steps_at i p (worker_check marshalled now i ready payload p)"
  "steps_at i p (worker_published i success payload body p)"
  "steps_at i p (worker_trip now i cnt p)"
  by (simp_all add: steps_at_def worker_recv_def worker_check_def worker_published_def worker_trip_def
      split_beta Let_def split: option.split sum.split)

lemma pool_steps [simp]:
  "pb_ttl (snd (submit ops now payload p)) = pb_ttl p"
  "pb_workers (snd (submit ops now payload p)) = pb_workers p"
  "pb_ttl (publisher_stop p) = pb_ttl p" "pb_workers (publisher_stop p) = pb_workers p"
  by (simp_all add: submit_def publisher_stop_def split: sum.split)

lemma waits_invD:
  assumes "waits_inv cl ttl t" "tr_calls t i = Some k" "pb_workers (tr_pub t) ! i = worker.Publishing m body"
  shows "i < length (pb_workers (tr_pub t)) \<and> k < length (sh_tasks (tr_amqp t)) \<and>
    fst (sh_tasks (tr_amqp t) ! k) = amqp_publish cl body ttl"
  using assms unfolding waits_inv_def by (metis worker.inject(2))

lemma waits_idle:
  "waits_inv cl ttl t \<Longrightarrow> \<forall>m body. pb_workers (tr_pub t) ! i \<noteq> worker.Publishing m body \<Longrightarrow> tr_calls t i = None"
  unfolding waits_inv_def by (metis not_None_eq)

lemma waits_inv_at:
  "waits_inv cl ttl t \<Longrightarrow> steps_at i (tr_pub t) p \<Longrightarrow> tr_calls t i = None \<Longrightarrow> waits_inv cl ttl (t\<lparr>tr_pub := p\<rparr>)"
  unfolding waits_inv_def steps_at_def by (auto, (metis option.distinct(1))+)

lemma waits_inv_pool:
  "waits_inv cl ttl t \<Longrightarrow> pb_ttl p = pb_ttl (tr_pub t) \<Longrightarrow> pb_workers p = pb_workers (tr_pub t) \<Longrightarrow>
     waits_inv cl ttl (t\<lparr>tr_pub := p\<rparr>)"
  by (simp add: waits_inv_def)

lemma waits_inv_return:
  assumes "waits_inv cl ttl t"
  shows "waits_inv cl ttl (trail_return i success payload body t)"
proof -
  have "waits_inv cl ttl (t\<lparr>tr_calls := (tr_calls t)(i := None)\<rparr>)"
    using assms by (auto simp: waits_inv_def inj_on_def)
  from waits_inv_at [OF this, of i "worker_published i success payload body (tr_pub t)"]
  show ?thesis by (simp add: trail_return_def waits_inv_def)
qed

lemma waits_inv_call:
  assumes "waits_inv cl ttl t" "i < length (pb_workers (tr_pub t))"
    "pb_workers (tr_pub t) ! i = worker.Publishing payload body"
  shows "waits_inv cl ttl (trail_call cl i body t)"
proof -
  let ?n = "length (sh_tasks (tr_amqp t))"
  have below: "k < ?n" if "tr_calls t j = Some k" for j k
    using assms(1) that by (auto simp: waits_inv_def)
  have "inj_on (tr_calls t) (dom (tr_calls t))"
    using assms(1) by (simp add: waits_inv_def)
  with below have inj: "inj_on ((tr_calls t)(i \<mapsto> ?n)) (insert i (dom (tr_calls t)))"
    by (auto simp: inj_on_def dom_def dest: below)
  have ttl: "pb_ttl (tr_pub t) = ttl"
    using assms(1) by (simp add: waits_inv_def)
  have "j < length (pb_workers (tr_pub t)) \<and> k < Suc ?n \<and>
      (\<exists>m body'. pb_workers (tr_pub t) ! j = worker.Publishing m body' \<and>
         fst (sh_tasks (tr_amqp (trail_call cl i body t)) ! k) = amqp_publish cl body' ttl)"
    if "((tr_calls t)(i \<mapsto> ?n)) j = Some k" for j k
  proof (cases "j = i")
    case True
    with that assms ttl show ?thesis by (auto simp: trail_call_def shared_call_def)
  next
    case False
    with that have call: "tr_calls t j = Some k" by simp
    from assms(1) call have "j < length (pb_workers (tr_pub t)) \<and>
        (\<exists>m body'. pb_workers (tr_pub t) ! j = worker.Publishing m body' \<and>
           fst (sh_tasks (tr_amqp t) ! k) = amqp_publish cl body' ttl)"
      by (simp add: waits_inv_def)
    with below [OF call] show ?thesis
      by (auto simp: trail_call_def shared_call_def nth_append)
  qed
  with inj ttl show ?thesis
    by (simp add: waits_inv_def trail_call_def shared_call_def)
qed

lemma waits_inv_client:
  assumes "waits_inv cl ttl t" "shared_step b cl (tr_amqp t) s"
  shows "waits_inv cl ttl (t\<lparr>tr_amqp := s\<rparr>)"
  using assms(1) shared_step_tasks [OF assms(2)] by (fastforce simp: waits_inv_def)

lemma waits_inv_step:
  "trail_step b cl ops marsh t t' \<Longrightarrow> waits_inv cl ttl t \<Longrightarrow> waits_inv cl ttl t'"
proof (induction rule: trail_step.induct)
  case (T_Publish i t payload body)
  then show ?case by (intro waits_inv_call)
next
  case (T_Return t i payload body k r)
  then show ?case by (intro waits_inv_return)
next
  case (T_Client t s)
  then show ?case by (intro waits_inv_client)
next
  case (T_Recv i t)
  then show ?case by (intro waits_inv_at [where i = i] waits_idle [where i = i]) simp_all
next
  case (T_Check i t payload ready now)
  then show ?case by (intro waits_inv_at [where i = i] waits_idle [where i = i]) simp_all
next
  case (T_Trip i t cnt now)
  then show ?case by (intro waits_inv_at [where i = i] waits_idle [where i = i]) simp_all
qed (auto intro: waits_inv_pool)

lemma trail_step_pub:
  assumes "trail_step b cl ops marsh t t'" "waits_inv cl ttl t"
  shows "tr_pub t' = tr_pub t \<or> pub_step ops marsh (tr_pub t) (tr_pub t')"
  using assms
proof (induction rule: trail_step.induct)
  case (T_Return t i payload body k r)
  from waits_invD [OF T_Return(4,2,1)] T_Return(1) show ?case
    by (auto simp: trail_return_def intro: pub_step.Publish)
qed (auto simp: trail_call_def intro: pub_step.intros)

lemma waits_inv_new: "waits_inv cl (cf_message_ttl config) (trail_new fresh config st)"
  by (simp add: waits_inv_def trail_new_def publisher_new_def)

lemma trail_reachable_pub:
  assumes "trail_reachable b cl ops marsh fresh config w t"
  shows "waits_inv cl (cf_message_ttl config) t \<and> pub_reachable ops marsh fresh config (tr_pub t)"
proof -
  obtain st where "(trail_step b cl ops marsh)\<^sup>*\<^sup>* (trail_new fresh config st) t"
    using assms unfolding trail_reachable_def by blast
  then show ?thesis
  proof (induction rule: rtranclp_induct)
    case base
    show ?case by (simp add: waits_inv_new pub_reachable_def) (simp add: trail_new_def)
  next
    case (step t t')
    then have inv: "waits_inv cl (cf_message_ttl config) t" by simp
    from step trail_step_pub [OF step.hyps(2) inv] waits_inv_step [OF step.hyps(2) inv] show ?case
      by (auto simp: pub_reachable_def intro: rtranclp.rtrancl_into_rtrancl)
  qed
qed

subsection \<open>What was published was confirmed\<close>

definition trail_props :: "string \<Rightarrow> basic_props" where
  "trail_props ttl =
     \<lparr>bp_content_type = Some ''application/json'',
      bp_expiration = (if ttl = [] then None else Some ttl), bp_reply_to = None,
      bp_correlation_id = None\<rparr>"

text \<open>The bodies that some commands published to a queue with given properties.\<close>

definition sent_bodies :: "string \<Rightarrow> basic_props \<Rightarrow> amqp_cmd list \<Rightarrow> bytes list" where
  "sent_bodies queue props cs =
     map (fst \<circ> snd) (filter (\<lambda>(rk, data, pr). rk = queue \<and> pr = props) (messages cs))"

fun fate_body :: "fate \<Rightarrow> bytes list" where
  "fate_body (Published m body) = [body]"
| "fate_body (Discarded m) = []"

definition published_bodies :: "'q publisher \<Rightarrow> bytes list" where
  "published_bodies p = concat (map fate_body (pb_fates p))"

lemma job_message_publish:
  "job_message (amqp_publish cl body ttl) = (ac_queue cl, body, trail_props ttl)"
  by (simp add: job_message_def amqp_publish_def push_with_ttl_job_def trail_props_def publish_props_def
      props_default_def)

lemma quiet_steps [simp]:
  "published_bodies (snd (submit ops now payload p)) = published_bodies p"
  "published_bodies (worker_recv ops i p) = published_bodies p"
  "published_bodies (worker_check marshalled now i ready payload p) = published_bodies p"
  "published_bodies (worker_trip now i cnt p) = published_bodies p"
  "published_bodies (publisher_stop p) = published_bodies p"
  "published_bodies (worker_published i success payload body p) =
     published_bodies p @ (if success then [body] else [])"
  by (simp_all add: published_bodies_def submit_def worker_recv_def worker_check_def worker_trip_def
      publisher_stop_def worker_published_def split_beta Let_def split: option.split sum.split)

text \<open>Each body that counts as published belongs to a finished task of its own, which no worker waits
  for any more.\<close>

definition counted :: "amqp_client \<Rightarrow> string \<Rightarrow> ('q, 'w, 'x) trail \<Rightarrow> nat list \<Rightarrow> bool" where
  "counted cl ttl t ks \<longleftrightarrow>
     distinct ks \<and> set ks \<inter> ran (tr_calls t) = {} \<and>
     (\<forall>k \<in> set ks. k < length (sh_tasks (tr_amqp t)) \<and> returned_ok (snd (sh_tasks (tr_amqp t) ! k))) \<and>
     map (\<lambda>k. fst (sh_tasks (tr_amqp t) ! k)) ks =
       map (\<lambda>body. amqp_publish cl body ttl) (published_bodies (tr_pub t))"

lemma counted_quiet:
  "counted cl ttl t ks \<Longrightarrow> published_bodies p = published_bodies (tr_pub t) \<Longrightarrow>
     counted cl ttl (t\<lparr>tr_pub := p\<rparr>) ks"
  by (simp add: counted_def)

lemma counted_call:
  assumes "counted cl ttl t ks"
  shows "counted cl ttl (trail_call cl i body t) ks"
proof -
  let ?n = "length (sh_tasks (tr_amqp t))"
  have "ran ((tr_calls t)(i \<mapsto> ?n)) \<subseteq> insert ?n (ran (tr_calls t))"
    by (auto simp: ran_def)
  with assms have "set ks \<inter> ran ((tr_calls t)(i \<mapsto> ?n)) = {}"
    by (auto simp: counted_def)
  with assms show ?thesis
    by (auto simp: counted_def trail_call_def shared_call_def nth_append less_SucI cong: map_cong)
qed

lemma counted_client:
  assumes "counted cl ttl t ks" "shared_step b cl (tr_amqp t) s"
  shows "counted cl ttl (t\<lparr>tr_amqp := s\<rparr>) ks"
proof -
  have "k < length (sh_tasks s) \<and> sh_tasks s ! k = sh_tasks (tr_amqp t) ! k" if "k \<in> set ks" for k
    using assms(1) that shared_step_tasks [OF assms(2), of k] returned_ok_simps(2)
    by (auto simp: counted_def)
  with assms(1) show ?thesis
    by (auto simp: counted_def cong: map_cong)
qed

lemma counted_return:
  assumes "counted cl ttl t ks" and inv: "waits_inv cl ttl t"
    and worker: "pb_workers (tr_pub t) ! i = worker.Publishing payload body" "tr_calls t i = Some k"
    and task: "snd (sh_tasks (tr_amqp t) ! k) = Returned r"
  shows "counted cl ttl (trail_return i (is_ok r) payload body t) (ks @ (if is_ok r then [k] else []))"
proof -
  from inv have inj: "inj_on (tr_calls t) (dom (tr_calls t))"
    by (simp add: waits_inv_def)
  have "k \<notin> ran ((tr_calls t)(i := None))"
  proof
    assume "k \<in> ran ((tr_calls t)(i := None))"
    then obtain j where "j \<noteq> i" "tr_calls t j = Some k"
      by (auto simp: ran_def split: if_splits)
    with worker(2) inj_onD [OF inj, of i j] show False by auto
  qed
  moreover have "ran ((tr_calls t)(i := None)) \<subseteq> ran (tr_calls t)"
    by (auto simp: ran_def)
  moreover have "k \<in> ran (tr_calls t)"
    using worker(2) by (auto simp: ran_def)
  ultimately show ?thesis
    using assms(1) waits_invD [OF inv worker(2,1)] task
    by (auto simp: counted_def trail_return_def)
qed

lemma counted_step:
  assumes "trail_step b cl ops marsh t t'" "waits_inv cl ttl t" "counted cl ttl t ks"
  shows "\<exists>ks. counted cl ttl t' ks"
  using assms
proof (induction rule: trail_step.induct)
  case (T_Return t i payload body k r)
  with counted_return [OF T_Return(5,4,1,2,3)] show ?case by blast
next
  case (T_Publish i t payload body)
  then show ?case by (blast intro: counted_call)
next
  case (T_Client t s)
  then show ?case by (blast intro: counted_client)
qed (blast intro: counted_quiet quiet_steps)+

lemma trail_reachable_counted:
  assumes "trail_reachable b cl ops marsh fresh config w t"
  shows "\<exists>ks. counted cl (cf_message_ttl config) t ks"
proof -
  obtain st where "(trail_step b cl ops marsh)\<^sup>*\<^sup>* (trail_new fresh config st) t"
    using assms unfolding trail_reachable_def by blast
  then have "waits_inv cl (cf_message_ttl config) t \<and> (\<exists>ks. counted cl (cf_message_ttl config) t ks)"
  proof (induction rule: rtranclp_induct)
    case base
    show ?case
      by (intro conjI waits_inv_new exI [of _ "[]"])
        (simp add: counted_def trail_new_def published_bodies_def publisher_new_def)
  next
    case (step t t')
    then show ?case using waits_inv_step counted_step by metis
  qed
  then show ?thesis by blast
qed

text \<open>Distinct tasks that returned success are among all those that did.\<close>

lemma delivered_nth:
  "delivered ts =
     map (\<lambda>k. job_message (fst (ts ! k))) (filter (\<lambda>k. returned_ok (snd (ts ! k))) [0..<length ts])"
proof -
  have "ts = map ((!) ts) [0..<length ts]" by (simp add: map_nth)
  then have "delivered ts = delivered (map ((!) ts) [0..<length ts])" by simp
  then show ?thesis by (simp add: delivered_def filter_map comp_def)
qed

lemma counted_delivered:
  assumes "counted cl ttl t ks"
  shows "mset (map (\<lambda>body. (ac_queue cl, body, trail_props ttl)) (published_bodies (tr_pub t))) \<subseteq>#
    mset (delivered (sh_tasks (tr_amqp t)))"
proof -
  let ?ts = "sh_tasks (tr_amqp t)"
  let ?done = "filter (\<lambda>k. returned_ok (snd (?ts ! k))) [0..<length ?ts]"
  from assms have "mset_set (set ks) \<subseteq># mset_set (set ?done)"
    by (intro subset_imp_msubset_mset_set) (auto simp: counted_def)
  with assms have "mset ks \<subseteq># mset ?done"
    by (simp add: counted_def mset_set_set)
  then have "mset (map (\<lambda>k. job_message (fst (?ts ! k))) ks) \<subseteq># mset (delivered ?ts)"
    by (simp only: delivered_nth mset_map image_mset_subseteq_mono)
  moreover from assms have "map job_message (map (\<lambda>k. fst (?ts ! k)) ks) =
      map job_message (map (\<lambda>body. amqp_publish cl body ttl) (published_bodies (tr_pub t)))"
    by (simp add: counted_def)
  then have "map (\<lambda>k. job_message (fst (?ts ! k))) ks =
      map (\<lambda>body. (ac_queue cl, body, trail_props ttl)) (published_bodies (tr_pub t))"
    by (simp add: job_message_publish comp_def)
  ultimately show ?thesis by simp
qed

lemma sent_bodies_mono:
  assumes "mset (map (\<lambda>body. (queue, body, props)) bodies) \<subseteq># mset (messages cs)"
  shows "mset bodies \<subseteq># mset (sent_bodies queue props cs)"
proof -
  let ?mine = "\<lambda>(rk, data, pr). rk = queue \<and> pr = props"
  from assms have "image_mset (fst \<circ> snd) (filter_mset ?mine (mset (map (\<lambda>body. (queue, body, props)) bodies))) \<subseteq>#
      image_mset (fst \<circ> snd) (filter_mset ?mine (mset (messages cs)))"
    by (intro image_mset_subseteq_mono multiset_filter_mono)
  then show ?thesis
    by (simp add: sent_bodies_def filter_mset_image_mset comp_def image_mset.compositionality flip: mset_map mset_filter)
qed

text \<open>Everything that counts as published was confirmed.\<close>

lemma trail_confirmed:
  assumes "trail_reachable b cl ops marsh fresh config w t"
  shows "mset (published_bodies (tr_pub t)) \<subseteq>#
      mset (sent_bodies (ac_queue cl) (trail_props (cf_message_ttl config)) (am_acks (sh_store (tr_amqp t))))"
    and "mset (am_acks (sh_store (tr_amqp t))) \<subseteq># mset (am_log (sh_store (tr_amqp t)))"
proof -
  from shared_reachable_acks [OF trail_reachable_shared [OF assms]]
  have acks: "mset (delivered (sh_tasks (tr_amqp t))) \<subseteq># mset (messages (am_acks (sh_store (tr_amqp t))))"
    "mset (am_acks (sh_store (tr_amqp t))) \<subseteq># mset (am_log (sh_store (tr_amqp t)))"
    by (simp_all add: acks_inv_def)
  obtain ks where "counted cl (cf_message_ttl config) t ks"
    using trail_reachable_counted [OF assms] by blast
  from sent_bodies_mono [OF subset_mset.order_trans [OF counted_delivered [OF this] acks(1)]]
  show "mset (published_bodies (tr_pub t)) \<subseteq>#
      mset (sent_bodies (ac_queue cl) (trail_props (cf_message_ttl config)) (am_acks (sh_store (tr_amqp t))))" .
  from acks(2) show "mset (am_acks (sh_store (tr_amqp t))) \<subseteq># mset (am_log (sh_store (tr_amqp t)))" .
qed

lemma published_accepted:
  assumes "pub_inv contents capacity marsh p" "Published m body \<in> set (pb_fates p)"
  shows "m \<in> set (pb_accepted p) \<and> body \<in> set (published_bodies p)"
proof -
  from assms(2) have "m \<in># mset (map fate_payload (pb_fates p))" by force
  then have "m \<in># mset (pb_accepted p)" using pub_invD(1) [OF assms(1)] by simp
  moreover from assms(2) have "body \<in> set (published_bodies p)" by (force simp: published_bodies_def)
  ultimately show ?thesis by simp
qed

text \<open>One record on its way: submitted, taken, checked on a live connection, published by a task of its
  own, and confirmed.\<close>

definition demo_checked :: "nat \<Rightarrow> message_payload \<Rightarrow> bytes \<Rightarrow> message_payload list publisher" where
  "demo_checked n m body =
     [publisher_new [] audit_config_default,
      snd (submit (list_queue 1) 0 m (publisher_new [] audit_config_default)),
      worker_recv (list_queue 1) 0 (snd (submit (list_queue 1) 0 m (publisher_new [] audit_config_default))),
      worker_check (Ok body :: unit + bytes) 0 0 True m (worker_recv (list_queue 1) 0
        (snd (submit (list_queue 1) 0 m (publisher_new [] audit_config_default))))] ! n"

definition demo_sent :: "nat \<Rightarrow> bytes \<Rightarrow> (nat \<times> nat, unit) shared" where
  "demo_sent n body =
     (shared_run mortal_broker demo_client 0 ^^ n) (shared_call (amqp_publish demo_client body []) demo_shared)"

definition demo_trail ::
  "nat \<Rightarrow> message_payload \<Rightarrow> bytes \<Rightarrow> (message_payload list, nat \<times> nat, unit) trail" where
  "demo_trail n m body =
     (if n \<le> 3 then \<lparr>tr_pub = demo_checked n m body, tr_amqp = demo_shared, tr_calls = Map.empty\<rparr>
      else if n \<le> 6 then
        \<lparr>tr_pub = demo_checked 3 m body, tr_amqp = demo_sent (n - 4) body, tr_calls = [0 \<mapsto> 0]\<rparr>
      else
        \<lparr>tr_pub = worker_published 0 True m body (demo_checked 3 m body), tr_amqp = demo_sent 2 body,
         tr_calls = Map.empty\<rparr>)"

lemma demo_sent_tasks:
  "sh_tasks (demo_sent 0 body) = [(amqp_publish demo_client body [], Ensuring 0)]"
  "sh_tasks (demo_sent 1 body) =
     [(amqp_publish demo_client body [], point.Publishing 0 \<lparr>bs_connection = 0, bs_channel = 1\<rparr>)]"
  "sh_tasks (demo_sent 2 body) = [(amqp_publish demo_client body [], Returned (Ok ()))]"
  "am_acks (sh_store (demo_sent 2 body)) = [Basic_Publish 1 ''q'' body (trail_props [])]"
  by (simp_all add: demo_sent_def demo_shared_def shared_new_def mortal_broker_def amqp_publish_def
      push_with_ttl_job_def run_defs demo_client_def trail_props_def publish_props_def props_default_def
      numeral_2_eq_2)

lemma demo_sent_steps:
  "n \<in> {0, 1} \<Longrightarrow> shared_step mortal_broker demo_client (demo_sent n body) (demo_sent (Suc n) body)"
  using shared_step.Run [of 0 "demo_sent n body" mortal_broker demo_client] demo_sent_tasks(1,2) [of body]
  by (auto simp: demo_sent_def)

lemma demo_checked_facts:
  "pb_workers (demo_checked 1 m body) = replicate 10 Waiting" "pb_queue (demo_checked 1 m body) = [m]"
  "pb_workers (demo_checked 2 m body) = Received m # replicate 9 Waiting"
  "pb_workers (demo_checked 3 m body) = worker.Publishing m body # replicate 9 Waiting"
  "pb_ttl (demo_checked 3 m body) = []"
  "n \<in> {1, 2, 3} \<Longrightarrow> pb_accepted (demo_checked n m body) = [m]" "pb_fates (demo_checked 3 m body) = []"
  by (auto simp: demo_checked_def worker_check_def worker_recv_def submit_def publisher_new_def
      list_queue_def circuit_open_def audit_breaker_new_def audit_config_default_def numeral_nat)

lemma demo_trail_step:
  fixes marsh :: "message_payload \<Rightarrow> unit + bytes"
  assumes "marsh m = Ok body" "n < 7"
  shows "trail_step mortal_broker demo_client (list_queue 1) marsh (demo_trail n m body) (demo_trail (Suc n) m body)"
proof -
  let ?b = mortal_broker and ?cl = demo_client and ?ops = "list_queue 1" and ?t = "\<lambda>n. demo_trail n m body"
  have ready: "amqp_ready ?b (sh_store demo_shared)"
    by (simp add: amqp_ready_def is_ready_def state_ready_def mortal_broker_def demo_shared_def shared_new_def)
  from assms(2) consider "n = 0" | "n = 1" | "n = 2" | "n = 3" | "n \<in> {4, 5}" | "n = 6" by fastforce
  then show ?thesis
  proof cases
    case 1
    then show ?thesis
      using T_Submit [of ?b ?cl ?ops marsh "?t 0" 0 m] by (simp add: demo_trail_def demo_checked_def)
  next
    case 2
    then show ?thesis
      using T_Recv [of 0 "?t 1" ?b ?cl ?ops marsh] demo_checked_facts(1) [of m body]
      by (simp add: demo_trail_def demo_checked_def numeral_nat)
  next
    case 3
    then show ?thesis
      using T_Check [of 0 "?t 2" m True ?b ?cl ?ops marsh 0] demo_checked_facts(3) [of m body] ready assms(1)
      by (simp add: demo_trail_def demo_checked_def numeral_nat)
  next
    case 4
    then show ?thesis
      using T_Publish [of 0 "?t 3" m body ?b ?cl ?ops marsh] demo_checked_facts(4,5) [of m body]
      by (simp add: demo_trail_def trail_call_def demo_sent_def) (simp add: demo_shared_def shared_new_def)
  next
    case 5
    then show ?thesis
      using T_Client [of ?b ?cl "?t n" "demo_sent (Suc n - 4) body" ?ops marsh] demo_sent_steps [of "n - 4" body]
      by (auto simp: demo_trail_def numeral_2_eq_2)
  next
    case 6
    then show ?thesis
      using T_Return [of "?t 6" 0 m body 0 "Ok ()" ?b ?cl ?ops marsh] demo_checked_facts(4) [of m body]
        demo_sent_tasks(3) [of body]
      by (simp add: demo_trail_def trail_return_def)
  qed
qed

lemma relpowp_chain: "(\<And>i. i < n \<Longrightarrow> R (f i) (f (Suc i))) \<Longrightarrow> (R ^^ n) (f 0) (f n)"
  by (induction n) (auto intro: relcomppI)

lemma demo_trail_new:
  "demo_trail 0 m body = trail_new [] audit_config_default (sh_store demo_shared)"
  by (simp add: demo_trail_def demo_checked_def trail_new_def) (simp add: demo_shared_def shared_new_def)

lemma demo_trail_reachable:
  fixes marsh :: "message_payload \<Rightarrow> unit + bytes"
  assumes "marsh m = Ok body"
  shows "trail_reachable mortal_broker demo_client (list_queue 1) marsh [] audit_config_default (0, 0)
    (demo_trail 7 m body)"
proof -
  have "(trail_step mortal_broker demo_client (list_queue 1) marsh ^^ 7) (demo_trail 0 m body) (demo_trail 7 m body)"
    by (rule relpowp_chain [of 7 _ "\<lambda>n. demo_trail n m body"]) (rule demo_trail_step [where marsh = marsh, OF assms])
  then have "(trail_step mortal_broker demo_client (list_queue 1) marsh)\<^sup>*\<^sup>*
      (trail_new [] audit_config_default (sh_store demo_shared)) (demo_trail 7 m body)"
    unfolding demo_trail_new by (rule relpowp_imp_rtranclp)
  with demo_shared_new show ?thesis unfolding trail_reachable_def by blast
qed

lemma demo_trail_fates:
  "pb_fates (tr_pub (demo_trail 7 m body)) = [Published m body]"
  "1 \<le> n \<Longrightarrow> n \<le> 7 \<Longrightarrow> pb_accepted (tr_pub (demo_trail n m body)) = [m]"
proof -
  show "pb_fates (tr_pub (demo_trail 7 m body)) = [Published m body]"
    by (simp add: demo_trail_def worker_published_def demo_checked_facts)
  assume n: "1 \<le> n" "n \<le> 7"
  then have "n \<in> {1, 2, 3} \<or> 3 < n" by auto
  then show "pb_accepted (tr_pub (demo_trail n m body)) = [m]"
    using demo_checked_facts(6) [of n m body] demo_checked_facts(6) [of 3 m body]
    by (auto simp: demo_trail_def worker_published_def)
qed

subsection \<open>Properties\<close>

text \<open>C8: The audit trail over AMQP.  The publisher's workers share one client with each other and with
  whoever else publishes on it, and are suspended at every await of their publishes. In every state
  this reaches, whatever the broker does, each record the publisher counts as published is the
  marshalled form of an accepted message; counted with their multiplicities, the published bodies are
  among those of the publishes in this run, to the client's queue as JSON with the configured TTL, that the
  broker answered with a positive confirm, and these are among the commands the client issued; and the
  published, discarded, held and queued messages together are exactly those accepted.\<close>

theorem audit_trail_confirmed:
  assumes "queue_ok ops contents capacity" "contents fresh = []"
    and "trail_reachable b cl ops marsh fresh config w t"
  shows "(\<forall>m body. Published m body \<in> set (pb_fates (tr_pub t)) \<longrightarrow>
      marsh m = Ok body \<and> m \<in> set (pb_accepted (tr_pub t))) \<and>
    mset (published_bodies (tr_pub t)) \<subseteq>#
      mset (sent_bodies (ac_queue cl) (trail_props (cf_message_ttl config)) (am_acks (sh_store (tr_amqp t)))) \<and>
    mset (am_acks (sh_store (tr_amqp t))) \<subseteq># mset (am_log (sh_store (tr_amqp t))) \<and>
    mset (pb_accepted (tr_pub t)) = mset (contents (pb_queue (tr_pub t))) +
      held (pb_workers (tr_pub t)) + mset (map fate_payload (pb_fates (tr_pub t)))"
proof -
  have "pub_reachable ops marsh fresh config (tr_pub t)"
    using trail_reachable_pub [OF assms(3)] by blast
  note inv = pub_reachable_inv [OF assms(1,2) this]
  from published_accepted [OF inv] pub_invD(1,5) [OF inv] trail_confirmed [OF assms(3)] show ?thesis
    by blast
qed

theorem audit_trail_confirmed_witness:
  "mset (published_bodies (tr_pub (demo_trail 7 demo_message ''{}''))) \<subseteq>#
     mset (sent_bodies ''q'' (trail_props []) [Basic_Publish 1 ''q'' ''{}'' (trail_props [])]) \<and>
   mset [demo_message] = mset (pb_queue (tr_pub (demo_trail 7 demo_message ''{}''))) +
     held (pb_workers (tr_pub (demo_trail 7 demo_message ''{}''))) +
     mset (map fate_payload (pb_fates (tr_pub (demo_trail 7 demo_message ''{}''))))"
proof -
  have "trail_reachable mortal_broker demo_client (list_queue 1) (\<lambda>m. Ok ''{}'' :: unit + bytes) []
      audit_config_default (0, 0) (demo_trail 7 demo_message ''{}'')"
    by (rule demo_trail_reachable) (rule refl)
  from audit_trail_confirmed [OF list_queue_ok id_apply this] demo_sent_tasks(4) [of "''{}''"]
  show ?thesis
    by (simp add: demo_trail_fates(2)) (simp add: demo_trail_def demo_client_def audit_config_default_def)
qed

end
