(* ===== verification/PcLint.thy ===== *)
theory PcLint
  imports PcText "HOL-Library.List_Lexorder" "HOL-Library.Char_ord"
begin

section \<open>xtask: the mirrors lint\<close>

text \<open>
  \<open>xtask/src/lint_mirrors.rs\<close> and \<open>main.rs\<close>: the task that lists the exported items without an
  annotation and compares them with a recorded baseline. A source tree is a finite tree of
  directory entries in the order \<open>read_dir\<close> yields them, each of which may fail (\<open>Bad_Entry\<close>,
  \<open>Unlistable\<close>, a \<open>Text_File\<close> that cannot be read); a path is the list of its components under the
  workspace root, and paths and keys compare as in Rust, bytewise, component by component. The
  brace depth is an integer: a file has fewer than \<open>2 ^ 31\<close> braces. \<open>char::is_alphanumeric\<close> is
  spelled out for ASCII; \<open>uni s\<close> is the width of a non-ASCII alphanumeric character at the start
  of \<open>s\<close>, 0 if there is none.
\<close>

subsection \<open>Items and annotations\<close>

definition lint_scope :: "string list" where
  "lint_scope =
     [''pc-amqp'', ''pc-audit'', ''pc-auth'', ''pc-health'', ''pc-s3minio'', ''pc-snapbi'']"

definition lint_annotations :: "string list" where
  "lint_annotations = [''mirrors:'', ''no-go-equivalent:'']"

definition lint_baseline_path :: string where
  "lint_baseline_path = ''xtask/mirrors-baseline.txt''"

definition ascii_alnum :: "char \<Rightarrow> bool" where
  "ascii_alnum c \<longleftrightarrow> is_digit c \<or> (65 \<le> code c \<and> code c \<le> 90) \<or> (97 \<le> code c \<and> code c \<le> 122)"

definition ident_width :: "(string \<Rightarrow> nat) \<Rightarrow> string \<Rightarrow> nat" where
  "ident_width uni s =
     (case s of
        [] \<Rightarrow> 0
      | c # cs \<Rightarrow>
          if ascii_alnum c \<or> c = CHR ''_'' then 1 else if code c < 128 then 0 else uni s)"

function take_ident :: "(string \<Rightarrow> nat) \<Rightarrow> string \<Rightarrow> string" where
  "take_ident uni s =
     (let n = ident_width uni s
      in if n = 0 then [] else take n s @ take_ident uni (drop n s))"
  by pat_completeness auto
termination
proof (relation "measure (\<lambda>(uni, s). length s)")
  fix uni s n
  assume "n = ident_width uni s" "n \<noteq> 0"
  then show "((uni, drop n s), uni, s) \<in> measure (\<lambda>(uni, s). length s)"
    by (cases s) (auto simp: ident_width_def)
qed simp

declare take_ident.simps [simp del]

definition item_keywords :: "string list" where
  "item_keywords =
     [''fn '', ''struct '', ''enum '', ''trait '', ''type '', ''const '', ''static '', ''union '']"

fun item_after :: "(string \<Rightarrow> nat) \<Rightarrow> string list \<Rightarrow> string \<Rightarrow> string option" where
  "item_after uni [] rest = None"
| "item_after uni (keyword # more) rest =
     (case strip_prefix keyword rest of
        Some tail \<Rightarrow>
          (let name = take_ident uni tail in if name = [] then None else Some name)
      | None \<Rightarrow> item_after uni more rest)"

definition exported_item :: "(string \<Rightarrow> nat) \<Rightarrow> string \<Rightarrow> string option" where
  "exported_item uni line =
     (if starts_with line ''pub(crate)'' \<or> starts_with line ''pub(super)'' then None
      else
        case strip_prefix ''pub '' line of
          None \<Rightarrow> None
        | Some rest \<Rightarrow>
            if starts_with rest ''use '' \<or> starts_with rest ''mod '' then None
            else
              item_after uni item_keywords
                (case strip_prefix ''async '' rest of
                   Some r \<Rightarrow> r
                 | None \<Rightarrow> unwrap_or (strip_prefix ''unsafe '' rest) rest))"

text \<open>The walk up from line \<open>i\<close>, over comments, attributes and a blank line under a comment.\<close>

fun has_annotation :: "string list \<Rightarrow> nat \<Rightarrow> bool" where
  "has_annotation ls 0 = False"
| "has_annotation ls (Suc i) =
     (let line = trim (ls ! i) in
      if starts_with line ''///'' \<or> starts_with line ''//!'' \<or> starts_with line ''//'' then
        (if list_ex (\<lambda>a. sublist a line) lint_annotations then True else has_annotation ls i)
      else if starts_with line ''#'' \<or>
              (line = [] \<and> 0 < i \<and> starts_with (trim (ls ! (i - 1))) ''//'') then
        has_annotation ls i
      else False)"

definition brace_count :: "char \<Rightarrow> string \<Rightarrow> int" where
  "brace_count c raw =
     (let n = int (count_list raw c) in if n < 2 ^ 31 then n else 0)"

definition export_key :: "string \<Rightarrow> nat \<Rightarrow> string \<Rightarrow> string" where
  "export_key rel line_no item = rel @ '':'' @ show_nat line_no @ '':'' @ item"

definition is_test_attr :: "string \<Rightarrow> bool" where
  "is_test_attr line \<longleftrightarrow> line = ''#[cfg(test)]'' \<or> starts_with line ''#[cfg(test)]''"

text \<open>The loop of \<open>scan\<close> from line \<open>i\<close>: \<open>td\<close> is \<open>test_depth\<close>, \<open>d\<close> the depth before the line.\<close>

fun scan_loop ::
  "(string \<Rightarrow> nat) \<Rightarrow> string \<Rightarrow> string list \<Rightarrow> string list \<Rightarrow> nat \<Rightarrow> int option \<Rightarrow> int
     \<Rightarrow> string list" where
  "scan_loop uni rel ls [] i td d = []"
| "scan_loop uni rel ls (raw # rest) i td d =
     (let line = trim raw;
          td1 = (if td = None \<and> is_test_attr line then Some d else td);
          opens = brace_count (CHR ''{'') raw;
          closes = brace_count (CHR ''}'') raw;
          d1 = d + (opens - closes)
      in case td1 of
           Some entry \<Rightarrow>
             scan_loop uni rel ls rest (Suc i) (if d1 \<le> entry \<and> 0 < closes then None else td1) d1
         | None \<Rightarrow>
             (case exported_item uni line of
                None \<Rightarrow> scan_loop uni rel ls rest (Suc i) td1 d1
              | Some item \<Rightarrow>
                  if 0 < d \<and> \<not> starts_with line ''pub'' then
                    scan_loop uni rel ls rest (Suc i) td1 d1
                  else if has_annotation ls i then scan_loop uni rel ls rest (Suc i) td1 d1
                  else export_key rel (i + 1) item #
                    scan_loop uni rel ls rest (Suc i) td1 d1))"

definition scan :: "(string \<Rightarrow> nat) \<Rightarrow> string \<Rightarrow> string \<Rightarrow> string list" where
  "scan uni source rel =
     (let ls = text_lines source in scan_loop uni rel ls ls 0 None 0)"

subsection \<open>Walking the sources\<close>

datatype fs_node =
  Text_File "string + string"
| Unlistable string
| Directory "fs_entry list"
and fs_entry =
  Bad_Entry string
| Entry string fs_node

fun is_dir :: "fs_node \<Rightarrow> bool" where
  "is_dir (Text_File c) = False"
| "is_dir (Unlistable e) = True"
| "is_dir (Directory es) = True"

type_synonym rs_file = "string list \<times> (string + string)"

definition display :: "string \<Rightarrow> string list \<Rightarrow> string" where
  "display root path = root @ ''/'' @ join ''/'' path"

definition reading :: "string \<Rightarrow> string list \<Rightarrow> string \<Rightarrow> string" where
  "reading root path e = ''reading '' @ display root path @ '': '' @ e"

fun collect_rs :: "string \<Rightarrow> string list \<Rightarrow> fs_node \<Rightarrow> rs_file list \<Rightarrow> string + rs_file list"
and collect_entries ::
  "string \<Rightarrow> string list \<Rightarrow> fs_entry list \<Rightarrow> rs_file list \<Rightarrow> string + rs_file list" where
  "collect_rs root path (Text_File c) out = Err (reading root path ''Not a directory'')"
| "collect_rs root path (Unlistable e) out = Err (reading root path e)"
| "collect_rs root path (Directory es) out = collect_entries root path es out"
| "collect_entries root path [] out = Ok out"
| "collect_entries root path (Bad_Entry e # es) out = Err (reading root path e)"
| "collect_entries root path (Entry name node # es) out =
     (if is_dir node then
        and_then (collect_rs root (path @ [name]) node out) (collect_entries root path es)
      else case node of
        Text_File c \<Rightarrow>
          if file_extension name = Some ''rs''
          then collect_entries root path es (out @ [(path @ [name], c)])
          else collect_entries root path es out
      | _ \<Rightarrow> collect_entries root path es out)"

record lint_world =
  lw_root :: string
  lw_src :: "string \<Rightarrow> fs_node option"
  lw_baseline :: "string option"
  lw_write_error :: "string option"

definition slashes :: "string \<Rightarrow> string" where
  "slashes s = map (\<lambda>c. if c = CHR 0x5C then CHR ''/'' else c) s"

fun scan_files ::
  "(string \<Rightarrow> nat) \<Rightarrow> string \<Rightarrow> rs_file list \<Rightarrow> string list \<Rightarrow> string + string list" where
  "scan_files uni root [] out = Ok out"
| "scan_files uni root ((path, content) # files) out =
     (case content of
        Inl e \<Rightarrow> Err (reading root path e)
      | Inr source \<Rightarrow>
          scan_files uni root files (out @ scan uni source (slashes (join ''/'' path))))"

fun collect_crates ::
  "(string \<Rightarrow> nat) \<Rightarrow> lint_world \<Rightarrow> string list \<Rightarrow> string list \<Rightarrow> string + string list" where
  "collect_crates uni w [] out = Ok out"
| "collect_crates uni w (krate # crates) out =
     (let dir = [''crates'', krate, ''src''] in
      case lw_src w krate of
        Some node \<Rightarrow>
          if is_dir node then
            and_then (collect_rs (lw_root w) dir node []) (\<lambda>files.
            and_then (scan_files uni (lw_root w) (sort_key fst files) out)
              (collect_crates uni w crates))
          else Err (''crate `'' @ krate @ ''` is in SCOPE but '' @ display (lw_root w) dir @
                 '' does not exist'')
      | None \<Rightarrow> Err (''crate `'' @ krate @ ''` is in SCOPE but '' @ display (lw_root w) dir @
                 '' does not exist''))"

definition lint_collect :: "(string \<Rightarrow> nat) \<Rightarrow> lint_world \<Rightarrow> string + string list" where
  "lint_collect uni w = and_then (collect_crates uni w lint_scope []) (\<lambda>out. Ok (sort out))"

subsection \<open>The baseline and the run\<close>

definition em_dash :: string where
  "em_dash = [CHR 0xE2, CHR 0x80, CHR 0x94]"

definition baseline_header :: "string list" where
  "baseline_header =
     [''# Exported items still missing a `mirrors:` / `no-go-equivalent:` annotation.'',
      ''#'',
      ''# Accepted debt, not approval. Shrink it; do not grow it. Regenerate with'',
      ''# `cargo xtask lint-mirrors --update-baseline` ONLY when paying debt down or'',
      ''# bringing a new crate into scope '' @ em_dash @ '' never to silence a new export.'']"

definition baseline_text :: "string list \<Rightarrow> string" where
  "baseline_text found =
     concat (map (\<lambda>l. l @ [CHR 0x0A]) baseline_header) @
     concat (map (\<lambda>k. k @ [CHR 0x0A]) found)"

definition read_baseline :: "string option \<Rightarrow> string list" where
  "read_baseline contents =
     remdups (sort (filter (\<lambda>l. l \<noteq> [] \<and> \<not> starts_with l ''#'')
       (map trim (text_lines (unwrap_or contents [])))))"

datatype exit_code = Exit_Success | Exit_Failure

record lint_run =
  lr_exit :: exit_code
  lr_written :: "string option"
  lr_stdout :: "string list"
  lr_stderr :: "string list"

definition count_text :: "'a list \<Rightarrow> string" where
  "count_text xs = show_nat (length xs)"

definition new_message :: "string list \<Rightarrow> string" where
  "new_message new =
     join [CHR 0x0A]
       ['''',
        ''lint-mirrors: '' @ count_text new @
          '' exported item(s) have no `mirrors:` or `no-go-equivalent:` annotation.'',
        '''',
        ''This workspace is a port. Record what the Go original is, or say there isn't one:'',
        '''', ''    /// mirrors: `pkg.GoSymbol`'',
        '''', ''    /// mirrors: `pkg.GoOne` + `pkg.GoTwo`      (when it really is more than one)'',
        '''', ''    /// no-go-equivalent: <why>'', '''']"

definition stale_message :: "string list \<Rightarrow> string" where
  "stale_message stale =
     join [CHR 0x0A]
       ['''',
        ''lint-mirrors: '' @ count_text stale @
          '' baseline entr(y/ies) no longer match any export.'',
        ''Renamed, deleted, or annotated? Either way run '' @
          ''`cargo xtask lint-mirrors --update-baseline` so the ratchet cannot rot:'',
        '''']"

definition indented :: "string list \<Rightarrow> string list" where
  "indented ks = map (\<lambda>k. ''  '' @ k) ks"

definition lint_mirrors_run ::
  "(string \<Rightarrow> nat) \<Rightarrow> lint_world \<Rightarrow> string list \<Rightarrow> lint_run" where
  "lint_mirrors_run uni w args =
     (let show_all = list_ex (\<lambda>a. a = ''--all'') args;
          update = list_ex (\<lambda>a. a = ''--update-baseline'') args
      in case lint_collect uni w of
           Inl err \<Rightarrow>
             \<lparr>lr_exit = Exit_Failure, lr_written = None, lr_stdout = [],
              lr_stderr = [''lint-mirrors: '' @ err]\<rparr>
         | Inr found \<Rightarrow>
             if update then
               (case lw_write_error w of
                  Some err \<Rightarrow>
                    \<lparr>lr_exit = Exit_Failure, lr_written = None, lr_stdout = [],
                     lr_stderr = [''lint-mirrors: writing baseline: '' @ err]\<rparr>
                | None \<Rightarrow>
                    \<lparr>lr_exit = Exit_Success, lr_written = Some (baseline_text found),
                     lr_stdout = [''lint-mirrors: baseline updated with '' @ count_text found @
                       '' entries''],
                     lr_stderr = []\<rparr>)
             else if show_all then
               \<lparr>lr_exit = Exit_Success, lr_written = None,
                lr_stdout = found @ [CHR 0x0A # count_text found @
                  '' unannotated exported item(s) in scope''],
                lr_stderr = []\<rparr>
             else
               let baseline = read_baseline (lw_baseline w);
                   current = remdups (sort found);
                   new = filter (\<lambda>k. k \<notin> set baseline) current;
                   stale = filter (\<lambda>k. k \<notin> set current) baseline
               in if new = [] \<and> stale = [] then
                    \<lparr>lr_exit = Exit_Success, lr_written = None,
                     lr_stdout = [''lint-mirrors: ok '' @ em_dash @ '' '' @ count_text found @
                       '' known unannotated item(s), none new''],
                     lr_stderr = []\<rparr>
                  else
                    \<lparr>lr_exit = Exit_Failure, lr_written = None, lr_stdout = [],
                     lr_stderr =
                       (if new \<noteq> [] then new_message new # indented new else []) @
                       (if stale \<noteq> [] then stale_message stale # indented stale else [])\<rparr>)"

definition xtask_usage :: string where
  "xtask_usage =
     join [CHR 0x0A]
       [''cargo xtask <task>'', '''', ''Tasks:'',
        ''  lint-mirrors [--all] [--update-baseline]'',
        ''      Check that exported items in port-critical crates record what Go symbol'',
        ''      they were checked against.'', '''',
        ''      --all              report every unannotated item, ignoring the baseline'',
        ''      --update-baseline  rewrite the baseline to match reality (use when paying'',
        ''                         debt down, and when adding a crate to the scope)'', '''']"

fun xtask_main :: "(string \<Rightarrow> nat) \<Rightarrow> lint_world \<Rightarrow> string list \<Rightarrow> lint_run" where
  "xtask_main uni w [] =
     \<lparr>lr_exit = Exit_Success, lr_written = None, lr_stdout = [xtask_usage], lr_stderr = []\<rparr>"
| "xtask_main uni w (task # args) =
     (if task = ''lint-mirrors'' then lint_mirrors_run uni w args
      else if task \<in> {''-h'', ''--help'', ''help''} then
        \<lparr>lr_exit = Exit_Success, lr_written = None, lr_stdout = [xtask_usage], lr_stderr = []\<rparr>
      else
        \<lparr>lr_exit = Exit_Failure, lr_written = None, lr_stdout = [],
         lr_stderr = [''unknown task: '' @ task @ [CHR 0x0A, CHR 0x0A] @ xtask_usage]\<rparr>)"

subsection \<open>Keys are lines of their own\<close>

text \<open>What is documented of \<open>char::is_alphanumeric\<close>: it holds of whole characters that are neither
  white space nor a line feed.\<close>

definition alnum_law :: "(string \<Rightarrow> nat) \<Rightarrow> bool" where
  "alnum_law uni \<longleftrightarrow>
     (\<forall>s. uni s \<noteq> 0 \<longrightarrow> CHR 0x0A \<notin> set (take (uni s) s) \<and>
        (\<forall>a. ws_width_rev (rev (a @ take (uni s) s)) = 0))"

definition clean_end :: "string \<Rightarrow> bool" where
  "clean_end t \<longleftrightarrow> CHR 0x0A \<notin> set t \<and> (\<forall>a. ws_width_rev (rev (a @ t)) = 0)"

lemma clean_end_append: "CHR 0x0A \<notin> set a \<Longrightarrow> clean_end b \<Longrightarrow> clean_end (a @ b)"
  unfolding clean_end_def by (metis Un_iff append.assoc set_append)

lemma ascii_clean_end: "33 \<le> code c \<Longrightarrow> code c < 128 \<Longrightarrow> clean_end [c]"
  unfolding clean_end_def
  by (auto simp: ws1_def ws2_def ws3_def split: list.splits)

lemma ident_char: "ascii_alnum c \<or> c = CHR ''_'' \<Longrightarrow> 33 \<le> code c \<and> code c < 128"
  by (auto simp: ascii_alnum_def is_digit_def)

lemma ident_chunk_clean:
  assumes "alnum_law uni" "ident_width uni s \<noteq> 0"
  shows "clean_end (take (ident_width uni s) s)"
proof (cases s)
  case (Cons c cs)
  show ?thesis
  proof (cases "ascii_alnum c \<or> c = CHR ''_''")
    case True
    with Cons ascii_clean_end [of c] ident_char [of c] show ?thesis by (simp add: ident_width_def)
  next
    case False
    with assms Cons have "ident_width uni s = uni s"
      by (simp add: ident_width_def split: if_splits)
    with assms show ?thesis by (auto simp: alnum_law_def clean_end_def)
  qed
qed (use assms in \<open>simp add: ident_width_def\<close>)

lemma take_ident_clean:
  "alnum_law uni \<Longrightarrow> take_ident uni s \<noteq> [] \<Longrightarrow> clean_end (take_ident uni s)"
proof (induction uni s rule: take_ident.induct)
  case (1 uni s)
  let ?n = "ident_width uni s"
  from 1(3) have "?n \<noteq> 0" by (subst (asm) take_ident.simps) (auto simp: Let_def split: if_splits)
  then have eq: "take_ident uni s = take ?n s @ take_ident uni (drop ?n s)"
    by (subst take_ident.simps) (simp add: Let_def)
  have chunk: "clean_end (take ?n s)" using ident_chunk_clean 1(2) \<open>?n \<noteq> 0\<close> by blast
  show ?case
  proof (cases "take_ident uni (drop ?n s) = []")
    case False
    with 1(1) [OF refl \<open>?n \<noteq> 0\<close> 1(2)] chunk eq clean_end_append show ?thesis
      by (auto simp: clean_end_def)
  qed (use chunk eq in simp)
qed

lemma item_after_clean:
  "alnum_law uni \<Longrightarrow> item_after uni kws rest = Some item \<Longrightarrow> clean_end item"
  by (induction uni kws rest rule: item_after.induct)
    (auto simp: Let_def take_ident_clean split: option.splits if_splits)

lemma exported_item_clean:
  "alnum_law uni \<Longrightarrow> exported_item uni line = Some item \<Longrightarrow> clean_end item"
  by (auto simp: exported_item_def item_after_clean split: if_splits option.splits)

lemma scan_loop_keys:
  "alnum_law uni \<Longrightarrow> k \<in> set (scan_loop uni rel ls rest i td d) \<Longrightarrow>
     \<exists>n item. k = export_key rel n item \<and> clean_end item"
proof (induction rest arbitrary: i td d)
  case (Cons raw rest)
  from Cons.prems show ?case
    by (auto simp: Let_def split: option.splits if_splits intro: Cons.IH)
      (blast intro: exported_item_clean)+
qed simp

text \<open>The paths of a tree whose entry names have no line feed.\<close>

fun names_ok :: "fs_node \<Rightarrow> bool" and entry_ok :: "fs_entry \<Rightarrow> bool" where
  "names_ok (Directory es) = list_all entry_ok es"
| "names_ok (Text_File c) = True"
| "names_ok (Unlistable e) = True"
| "entry_ok (Bad_Entry e) = True"
| "entry_ok (Entry name node) = (CHR 0x0A \<notin> set name \<and> names_ok node)"

definition path_under :: "string \<Rightarrow> string list \<Rightarrow> bool" where
  "path_under base p \<longleftrightarrow> (\<exists>q. p = base # q) \<and> (\<forall>c\<in>set p. CHR 0x0A \<notin> set c)"

lemma collect_rs_paths:
  "collect_rs root path node out = Ok out' \<Longrightarrow> names_ok node \<Longrightarrow> path_under base path \<Longrightarrow>
     \<forall>f\<in>set out. path_under base (fst f) \<Longrightarrow> \<forall>f\<in>set out'. path_under base (fst f)"
  "collect_entries root path es out = Ok out' \<Longrightarrow> list_all entry_ok es \<Longrightarrow> path_under base path \<Longrightarrow>
     \<forall>f\<in>set out. path_under base (fst f) \<Longrightarrow> \<forall>f\<in>set out'. path_under base (fst f)"
proof (induction root path node out and root path es out arbitrary: out' and out'
    rule: collect_rs_collect_entries.induct)
  case (6 root path name node es out)
  have base: "path_under base (path @ [name])"
    using 6(8,9) by (auto simp: path_under_def)
  show ?case
  proof (cases "is_dir node")
    case True
    with 6(7) obtain mid where "collect_rs root (path @ [name]) node out = Ok mid"
      "collect_entries root path es mid = Ok out'"
      by (auto simp: and_then_Ok_iff)
    with 6(1) [OF True] 6(2) [OF True] 6(8-10) base show ?thesis by auto
  next
    case False
    then obtain c where node: "node = Text_File c" by (cases node) auto
    with 6(3) [OF False node] 6(4) [OF False node] 6(7-10) base show ?thesis
      by (auto split: if_splits)
  qed
qed auto

text \<open>A reported key: below \<open>crates\<close>, on one line, ending in the item's name.\<close>

definition key_ok :: "string \<Rightarrow> bool" where
  "key_ok k \<longleftrightarrow> (\<exists>t. k = CHR ''c'' # t) \<and> clean_end k"

lemma join_no_newline: "\<forall>c\<in>set p. CHR 0x0A \<notin> set c \<Longrightarrow> CHR 0x0A \<notin> set (join ''/'' p)"
  by (induction "''/''" p rule: join.induct) auto

lemma join_head: "\<exists>t. join ''/'' (''crates'' # q) = CHR ''c'' # t"
  by (cases q) auto

lemma show_nat_no_newline: "CHR 0x0A \<notin> set (show_nat n)"
  using show_nat_digits [of n] by (auto simp: list_all_iff is_digit_def)

lemma export_key_ok:
  assumes "path_under ''crates'' path" "clean_end item"
  shows "key_ok (export_key (slashes (join ''/'' path)) n item)"
proof -
  from assms(1) obtain t where "join ''/'' path = CHR ''c'' # t"
    using join_head by (auto simp: path_under_def)
  moreover have "CHR 0x0A \<notin> set (slashes (join ''/'' path))"
    using join_no_newline assms(1) by (auto simp: path_under_def slashes_def)
  ultimately show ?thesis
    using clean_end_append [OF _ assms(2), of "slashes (join ''/'' path) @ '':'' @ show_nat n @ '':''"]
    by (simp add: key_ok_def export_key_def slashes_def show_nat_no_newline)
qed

lemma scan_files_keys:
  "alnum_law uni \<Longrightarrow> scan_files uni root files out = Ok out' \<Longrightarrow>
     \<forall>f\<in>set files. path_under ''crates'' (fst f) \<Longrightarrow> \<forall>k\<in>set out. key_ok k \<Longrightarrow>
     \<forall>k\<in>set out'. key_ok k"
proof (induction uni root files out rule: scan_files.induct)
  case (2 uni root path content files out)
  then obtain source where c: "content = Inr source" by (cases content) auto
  have "\<forall>k\<in>set (scan uni source (slashes (join ''/'' path))). key_ok k"
    using scan_loop_keys [OF 2(2)] export_key_ok [of path] 2(4)
    by (fastforce simp: scan_def Let_def)
  with 2 c show ?case by auto
qed simp

lemma collect_crates_keys:
  "alnum_law uni \<Longrightarrow> collect_crates uni w crates out = Ok out' \<Longrightarrow>
     \<forall>c\<in>set crates. CHR 0x0A \<notin> set c \<and> (\<forall>node. lw_src w c = Some node \<longrightarrow> names_ok node) \<Longrightarrow>
     \<forall>k\<in>set out. key_ok k \<Longrightarrow> \<forall>k\<in>set out'. key_ok k"
proof (induction uni w crates out rule: collect_crates.induct)
  case (2 uni w krate crates out)
  from 2(3) obtain node files mid where w: "lw_src w krate = Some node" "is_dir node"
    and files: "collect_rs (lw_root w) [''crates'', krate, ''src''] node [] = Ok files"
    and mid: "scan_files uni (lw_root w) (sort_key fst files) out = Ok mid"
    and rest: "collect_crates uni w crates mid = Ok out'"
    by (auto simp: Let_def and_then_Ok_iff split: option.splits if_splits)
  have "\<forall>f\<in>set files. path_under ''crates'' (fst f)"
    using collect_rs_paths(1) [OF files] w 2(4) by (simp add: path_under_def)
  with scan_files_keys [OF 2(2) mid] 2(5) have "\<forall>k\<in>set mid. key_ok k" by simp
  with 2(1) [OF refl w 2(2) rest] 2(4) show ?case by simp
qed simp

lemma lint_collect_keys:
  assumes "alnum_law uni" "lint_collect uni w = Ok found"
    and "\<And>c node. c \<in> set lint_scope \<Longrightarrow> lw_src w c = Some node \<Longrightarrow> names_ok node"
    and "k \<in> set found"
  shows "key_ok k"
proof -
  from assms(2) obtain out where out: "collect_crates uni w lint_scope [] = Ok out"
    and found: "found = sort out"
    by (auto simp: lint_collect_def and_then_Ok_iff)
  have "\<forall>c\<in>set lint_scope. CHR 0x0A \<notin> set c" by (simp add: lint_scope_def)
  with collect_crates_keys [OF assms(1) out] assms(3,4) found show ?thesis by auto
qed

lemma clean_end_trim: "clean_end k \<Longrightarrow> trim_end k = k \<and> strip_cr k = k \<and> CHR 0x0A \<notin> set k"
proof -
  assume k: "clean_end k"
  then have rev0: "ws_width_rev (rev k) = 0"
    unfolding clean_end_def by (metis append_Nil)
  have "last k \<noteq> CHR 0x0D" if "k \<noteq> []"
  proof
    assume "last k = CHR 0x0D"
    with that have "rev k = CHR 0x0D # rev (butlast k)"
      by (metis append_butlast_last_id rev.simps(2) rev_rev_ident rev_swap)
    with rev0 show False by (simp add: ws1_def)
  qed
  with k rev0 show ?thesis
    by (auto simp: trim_end_def trim_rev_id strip_cr_def clean_end_def)
qed

lemma key_ok_line:
  assumes "key_ok k"
  shows "trim k = k \<and> strip_cr k = k \<and> CHR 0x0A \<notin> set k \<and> k \<noteq> [] \<and> \<not> starts_with k ''#''"
proof -
  from assms obtain t where k: "k = CHR ''c'' # t" and "clean_end k"
    by (auto simp: key_ok_def)
  moreover from k have "ws_width k = 0"
    by (simp add: ws1_def ws2_def ws3_def split: list.splits)
  ultimately show ?thesis
    using clean_end_trim [of k] by (simp add: trim_def trim_start_id starts_with_def)
qed

lemma baseline_header_line:
  "l \<in> set baseline_header \<Longrightarrow>
     strip_cr l = l \<and> CHR 0x0A \<notin> set l \<and> starts_with (trim l) ''#''"
proof -
  assume "l \<in> set baseline_header"
  then have "(\<exists>t. l = CHR ''#'' # t) \<and> l \<noteq> [] \<and> last l \<noteq> CHR 0x0D \<and> CHR 0x0A \<notin> set l \<and>
      ws_width_rev (rev l) = 0"
    by (simp add: baseline_header_def em_dash_def) (elim disjE; simp add: ws1_def ws2_def ws3_def)
  moreover from this have "ws_width l = 0"
    by (auto simp: ws1_def ws2_def ws3_def split: list.splits)
  moreover have "trim l = l" if "ws_width l = 0" "ws_width_rev (rev l) = 0"
    using that by (simp add: trim_def trim_end_def trim_start_id trim_rev_id)
  ultimately show ?thesis by (auto simp: strip_cr_def starts_with_def)
qed

text \<open>The file that \<open>--update-baseline\<close> writes reads back as the keys it was written from.\<close>

lemma read_baseline_text:
  assumes "\<And>k. k \<in> set found \<Longrightarrow> key_ok k"
  shows "read_baseline (Some (baseline_text found)) = remdups (sort found)"
proof -
  have lines: "text_lines (baseline_text found) = baseline_header @ found"
    using text_lines_concat [of "baseline_header @ found"] baseline_header_line
      key_ok_line [OF assms] by (auto simp: baseline_text_def)
  have header: "filter (\<lambda>l. l \<noteq> [] \<and> \<not> starts_with l ''#'') (map trim baseline_header) = []"
    using baseline_header_line by (auto simp: filter_empty_conv)
  have keys: "filter (\<lambda>l. l \<noteq> [] \<and> \<not> starts_with l ''#'') (map trim found) = found"
    using key_ok_line [OF assms] by (simp add: filter_id_conv map_idI)
  show ?thesis by (simp add: read_baseline_def lines header keys)
qed

text \<open>Over lines of which none opens a test block, \<open>scan\<close> is a comprehension.\<close>

lemma exported_item_pub: "exported_item uni line = Some item \<Longrightarrow> starts_with line ''pub''"
proof -
  assume "exported_item uni line = Some item"
  then obtain rest where "strip_prefix ''pub '' line = Some rest"
    by (auto simp: exported_item_def split: if_splits option.splits)
  then show ?thesis by (simp add: strip_prefix_Some starts_with_def)
qed

definition report_line :: "(string \<Rightarrow> nat) \<Rightarrow> string \<Rightarrow> string list \<Rightarrow> nat \<Rightarrow> string list" where
  "report_line uni rel ls i =
     (case exported_item uni (trim (ls ! i)) of
        None \<Rightarrow> []
      | Some item \<Rightarrow> if has_annotation ls i then [] else [export_key rel (i + 1) item])"

lemma scan_loop_reported:
  "ls = done @ rest \<Longrightarrow> \<forall>l\<in>set rest. \<not> is_test_attr (trim l) \<Longrightarrow>
     scan_loop uni rel ls rest (length done) None d =
     concat (map (report_line uni rel ls) [length done..<length ls])"
proof (induction rest arbitrary: "done" d)
  case (Cons raw rest)
  have step: "[length done..<length ls] = length done # [length (done @ [raw])..<length ls]"
    using Cons.prems(1) by (simp add: upt_conv_Cons del: upt_Suc)
  have line: "ls ! length done = raw" using Cons.prems(1) by simp
  have IH: "\<And>d. scan_loop uni rel ls rest (Suc (length done)) None d =
      concat (map (report_line uni rel ls) [length (done @ [raw])..<length ls])"
    using Cons.IH [of "done @ [raw]"] Cons.prems by simp
  show ?case
    unfolding step using Cons.prems(2) line IH
    by (auto simp: report_line_def [of uni rel ls "length done"] Let_def exported_item_pub
        simp del: upt.simps split: option.splits)
qed simp

text \<open>The comment block and the attributes above line \<open>i\<close>, walked up without a break.\<close>

definition is_comment :: "string \<Rightarrow> bool" where
  "is_comment l \<longleftrightarrow> starts_with (trim l) ''//''"

definition walked :: "string list \<Rightarrow> nat \<Rightarrow> bool" where
  "walked ls j \<longleftrightarrow>
     is_comment (ls ! j) \<or> starts_with (trim (ls ! j)) ''#'' \<or>
     (trim (ls ! j) = [] \<and> 0 < j \<and> is_comment (ls ! (j - 1)))"

lemma comment_prefixes:
  "starts_with l ''///'' \<or> starts_with l ''//!'' \<or> starts_with l ''//'' \<longleftrightarrow> starts_with l ''//''"
  by (auto simp: starts_with_iff)

lemma has_annotation_iff:
  "has_annotation ls i \<longleftrightarrow>
     (\<exists>j<i. is_comment (ls ! j) \<and> (\<exists>a\<in>set lint_annotations. sublist a (trim (ls ! j))) \<and>
        (\<forall>m. j < m \<and> m < i \<longrightarrow> walked ls m))"
proof (induction i)
  case (Suc i)
  let ?hit = "\<lambda>j. is_comment (ls ! j) \<and> (\<exists>a\<in>set lint_annotations. sublist a (trim (ls ! j)))"
  have "(\<exists>j<Suc i. ?hit j \<and> (\<forall>m. j < m \<and> m < Suc i \<longrightarrow> walked ls m)) \<longleftrightarrow>
      ?hit i \<or> (walked ls i \<and> (\<exists>j<i. ?hit j \<and> (\<forall>m. j < m \<and> m < i \<longrightarrow> walked ls m)))"
    by (auto simp: less_Suc_eq)
  with Suc show ?case
    by (auto simp: Let_def comment_prefixes list_ex_iff walked_def is_comment_def
        simp flip: is_comment_def)
qed simp

text \<open>How a test block ends: at the first line with a closing brace that brings the depth back.\<close>

fun block_end :: "int \<Rightarrow> int \<Rightarrow> string list \<Rightarrow> int option" where
  "block_end entry d [] = None"
| "block_end entry d (raw # rest) =
     (let d1 = d + (brace_count (CHR ''{'') raw - brace_count (CHR ''}'') raw)
      in if d1 \<le> entry \<and> 0 < brace_count (CHR ''}'') raw
         then (if rest = [] then Some d1 else None)
         else block_end entry d1 rest)"

lemma scan_block:
  "block_end entry d block = Some d1 \<Longrightarrow>
     scan_loop uni rel ls (block @ rest) i (Some entry) d =
     scan_loop uni rel ls rest (i + length block) None d1"
  by (induction block arbitrary: d i) (auto simp: Let_def split: if_splits)

text \<open>Two limits of the line scanner, on concrete sources: \<open>pub const fn f\<close> is reported under the
  name \<open>fn\<close>, and an item after \<open>#[cfg(test)] mod tests;\<close>, which opens no block, is not reported.\<close>

lemma const_fn_reported_as_fn: "exported_item uni ''pub const fn f() {}'' = Some ''fn''"
  by (simp add: exported_item_def item_keywords_def starts_with_def strip_prefix_def Let_def
      take_ident.simps ident_width_def ascii_alnum_def is_digit_def)

definition test_mod_source :: "string list" where
  "test_mod_source = [''#[cfg(test)]'', ''mod tests;'', ''pub fn real() {}'']"

lemma item_after_test_mod_lost:
  "scan_loop uni rel test_mod_source test_mod_source 0 None 0 = []"
  by (simp add: test_mod_source_def is_test_attr_def trim_def trim_end_def trim_start_id trim_rev_id
      starts_with_def brace_count_def ws1_def ws2_def ws3_def)

subsection \<open>Properties\<close>

text \<open>C36: In a source that opens no test block, \<open>scan\<close> reports exactly the exported items, in
  order and under their line numbers, that have no annotation in the comment lines reached from
  the item upwards over comments, attributes and a blank line right below a comment: an annotation
  above a line of code, or above two blank lines, does not count.\<close>

theorem lint_reports_exactly:
  assumes "\<forall>l\<in>set (text_lines source). \<not> is_test_attr (trim l)"
  shows "scan uni source rel =
    (let ls = text_lines source in
     concat (map (\<lambda>i. case exported_item uni (trim (ls ! i)) of
         None \<Rightarrow> []
       | Some item \<Rightarrow>
           if \<exists>j<i. is_comment (ls ! j) \<and>
                (\<exists>a\<in>set lint_annotations. sublist a (trim (ls ! j))) \<and>
                (\<forall>m. j < m \<and> m < i \<longrightarrow> walked ls m)
           then [] else [export_key rel (i + 1) item]) [0..<length ls]))"
  unfolding scan_def Let_def has_annotation_iff [symmetric]
  using scan_loop_reported [of "text_lines source" "[]" "text_lines source" uni rel 0] assms
  by (simp add: report_line_def [abs_def])

lemma lint_reports_exactly_witness:
  "scan (\<lambda>s. 0) ''pub fn a() {}'' ''x.rs'' = [''x.rs:1:a'']"
proof -
  have n: "show_nat 1 = ''1''" "show_nat (Suc 0) = ''1''" by code_simp+
  have *: "text_lines ''pub fn a() {}'' = [''pub fn a() {}'']"
    by (simp add: text_lines_def)
  have t: "trim ''pub fn a() {}'' = ''pub fn a() {}''"
    by (simp add: trim_def trim_end_def trim_start_id trim_rev_id ws1_def ws2_def ws3_def)
  have "\<forall>l\<in>set (text_lines ''pub fn a() {}''). \<not> is_test_attr (trim l)"
    by (simp add: * t is_test_attr_def starts_with_def)
  from lint_reports_exactly [OF this, of "\<lambda>s. 0" "''x.rs''"] show ?thesis
    by (simp add: * t exported_item_def item_keywords_def starts_with_def strip_prefix_def Let_def
      take_ident.simps ident_width_def ascii_alnum_def is_digit_def export_key_def n)
qed

text \<open>Nothing between a \<open>#[cfg(test)]\<close> line outside any test block and the closing brace that
  brings the depth back is reported, whatever its lines declare; the scan goes on behind it, at
  the depth and line number it has there.\<close>

theorem lint_skips_test_block:
  assumes "is_test_attr (trim attr)"
    and "block_end d d (attr # block) = Some d1"
  shows "scan_loop uni rel ls (attr # block @ rest) i None d =
    scan_loop uni rel ls rest (i + 1 + length block) None d1"
proof -
  have "scan_loop uni rel ls ((attr # block) @ rest) i None d =
      scan_loop uni rel ls ((attr # block) @ rest) i (Some d) d"
    using assms(1) by (simp add: Let_def)
  with scan_block [OF assms(2), of uni rel ls rest i] show ?thesis by simp
qed

lemma lint_skips_test_block_witness:
  "scan_loop (\<lambda>s. 0) ''x.rs'' []
     ([''#[cfg(test)]'', ''mod tests {'', ''pub fn helper() {}'', ''}''] @ [''pub fn b() {}'']) 0 None 0 =
   scan_loop (\<lambda>s. 0) ''x.rs'' [] [''pub fn b() {}''] (Suc (Suc (Suc (Suc 0)))) None 0"
proof -
  have "is_test_attr (trim ''#[cfg(test)]'')"
    by (simp add: is_test_attr_def starts_with_def trim_def trim_end_def trim_start_id trim_rev_id
        ws1_def ws2_def ws3_def)
  moreover have "block_end 0 0 [''#[cfg(test)]'', ''mod tests {'', ''pub fn helper() {}'', ''}''] = Some 0"
    by (simp add: brace_count_def)
  ultimately show ?thesis
    using lint_skips_test_block [of "''#[cfg(test)]''" 0 "[''mod tests {'', ''pub fn helper() {}'', ''}'']" 0
        "\<lambda>s. 0" "''x.rs''" "[]" "[''pub fn b() {}'']" 0]
    by (simp del: scan_loop.simps block_end.simps)
qed

text \<open>The ratchet turns one way.  A plain run succeeds exactly when every scoped crate could be
  read and the unannotated exports are the entries of the baseline, none new and none stale; it
  never writes the baseline.  A missing or unreadable baseline counts as empty.\<close>

theorem lint_ratchet:
  assumes "''--all'' \<notin> set args" "''--update-baseline'' \<notin> set args"
  shows "(lr_exit (xtask_main uni w (''lint-mirrors'' # args)) = Exit_Success \<longleftrightarrow>
      (\<exists>found. lint_collect uni w = Ok found \<and> set found = set (read_baseline (lw_baseline w)))) \<and>
    lr_written (xtask_main uni w (''lint-mirrors'' # args)) = None"
proof -
  have "\<not> list_ex (\<lambda>a. a = ''--all'') args" "\<not> list_ex (\<lambda>a. a = ''--update-baseline'') args"
    using assms by (auto simp: list_ex_iff)
  then show ?thesis
    by (auto simp: lint_mirrors_run_def Let_def filter_empty_conv split: sum.splits)
qed

text \<open>A tree with one source per scoped crate, two of which declare something.\<close>

definition demo_tree :: "string \<Rightarrow> fs_node option" where
  "demo_tree c =
     (if c = ''pc-amqp'' then
        Some (Directory [Entry ''lib.rs'' (Text_File (Ok ''pub fn a() {}'')),
          Entry ''notes.md'' (Text_File (Err ''not UTF-8''))])
      else if c \<in> set lint_scope then Some (Directory [])
      else None)"

definition demo_lint :: "string option \<Rightarrow> lint_world" where
  "demo_lint baseline =
     \<lparr>lw_root = ''/ws'', lw_src = demo_tree, lw_baseline = baseline, lw_write_error = None\<rparr>"

lemma demo_scan: "scan (\<lambda>s. 0) ''pub fn a() {}'' rel = [export_key rel 1 ''a'']"
  by (simp add: scan_def text_lines_def is_test_attr_def trim_def trim_end_def trim_start_id
      trim_rev_id ws1_def ws2_def ws3_def exported_item_def item_keywords_def starts_with_def
      strip_prefix_def Let_def take_ident.simps ident_width_def ascii_alnum_def is_digit_def)

lemma demo_collect:
  "lint_collect (\<lambda>s. 0) (demo_lint b) = Ok [''crates/pc-amqp/src/lib.rs:1:a'']"
proof -
  have "file_extension ''lib.rs'' = Some ''rs''" "file_extension ''notes.md'' = Some ''md''"
    by (simp_all add: file_extension_def rsplit_once_def starts_with_def)
  moreover have "show_nat 1 = ''1''" "show_nat (Suc 0) = ''1''" by code_simp+
  ultimately show ?thesis
    by (simp add: lint_collect_def lint_scope_def demo_lint_def demo_tree_def demo_scan
        export_key_def slashes_def Let_def)
qed

lemma lint_ratchet_witness:
  "lr_exit (xtask_main (\<lambda>s. 0) (demo_lint (Some ''crates/pc-amqp/src/lib.rs:1:a''))
     [''lint-mirrors'']) = Exit_Success \<and>
   lr_exit (xtask_main (\<lambda>s. 0) (demo_lint None) [''lint-mirrors'']) = Exit_Failure"
proof -
  have "read_baseline (Some ''crates/pc-amqp/src/lib.rs:1:a'') = [''crates/pc-amqp/src/lib.rs:1:a'']"
    by (simp add: read_baseline_def text_lines_def trim_def trim_end_def trim_start_id trim_rev_id
        ws1_def ws2_def ws3_def starts_with_def)
  moreover have "read_baseline None = []" by (simp add: read_baseline_def)
  ultimately show ?thesis
    using lint_ratchet [of "[]" "\<lambda>s. 0" "demo_lint (Some ''crates/pc-amqp/src/lib.rs:1:a'')"]
      lint_ratchet [of "[]" "\<lambda>s. 0" "demo_lint None"] demo_collect
    by (auto simp: demo_lint_def simp del: xtask_main.simps intro: exit_code.exhaust)
qed

text \<open>C35: What \<open>--update-baseline\<close> writes is what the next plain run accepts.  On sources whose
  file names have no line feed, and whatever characters the Unicode tables call alphanumeric (none
  of them white space), a run with \<open>--update-baseline\<close> that could write the file leaves a baseline
  under which a plain run over the same sources succeeds.\<close>

theorem lint_update_roundtrip:
  assumes "alnum_law uni"
    and "\<And>c node. c \<in> set lint_scope \<Longrightarrow> lw_src w c = Some node \<Longrightarrow> names_ok node"
    and "lr_written (xtask_main uni w [''lint-mirrors'', ''--update-baseline'']) = Some text"
  shows "lr_exit (xtask_main uni (w\<lparr>lw_baseline := Some text\<rparr>) [''lint-mirrors'']) = Exit_Success"
proof -
  have "collect_crates uni (w\<lparr>lw_baseline := b\<rparr>) crates = collect_crates uni w crates" for b crates
    by (induction crates; rule ext; simp add: Let_def split: option.split)
  then have same: "lint_collect uni (w\<lparr>lw_baseline := b\<rparr>) = lint_collect uni w" for b
    by (simp add: lint_collect_def)
  from assms(3) obtain found where found: "lint_collect uni w = Ok found" "text = baseline_text found"
    by (auto simp: lint_mirrors_run_def Let_def split: sum.splits option.splits)
  have "read_baseline (Some text) = remdups (sort found)"
    unfolding found(2) using lint_collect_keys [OF assms(1) found(1) assms(2)]
    by (rule read_baseline_text)
  then show ?thesis
    by (simp add: lint_mirrors_run_def same found(1) Let_def filter_empty_conv)
qed

lemma lint_update_roundtrip_witness:
  "lr_written (xtask_main (\<lambda>s. 0) (demo_lint None) [''lint-mirrors'', ''--update-baseline'']) =
     Some (baseline_text [''crates/pc-amqp/src/lib.rs:1:a'']) \<and>
   lr_exit (xtask_main (\<lambda>s. 0) (demo_lint None
     \<lparr>lw_baseline := Some (baseline_text [''crates/pc-amqp/src/lib.rs:1:a''])\<rparr>) [''lint-mirrors'']) =
   Exit_Success"
proof -
  have law: "alnum_law (\<lambda>s. 0)" by (simp add: alnum_law_def)
  have names: "names_ok node" if "c \<in> set lint_scope" "lw_src (demo_lint None) c = Some node" for c node
    using that by (auto simp: demo_lint_def demo_tree_def split: if_splits)
  have written: "lr_written (xtask_main (\<lambda>s. 0) (demo_lint None) [''lint-mirrors'', ''--update-baseline''])
      = Some (baseline_text [''crates/pc-amqp/src/lib.rs:1:a''])"
    by (simp add: lint_mirrors_run_def demo_collect Let_def) (simp add: demo_lint_def)
  have "lr_exit (xtask_main (\<lambda>s. 0) (demo_lint None
      \<lparr>lw_baseline := Some (baseline_text [''crates/pc-amqp/src/lib.rs:1:a''])\<rparr>) [''lint-mirrors'']) =
      Exit_Success"
    by (rule lint_update_roundtrip [OF law _ written]) (rule names)
  with written show ?thesis by blast
qed

end
