(* ===== verification/PcUmbrella.thy ===== *)
theory PcUmbrella
  imports PcConfig PcLog
begin

section \<open>paycloudhelper: the umbrella's initialisation\<close>

text \<open>
  \<open>crates/paycloudhelper/src/lib.rs\<close>. \<open>init\<close> runs the bootstrap of pc-config, drops its findings,
  and installs the logger of pc-log; each step is compiled in with the feature of its crate. The
  process is its environment, the identity of pc-core, the logger's state and the filter of the
  installed \<open>tracing\<close> subscriber: \<open>try_init\<close> leaves an installed one alone. No
  \<open>anyhow::Error\<close> is ever built; its type is a text.
\<close>

record 'h process =
  pr_env :: environment
  pr_identity :: identity
  pr_log :: "'h log_state"
  pr_filter :: "string option"

record features =
  ft_config :: bool
  ft_log :: bool

definition install_logger :: "'h process \<Rightarrow> 'h process" where
  "install_logger p =
     (let (filt, st) = log_init (pr_env p) (pr_identity p) (pr_log p)
      in p\<lparr>pr_log := st,
           pr_filter := (case pr_filter p of None \<Rightarrow> Some filt | Some old \<Rightarrow> Some old)\<rparr>)"

definition umbrella_init ::
  "features \<Rightarrow> (path \<Rightarrow> environment \<Rightarrow> environment) \<Rightarrow> (environment \<Rightarrow> environment) \<Rightarrow> file_system
     \<Rightarrow> 'h process \<Rightarrow> (string + unit) \<times> 'h process" where
  "umbrella_init ft dotenv dotenv_default fs p =
     (let p1 = (if ft_config ft then
                  (let (findings, env, ident) =
                         initialize_app dotenv dotenv_default fs (pr_env p, pr_identity p)
                   in p\<lparr>pr_env := env, pr_identity := ident\<rparr>)
                else p);
          p2 = (if ft_log ft then install_logger p1 else p1)
      in (Ok (), p2))"

text \<open>Applying an environment twice changes the identity once.\<close>

definition identity_from :: "environment \<Rightarrow> identity \<Rightarrow> identity" where
  "identity_from env ident =
     \<lparr>id_app_name = (if config_nonempty env ''APP_NAME'' then the (env ''APP_NAME'') else id_app_name ident),
      id_app_env =
        (if config_nonempty env ''APP_ENV'' then the (env ''APP_ENV'')
         else if config_nonempty env ''APP_MODE'' then the (env ''APP_MODE'') else id_app_env ident)\<rparr>"

lemma initialize_app_state:
  "snd (initialize_app dotenv dotenv_default fs (env, ident)) =
     (let env' = load_dotenv dotenv dotenv_default fs env in (env', identity_from env' ident))"
proof -
  obtain env' where env': "load_dotenv dotenv dotenv_default fs env = env'" by simp
  show ?thesis
    by (cases "env' ''APP_NAME''"; cases "env' ''APP_ENV''"; cases "env' ''APP_MODE''")
      (simp_all add: initialize_app_def env' Let_def identity_from_def config_nonempty_def
        set_app_name_def set_app_env_raw_def)
qed

lemma identity_from_idem [simp]: "identity_from env (identity_from env ident) = identity_from env ident"
  by (simp add: identity_from_def)

lemma initialize_sampler_again [simp]:
  "initialize_sampler c (initialize_sampler d s) = initialize_sampler c s"
  by (simp add: initialize_sampler_def)

lemma install_logger_again [simp]: "install_logger (install_logger p) = install_logger p"
  by (simp add: install_logger_def log_init_def Let_def split: option.split)

lemma install_logger_env [simp]:
  "pr_env (install_logger p) = pr_env p" "pr_identity (install_logger p) = pr_identity p"
  by (simp_all add: install_logger_def split: prod.split)

lemma install_logger_update:
  "install_logger (p\<lparr>pr_env := pr_env p, pr_identity := pr_identity p\<rparr>) = install_logger p"
  by simp

lemma umbrella_init_state:
  "snd (umbrella_init ft dotenv dotenv_default fs p) =
     (let env = load_dotenv dotenv dotenv_default fs (pr_env p);
          p1 = (if ft_config ft
                then p\<lparr>pr_env := env, pr_identity := identity_from env (pr_identity p)\<rparr> else p)
      in if ft_log ft then install_logger p1 else p1)"
  using initialize_app_state [of dotenv dotenv_default fs "pr_env p" "pr_identity p"]
  by (auto simp: umbrella_init_def Let_def split: prod.split)

subsection \<open>Properties\<close>

text \<open>C33: Start-up never fails and can be repeated.  Whatever findings the configuration has,
  \<open>init\<close> returns \<open>Ok\<close>.  Once loading the environment again changes nothing, a second \<open>init\<close> right
  after the first leaves the process as it is; after log lines in between it still keeps the
  environment, the identity and the installed filter, but starts the sampler afresh, so that every
  key may print its initial lines again.\<close>

theorem umbrella_init_repeatable:
  assumes "umbrella_init ft dotenv dotenv_default fs p = (r, q)"
    and "load_dotenv dotenv dotenv_default fs (pr_env q) = pr_env q"
  shows "is_ok r \<and>
    snd (umbrella_init ft dotenv dotenv_default fs q) = q \<and>
    snd (umbrella_init ft dotenv dotenv_default fs (q\<lparr>pr_log := st\<rparr>)) =
      q\<lparr>pr_log := (if ft_log ft then st\<lparr>ls_sampler := ls_sampler (pr_log q)\<rparr> else st)\<rparr> \<and>
    (ft_log ft \<longrightarrow> smp_entries (ls_sampler (pr_log q)) = (\<lambda>key. None))"
proof -
  from assms(1) have r: "is_ok r"
    by (auto simp: umbrella_init_def Let_def)
  have q: "q =
      (let env = load_dotenv dotenv dotenv_default fs (pr_env p);
           p1 = (if ft_config ft
                 then p\<lparr>pr_env := env, pr_identity := identity_from env (pr_identity p)\<rparr> else p)
       in if ft_log ft then install_logger p1 else p1)"
    using arg_cong [OF assms(1), of snd] unfolding umbrella_init_state by simp
  have ident: "identity_from (pr_env q) (pr_identity q) = pr_identity q" if "ft_config ft"
    using that by (simp add: q umbrella_init_state Let_def)
  have same: "q\<lparr>pr_log := l, pr_identity := pr_identity q\<rparr> = q\<lparr>pr_log := l\<rparr>" for l
    by simp
  have settled: "snd (umbrella_init ft dotenv dotenv_default fs (q\<lparr>pr_log := l\<rparr>)) =
      (if ft_log ft then install_logger (q\<lparr>pr_log := l\<rparr>) else q\<lparr>pr_log := l\<rparr>)" for l
    using assms(2) ident by (simp add: umbrella_init_state Let_def same)
  have logger: "install_logger (q\<lparr>pr_log := l\<rparr>) = q\<lparr>pr_log := l\<lparr>ls_sampler := ls_sampler (pr_log q)\<rparr>\<rparr>"
    "smp_entries (ls_sampler (pr_log q)) = (\<lambda>key. None)" if "ft_log ft" for l
    using that
    by (auto simp: q Let_def install_logger_def log_init_def initialize_sampler_def
        sampler_new_def split: option.split)
  show ?thesis
    using r settled [of st] settled [of "pr_log q"] logger(1) [of st] logger(1) [of "pr_log q"] logger(2) by simp
qed

text \<open>A process that has nothing set and finds no file.\<close>

definition bare_process :: "unit process" where
  "bare_process = \<lparr>pr_env = Map.empty, pr_identity = identity_init, pr_log = log_initial,
     pr_filter = None\<rparr>"

definition no_files :: file_system where
  "no_files = \<lparr>fs_exists = (\<lambda>p. False), fs_current_dir = None, fs_current_exe = None\<rparr>"

lemma umbrella_init_repeatable_witness:
  "is_ok (fst (umbrella_init \<lparr>ft_config = True, ft_log = True\<rparr> (\<lambda>p e. e) (\<lambda>e. e) no_files bare_process
     :: (string + unit) \<times> unit process)) \<and>
   pr_filter (snd (umbrella_init \<lparr>ft_config = True, ft_log = True\<rparr> (\<lambda>p e. e) (\<lambda>e. e) no_files
     bare_process :: (string + unit) \<times> unit process)) = Some ''info''"
proof -
  let ?init = "umbrella_init \<lparr>ft_config = True, ft_log = True\<rparr> (\<lambda>p e. e) (\<lambda>e. e) no_files bare_process
    :: (string + unit) \<times> unit process"
  have loaded: "load_dotenv (\<lambda>p e. e) (\<lambda>e. e) no_files e = e" for e
    by (simp add: load_dotenv_def split: option.split)
  have "is_ok (fst ?init)"
    using umbrella_init_repeatable [OF prod.collapse [symmetric] loaded, of _ bare_process] by blast
  moreover have "pr_filter (snd ?init) = Some ''info''"
    by (simp add: umbrella_init_state loaded install_logger_def log_init_def bare_process_def Let_def)
  ultimately show ?thesis by blast
qed

end
