(* ===== verification/PcAuthStack.thy ===== *)
theory PcAuthStack
  imports PcAuth
begin

section \<open>The three middlewares of pc-auth as one service\<close>

text \<open>
  The order in which \<open>README.md\<close> puts the middlewares around the routes of a service: the layer
  added last sees a request first, so a request is checked for a revoked token, then for its CSRF
  token, then for its idempotency key. Each of them settles the request id anew, from the header
  the one before has set.
\<close>

definition auth_stack ::
  "('b, 'w, 'e, 'priv, 'pub, 'dk, 'x) auth_env \<Rightarrow> ('b, 'w) service \<Rightarrow> ('b, 'w) service" where
  "auth_stack a routes =
     (let app = verify_idempotency a routes;
          app = verify_csrf a app
      in revoke_token a app)"

subsection \<open>One request id\<close>

text \<open>What is used of \<open>hex::encode\<close> and the sixteen random bytes: digits, and not none.\<close>

definition random_ids :: "('b, 'w, 'e, 'priv, 'pub, 'dk, 'x) auth_env \<Rightarrow> bool" where
  "random_ids a \<longleftrightarrow>
     (\<forall>w. let r = cr_hex (ae_crypto a) (fst (ae_random a w)) in r \<noteq> [] \<and> list_all visible r)"

lemma header_insert_twice: "header_insert n v (header_insert n v h) = header_insert n v h"
  by (simp add: header_insert_def)

lemma with_request_id_twice: "with_request_id (with_request_id rs rid) rid = with_request_id rs rid"
  by (auto simp: with_request_id_def header_insert_twice split: option.split)

lemma settled_id:
  assumes "random_ids a" "ensure_request_id a rq0 w0 = (rid, rq, w1)"
  shows "rid \<noteq> [] \<and> list_all visible rid \<and>
    rq = rq0\<lparr>rq_headers := header_insert request_id_header rid (rq_headers rq0)\<rparr>"
proof -
  define h where "h = Option.bind (header_get request_id_header (rq_headers rq0)) to_str"
  obtain random where id: "rid = get_or_generate_request_id (cr_hex (ae_crypto a)) random h"
    and random: "h = None \<or> h = Some [] \<Longrightarrow> random = fst (ae_random a w0)"
    and rq: "case header_value rid of Some v \<Rightarrow>
        rq = rq0\<lparr>rq_headers := header_insert request_id_header v (rq_headers rq0)\<rparr> | None \<Rightarrow> rq = rq0"
    using assms(2) by (auto simp: ensure_request_id_def h_def [symmetric] Let_def
        split: prod.splits if_splits option.splits)
  have "rid \<noteq> [] \<and> list_all visible rid"
  proof (cases "h = None \<or> h = Some []")
    case True
    with id random assms(1) show ?thesis
      by (auto simp: random_ids_def get_or_generate_request_id_def generate_request_id_def Let_def)
  next
    case False
    then obtain v where "h = Some v" "v \<noteq> []" by (cases h) auto
    moreover from this have "list_all visible v"
      by (auto simp: h_def to_str_def split: bind_splits if_splits)
    ultimately show ?thesis using id by (simp add: get_or_generate_request_id_def)
  qed
  with rq show ?thesis by (simp add: visible_header_value)
qed

lemma id_settles:
  assumes "random_ids a" "ensure_request_id a rq0 w0 = (rid, rq, w1)"
  shows "ensure_request_id a rq w = (rid, rq, w)"
  using settled_id [OF assms]
  by (simp add: ensure_request_id_def to_str_def get_or_generate_request_id_def
      visible_header_value header_insert_twice Let_def)

text \<open>The headers the middlewares read are those the client sent.\<close>

lemma settled_header:
  assumes "random_ids a" "ensure_request_id a rq0 w0 = (rid, rq, w1)" "name \<noteq> request_id_header"
  shows "header_text rq name = header_text rq0 name"
  using settled_id [OF assms(1,2)] assms(3) by (simp add: header_text_def)

subsection \<open>One stage at a time\<close>

definition not_revoked ::
  "('b, 'w, 'e, 'priv, 'pub, 'dk, 'x) auth_env \<Rightarrow> string option \<Rightarrow> bool" where
  "not_revoked a stored \<longleftrightarrow>
     (case stored of None \<Rightarrow> True
      | Some raw \<Rightarrow> (case ae_parse_revoke a raw of Inr s \<Rightarrow> s \<notin> set revoked_statuses | Inl e \<Rightarrow> False))"

text \<open>A service that answers by itself, with one of some codes and the request id.\<close>

definition refuses :: "nat set \<Rightarrow> string \<Rightarrow> http_response \<times> 'w \<Rightarrow> bool" where
  "refuses codes rid out \<longleftrightarrow> rs_code (fst out) \<in> codes \<and>
     header_get request_id_header (rs_headers (fst out)) = Some rid"

lemma refuses_answer:
  "list_all visible rid \<Longrightarrow> refuses codes rid (answer rid r w) \<longleftrightarrow>
     (if 100 \<le> ra_code r \<and> ra_code r < 1000 then ra_code r else 500) \<in> codes"
  using header_get_with_request_id [OF visible_header_value]
  by (simp add: refuses_def) (simp add: answer_def)

lemma refusal_codes [simp]:
  "ra_code (unauthorized m) = 401" "ra_code (internal_error m) = 500" "ra_code (revoked s) = 401"
  "ra_code (bad_request m i) = 400"
  by (simp_all add: unauthorized_def internal_error_def revoked_def bad_request_def)

lemma revoke_stage:
  assumes "ensure_request_id a rq0 w0 = (rid, rq, w1)" and vis: "list_all visible rid"
  shows "(\<exists>m stored w2. token_merchant a w1 (header_text rq ''authorization'') = Ok m \<and>
      redis_get (ae_exec a) (ae_env a) (revoke_token_key (show_int m)) w1 = (Ok stored, w2) \<and>
      not_revoked a stored \<and> (\<forall>next. revoke_token a next rq0 w0 = run_next next rid rq w2)) \<or>
    (\<exists>out. (\<forall>next. revoke_token a next rq0 w0 = out) \<and> refuses {401, 500} rid out)"
proof (cases "token_merchant a w1 (header_text rq ''authorization'')")
  case (Inl e)
  then show ?thesis by (simp add: revoke_token_def assms refuses_answer)
next
  case (Inr m)
  obtain r w2 where g: "redis_get (ae_exec a) (ae_env a) (revoke_token_key (show_int m)) w1 = (r, w2)"
    by (metis prod.exhaust)
  show ?thesis
  proof (cases "\<exists>stored. r = Ok stored \<and> not_revoked a stored")
    case True
    then obtain stored where stored: "r = Ok stored" "not_revoked a stored" by blast
    with Inr g have "\<forall>next. revoke_token a next rq0 w0 = run_next next rid rq w2"
      by (auto simp: revoke_token_def assms not_revoked_def split: option.splits sum.splits)
    with Inr g stored show ?thesis by blast
  next
    case False
    define refusal where "refusal = (case r of Inl e \<Rightarrow> internal_error (ae_pool_error a e)
      | Inr c \<Rightarrow> (case ae_parse_revoke a (the c) of Inl e \<Rightarrow> internal_error e | Inr s \<Rightarrow> revoked s))"
    have "\<forall>next. revoke_token a next rq0 w0 = answer rid refusal w2"
      using Inr g False
      by (auto simp: revoke_token_def assms not_revoked_def refusal_def split: option.splits sum.splits)
    moreover have "refuses {401, 500} rid (answer rid refusal w2)"
      by (simp add: refuses_answer [OF vis] refusal_def split: sum.split)
    ultimately show ?thesis by blast
  qed
qed

lemma csrf_stage:
  assumes "ensure_request_id a rq0 w0 = (rid, rq, w1)" and vis: "list_all visible rid"
  shows "(\<exists>v w2. token_shape (header_text rq csrf_header) \<and>
      redis_get (ae_exec a) (ae_env a) (csrf_key (header_text rq csrf_header)) w1 = (Ok (Some v), w2) \<and>
      (\<forall>next. verify_csrf a next rq0 w0 = run_next next rid rq w2)) \<or>
    (\<exists>out. (\<forall>next. verify_csrf a next rq0 w0 = out) \<and> refuses {400, 401, 500} rid out)"
proof (cases "token_shape (header_text rq csrf_header)")
  case False
  then have "\<forall>next. verify_csrf a next rq0 w0 = answer rid (bad_request ''invalid validation'' []) w1"
    by (auto simp: verify_csrf_def assms Let_def token_shape_def)
  moreover have "refuses {400, 401, 500} rid (answer rid (bad_request ''invalid validation'' []) w1)"
    by (simp add: refuses_answer [OF vis])
  ultimately show ?thesis by blast
next
  case True
  obtain r w2 where g: "redis_get (ae_exec a) (ae_env a) (csrf_key (header_text rq csrf_header)) w1 = (r, w2)"
    by (metis prod.exhaust)
  show ?thesis
  proof (cases "\<exists>v. r = Ok (Some v)")
    case True
    with \<open>token_shape _\<close> g show ?thesis by (auto simp: verify_csrf_def assms Let_def token_shape_def)
  next
    case False
    define out where "out = answer rid (case r of Inl e \<Rightarrow> internal_error (ae_pool_error a e)
      | Inr c \<Rightarrow> unauthorized ''token invalid'') w2"
    have "\<forall>next. verify_csrf a next rq0 w0 = out"
      using False \<open>token_shape _\<close> g
      by (auto simp: verify_csrf_def assms Let_def token_shape_def out_def split: sum.split option.split)
    moreover have "refuses {400, 401, 500} rid out"
      by (cases r) (simp_all add: out_def refuses_answer vis)
    ultimately show ?thesis by blast
  qed
qed

lemma idempotency_stage:
  assumes "ensure_request_id a rq0 w0 = (rid, rq, w1)" and vis: "list_all visible rid"
  shows "(\<exists>key body v session w2 w3. idempotent_request a rq = Ok (key, body, v, session) \<and>
      redis_get (ae_exec a) (ae_env a) key w1 = (Ok None, w2) \<and>
      redis_store (ae_to_json a) (ae_exec a) (ae_env a) key v (from_secs session) w2 = (Ok (), w3) \<and>
      (\<forall>next. verify_idempotency a next rq0 w0 =
        run_next next rid (rq\<lparr>rq_body := ae_from_bytes a body\<rparr>) w3)) \<or>
    (\<exists>out. (\<forall>next. verify_idempotency a next rq0 w0 = out) \<and> refuses {202, 400, 500} rid out)"
proof (cases "idempotent_request a rq")
  case (Inl e)
  with idempotent_request_Err_code [OF Inl] show ?thesis
    by (auto simp: verify_idempotency_def assms refuses_answer)
next
  case (Inr b)
  obtain key body v session where b: "b = (key, body, v, session)" by (metis prod.exhaust)
  obtain stored w2 where g: "redis_get (ae_exec a) (ae_env a) key w1 = (stored, w2)"
    by (metis prod.exhaust)
  obtain st w3 where st: "redis_store (ae_to_json a) (ae_exec a) (ae_env a) key v
      (from_secs session) w2 = (st, w3)"
    by (metis prod.exhaust)
  have found: "refuses {202, 400, 500} rid (with_request_id (into_response id (in_process c)) rid, w)" for c w
    using header_get_with_request_id [OF visible_header_value [OF vis]]
    by (simp add: refuses_def with_request_id_def into_response_def in_process_def split: option.split)
  note eqs = verify_idempotency_def assms Inr b g st
  show ?thesis
  proof (cases "stored = Ok None \<and> st = Ok ()")
    case True
    then show ?thesis by (simp add: eqs)
  next
    case False
    have "\<exists>out. (\<forall>next. verify_idempotency a next rq0 w0 = out) \<and> refuses {202, 400, 500} rid out"
    proof (cases stored)
      case (Inl e)
      then show ?thesis by (simp add: eqs refuses_answer)
    next
      case (Inr c)
      with False found show ?thesis
        by (cases c; cases st) (simp_all add: eqs refuses_answer)
    qed
    then show ?thesis by blast
  qed
qed

lemma run_next_pair:
  "run_next next rid rq w = (with_request_id (fst (next rq w)) rid, snd (next rq w))"
  by (simp add: run_next_def split: prod.split)

lemma refuses_passed_on:
  assumes "refuses codes rid out" "list_all visible rid"
  shows "refuses codes rid (with_request_id (fst out) rid, snd out)"
  using assms header_get_with_request_id [OF visible_header_value [OF assms(2)]]
  by (simp add: refuses_def) (simp add: with_request_id_def split: option.split)

lemma refuses_mono: "refuses codes rid out \<Longrightarrow> codes \<subseteq> codes' \<Longrightarrow> refuses codes' rid out"
  by (auto simp: refuses_def)

text \<open>The inner two, behind a settled request id.\<close>

lemma inner_stage:
  assumes again: "\<And>w. ensure_request_id a rq w = (rid, rq, w)" and vis: "list_all visible rid"
  shows "(\<exists>v w3 key body jv session w4 w5. token_shape (header_text rq csrf_header) \<and>
      redis_get (ae_exec a) (ae_env a) (csrf_key (header_text rq csrf_header)) w2 = (Ok (Some v), w3) \<and>
      idempotent_request a rq = Ok (key, body, jv, session) \<and>
      redis_get (ae_exec a) (ae_env a) key w3 = (Ok None, w4) \<and>
      redis_store (ae_to_json a) (ae_exec a) (ae_env a) key jv (from_secs session) w4 = (Ok (), w5) \<and>
      (\<forall>routes. verify_csrf a (verify_idempotency a routes) rq w2 =
        run_next routes rid (rq\<lparr>rq_body := ae_from_bytes a body\<rparr>) w5)) \<or>
    (\<exists>out. (\<forall>routes. verify_csrf a (verify_idempotency a routes) rq w2 = out) \<and>
      refuses {202, 400, 401, 500} rid out)"
proof -
  note stack = run_next_pair with_request_id_twice
  from csrf_stage [OF again vis, of w2] show ?thesis
  proof (elim disjE exE conjE)
    fix out
    assume "\<forall>next. verify_csrf a next rq w2 = out" "refuses {400, 401, 500} rid out"
    then show ?thesis using refuses_mono by blast
  next
    fix v w3
    assume csrf: "token_shape (header_text rq csrf_header)"
      "redis_get (ae_exec a) (ae_env a) (csrf_key (header_text rq csrf_header)) w2 = (Ok (Some v), w3)"
      and check: "\<forall>next. verify_csrf a next rq w2 = run_next next rid rq w3"
    from idempotency_stage [OF again vis, of w3] show ?thesis
    proof (elim disjE exE conjE)
      fix out
      assume out: "\<forall>next. verify_idempotency a next rq w3 = out" "refuses {202, 400, 500} rid out"
      with check have "\<forall>routes. verify_csrf a (verify_idempotency a routes) rq w2 =
          (with_request_id (fst out) rid, snd out)"
        by (simp add: stack)
      moreover have "refuses {202, 400, 401, 500} rid (with_request_id (fst out) rid, snd out)"
        using out(2) by (intro refuses_passed_on vis) (rule refuses_mono, auto)
      ultimately show ?thesis by blast
    next
      fix key body jv session w4 w5
      assume "idempotent_request a rq = Ok (key, body, jv, session)"
        "redis_get (ae_exec a) (ae_env a) key w3 = (Ok None, w4)"
        "redis_store (ae_to_json a) (ae_exec a) (ae_env a) key jv (from_secs session) w4 = (Ok (), w5)"
        and "\<forall>next. verify_idempotency a next rq w3 = run_next next rid (rq\<lparr>rq_body := ae_from_bytes a body\<rparr>) w5"
      with csrf check show ?thesis
        by (intro disjI1 exI conjI) (assumption | simp add: stack)+
    qed
  qed
qed

subsection \<open>Properties\<close>

text \<open>C10: The stack of the three middlewares. A request reaches the routes only with a bearer token
  that the JWT check accepts and whose merchant is not revoked, a CSRF token that Redis holds, and an
  idempotency key that is the MD5 of its body, was not held and has been stored, with the lookups made
  in this order; every other request is answered by the middleware that stops it, with 202, 400, 401
  or 500, whatever the routes are. Either way all three work under one request id, the client's if it
  sent one, which the routes see and the response carries.\<close>

theorem auth_stack_gate:
  assumes ids: "random_ids a"
    and id: "ensure_request_id a rq0 w0 = (rid, rq, w1)"
  shows "(\<exists>m stored w2 v w3 key body jv session w4 w5.
      token_merchant a w1 (header_text rq0 ''authorization'') = Ok m \<and>
      redis_get (ae_exec a) (ae_env a) (revoke_token_key (show_int m)) w1 = (Ok stored, w2) \<and>
      not_revoked a stored \<and> token_shape (header_text rq0 csrf_header) \<and>
      redis_get (ae_exec a) (ae_env a) (csrf_key (header_text rq0 csrf_header)) w2 = (Ok (Some v), w3) \<and>
      idempotent_request a rq = Ok (key, body, jv, session) \<and>
      redis_get (ae_exec a) (ae_env a) key w3 = (Ok None, w4) \<and>
      redis_store (ae_to_json a) (ae_exec a) (ae_env a) key jv (from_secs session) w4 = (Ok (), w5) \<and>
      (\<forall>routes. auth_stack a routes rq0 w0 =
        run_next routes rid (rq\<lparr>rq_body := ae_from_bytes a body\<rparr>) w5)) \<or>
    (\<exists>out. (\<forall>routes. auth_stack a routes rq0 w0 = out) \<and> refuses {202, 400, 401, 500} rid out)"
proof -
  note settled = settled_id [OF ids id] and again = id_settles [OF ids id]
  have vis: "list_all visible rid" using settled by blast
  have headers: "header_text rq ''authorization'' = header_text rq0 ''authorization''"
    "header_text rq csrf_header = header_text rq0 csrf_header"
    using settled_header [OF ids id] by (simp_all add: request_id_header_def csrf_header_def)
  have stop: ?thesis if "\<And>routes. auth_stack a routes rq0 w0 = out" "refuses codes rid out"
      "codes \<subseteq> {202, 400, 401, 500}" for out codes
    using that refuses_mono by blast
  note stack = auth_stack_def Let_def run_next_pair with_request_id_twice
  from revoke_stage [OF id vis] show ?thesis
  proof (elim disjE exE conjE)
    fix out
    assume "\<forall>next. revoke_token a next rq0 w0 = out" "refuses {401, 500} rid out"
    then show ?thesis by (intro stop) (auto simp: stack)
  next
    fix m stored w2
    assume m: "token_merchant a w1 (header_text rq ''authorization'') = Ok m"
      "redis_get (ae_exec a) (ae_env a) (revoke_token_key (show_int m)) w1 = (Ok stored, w2)"
      "not_revoked a stored"
      and revoke: "\<forall>next. revoke_token a next rq0 w0 = run_next next rid rq w2"
    from inner_stage [OF again vis, of w2] show ?thesis
    proof (elim disjE exE conjE)
      fix out
      assume out: "\<forall>routes. verify_csrf a (verify_idempotency a routes) rq w2 = out"
        "refuses {202, 400, 401, 500} rid out"
      with revoke have "auth_stack a routes rq0 w0 = (with_request_id (fst out) rid, snd out)" for routes
        by (simp add: stack)
      from stop [OF this refuses_passed_on [OF out(2) vis]] show ?thesis by simp
    next
      fix v w3 key body jv session w4 w5
      assume "token_shape (header_text rq csrf_header)"
        "redis_get (ae_exec a) (ae_env a) (csrf_key (header_text rq csrf_header)) w2 = (Ok (Some v), w3)"
        "idempotent_request a rq = Ok (key, body, jv, session)"
        "redis_get (ae_exec a) (ae_env a) key w3 = (Ok None, w4)"
        "redis_store (ae_to_json a) (ae_exec a) (ae_env a) key jv (from_secs session) w4 = (Ok (), w5)"
        and "\<forall>routes. verify_csrf a (verify_idempotency a routes) rq w2 =
          run_next routes rid (rq\<lparr>rq_body := ae_from_bytes a body\<rparr>) w5"
      with m revoke show ?thesis
        unfolding headers by (intro disjI1 exI conjI) (assumption | simp add: stack)+
    qed
  qed
qed

text \<open>A request that passes all three.\<close>

definition stack_env ::
  "(string, (string \<Rightarrow> string option), unit, unit, unit, unit, unit) auth_env" where
  "stack_env = demo_env\<lparr>ae_crypto := demo_crypto\<lparr>cr_jwt_decode :=
     (\<lambda>t k v. Ok \<lparr>cl_expired = [], cl_extra = [(''MerchantId'', Extra_Int 7)]\<rparr>)\<rparr>\<rparr>"

definition stack_post :: "string http_request" where
  "stack_post = demo_post\<lparr>rq_headers :=
     (''authorization'', ''Bearer t'') # (''x-xsrf-token'', ''c'') # rq_headers demo_post\<rparr>"

lemma stack_random_ids: "random_ids stack_env"
  by (simp add: random_ids_def stack_env_def demo_env_def demo_crypto_def visible_def)

lemma stack_settled:
  "ensure_request_id stack_env stack_post w =
     (''k'', stack_post\<lparr>rq_headers := header_insert ''x-request-id'' ''k'' (rq_headers stack_post)\<rparr>, w)"
  by (simp add: ensure_request_id_def stack_env_def stack_post_def demo_env_def demo_crypto_def
      demo_post_def header_get_def request_id_header_def get_or_generate_request_id_def
      generate_request_id_def header_value_def visible_def Let_def)

lemma stack_merchant: "token_merchant stack_env w (header_text stack_post ''authorization'') = Ok 7"
  by (simp add: token_merchant_def stack_env_def stack_post_def demo_post_def demo_env_def
      demo_crypto_def header_text_def header_get_def to_str_def visible_def strip_prefix_def
      starts_with_def verify_jwt_rs256_def parse_go_datetime_def merchant_id_def or_else_def width_defs)

lemma stack_get: "redis_get (ae_exec stack_env) (ae_env stack_env) key w = (Ok (w key), w)"
  by (simp add: redis_get_def bounded_def stack_env_def demo_env_def)

lemma stack_store:
  "redis_store (ae_to_json stack_env) (ae_exec stack_env) (ae_env stack_env) ''k'' (JStr ''7'') (from_secs 9) w =
     (Ok (), w(''k'' \<mapsto> ''7''))"
  by (simp add: redis_store_def bounded_def stack_env_def demo_env_def store_cmd_def Let_def)

lemma stack_request:
  "idempotent_request stack_env
     (stack_post\<lparr>rq_headers := header_insert ''x-request-id'' ''k'' (rq_headers stack_post)\<rparr>) =
   Ok (''k'', ''7'', JStr ''7'', 9)"
  by (simp add: idempotent_request_def stack_post_def demo_post_def stack_env_def demo_env_def
      demo_crypto_def header_text_def header_insert_def header_get_def idem_header_def session_header_def
      to_str_def visible_def char_libs_def matches_key_def key_char_def session_secs_def Let_def
      starts_with_def verify_idempotency_key_def idempotency_key_def json_minify_def)

lemma stack_headers:
  "header_text (stack_post\<lparr>rq_headers := header_insert ''x-request-id'' ''k'' (rq_headers stack_post)\<rparr>)
     ''authorization'' = header_text stack_post ''authorization''"
  "header_text (stack_post\<lparr>rq_headers := header_insert ''x-request-id'' ''k'' (rq_headers stack_post)\<rparr>)
     csrf_header = ''c''"
  by (simp_all add: header_text_def csrf_header_def stack_post_def demo_post_def header_get_def
      header_insert_def to_str_def visible_def)

lemma stack_passes:
  "rs_code (fst (auth_stack stack_env demo_handler stack_post [''csrf-c'' \<mapsto> ''1''])) = 200"
proof -
  note again = id_settles [OF stack_random_ids stack_settled]
  have token: "token_shape ''c''"
    by (simp add: token_shape_def char_libs_def matches_key_def key_char_def)
  show ?thesis
    using token
    by (simp add: auth_stack_def revoke_token_def verify_csrf_def verify_idempotency_def stack_settled again
        stack_headers stack_merchant stack_get stack_request stack_store run_next_pair token_shape_def
        csrf_key_def revoke_token_key_def demo_handler_def with_request_id_def split: option.split)
qed

theorem auth_stack_gate_witness:
  "\<exists>w. auth_stack stack_env demo_handler stack_post [''csrf-c'' \<mapsto> ''1''] = run_next demo_handler ''k''
     (stack_post\<lparr>rq_headers := header_insert ''x-request-id'' ''k'' (rq_headers stack_post), rq_body := ''7''\<rparr>) w"
proof -
  have body: "ae_from_bytes stack_env = (\<lambda>b. b)" by (simp add: stack_env_def demo_env_def id_def)
  show ?thesis
    using auth_stack_gate [OF stack_random_ids stack_settled, of "[''csrf-c'' \<mapsto> ''1'']"] stack_passes
    by (auto simp: stack_request body refuses_def)
qed

end
