(* ===== verification/PcAuthRace.thy ===== *)
theory PcAuthRace
  imports PcAuth
begin

section \<open>pc-auth: idempotent requests that overlap\<close>

text \<open>
  \<open>verify_idempotency\<close> of \<open>crates/pc-auth/src/lib.rs\<close> is an \<open>async fn\<close>: between two of its awaits
  (the lookup, the store, the handler) other requests, other clients of Redis and the clock run.
  Here the function is cut at these awaits: a task is a request with what the function still knows
  when it is resumed, \<open>idem_advance\<close> runs it up to and through its next await, and \<open>idem_step\<close>
  interleaves any number of tasks with arrivals, dropped connections and the steps of \<open>others\<close>.
  The body is read in the first section: reading it touches nothing that requests share. A call
  of the handler is one step; its own awaits are not cut.

  The events record what a task did, with the key it did it under. They are history: no step
  reads them.
\<close>

datatype 'b idem_task =
  Task_Start "'b http_request"
| Task_Get string "'b http_request" string bytes jvalue nat
| Task_Set string "'b http_request" string bytes jvalue nat
| Task_Next string "'b http_request" string
| Task_Done http_response
| Task_Gone

datatype idem_event =
  Missed nat string
| Stored nat string
| Handled nat string

fun in_flight :: "'b idem_task \<Rightarrow> bool" where
  "in_flight (Task_Done rs) = False"
| "in_flight Task_Gone = False"
| "in_flight (Task_Start rq) = True"
| "in_flight (Task_Get rid rq key body value session) = True"
| "in_flight (Task_Set rid rq key body value session) = True"
| "in_flight (Task_Next rid rq key) = True"

fun idem_advance ::
  "('b, 'w, 'e, 'priv, 'pub, 'dk, 'x) auth_env \<Rightarrow> ('b, 'w) service \<Rightarrow> nat \<Rightarrow> 'b idem_task \<Rightarrow> 'w
     \<Rightarrow> 'b idem_task \<times> idem_event list \<times> 'w" where
  "idem_advance a next i (Task_Start rq0) w =
     (let (rid, rq, w1) = ensure_request_id a rq0 w
      in case idempotent_request a rq of
           Inl r \<Rightarrow> (Task_Done (fst (answer rid r w1)), [], w1)
         | Inr (key, body, value, session) \<Rightarrow> (Task_Get rid rq key body value session, [], w1))"
| "idem_advance a next i (Task_Get rid rq key body value session) w =
     (let (r, w1) = redis_get (ae_exec a) (ae_env a) key w
      in case r of
           Inr (Some cached) \<Rightarrow>
             (Task_Done (with_request_id (into_response id (in_process (cached_value a cached))) rid), [], w1)
         | Inr None \<Rightarrow> (Task_Set rid rq key body value session, [Missed i key], w1)
         | Inl e \<Rightarrow> (Task_Done (fst (answer rid (internal_error (ae_pool_error a e)) w1)), [], w1))"
| "idem_advance a next i (Task_Set rid rq key body value session) w =
     (let (st, w1) = redis_store (ae_to_json a) (ae_exec a) (ae_env a) key value (from_secs session) w
      in case st of
           Inl e \<Rightarrow> (Task_Done (fst (answer rid (internal_error (ae_pool_error a e)) w1)), [], w1)
         | Inr u \<Rightarrow> (Task_Next rid (rq\<lparr>rq_body := ae_from_bytes a body\<rparr>) key, [Stored i key], w1))"
| "idem_advance a next i (Task_Next rid rq key) w =
     (let (rs, w1) = run_next next rid rq w in (Task_Done rs, [Handled i key], w1))"
| "idem_advance a next i (Task_Done rs) w = (Task_Done rs, [], w)"
| "idem_advance a next i Task_Gone w = (Task_Gone, [], w)"

record ('b, 'w) idem_system =
  is_tasks :: "'b idem_task list"
  is_world :: 'w
  is_events :: "idem_event list"

definition idem_new :: "'w \<Rightarrow> ('b, 'w) idem_system" where
  "idem_new w = \<lparr>is_tasks = [], is_world = w, is_events = []\<rparr>"

definition idem_arrive :: "'b http_request \<Rightarrow> ('b, 'w) idem_system \<Rightarrow> ('b, 'w) idem_system" where
  "idem_arrive rq s = s\<lparr>is_tasks := is_tasks s @ [Task_Start rq]\<rparr>"

definition idem_resume ::
  "('b, 'w, 'e, 'priv, 'pub, 'dk, 'x) auth_env \<Rightarrow> ('b, 'w) service \<Rightarrow> nat
     \<Rightarrow> ('b, 'w) idem_system \<Rightarrow> ('b, 'w) idem_system" where
  "idem_resume a next i s =
     (let (t, evs, w) = idem_advance a next i (is_tasks s ! i) (is_world s)
      in \<lparr>is_tasks = (is_tasks s)[i := t], is_world = w, is_events = is_events s @ evs\<rparr>)"

definition idem_drop :: "nat \<Rightarrow> ('b, 'w) idem_system \<Rightarrow> ('b, 'w) idem_system" where
  "idem_drop i s = s\<lparr>is_tasks := (is_tasks s)[i := Task_Gone]\<rparr>"

inductive idem_step ::
  "('b, 'w, 'e, 'priv, 'pub, 'dk, 'x) auth_env \<Rightarrow> ('b, 'w) service \<Rightarrow> ('w \<Rightarrow> 'w \<Rightarrow> bool)
     \<Rightarrow> ('b, 'w) idem_system \<Rightarrow> ('b, 'w) idem_system \<Rightarrow> bool"
  for a :: "('b, 'w, 'e, 'priv, 'pub, 'dk, 'x) auth_env"
    and handler :: "('b, 'w) service" and others :: "'w \<Rightarrow> 'w \<Rightarrow> bool" where
  Arrive: "idem_step a handler others s (idem_arrive rq s)"
| Resume: "i < length (is_tasks s) \<Longrightarrow> in_flight (is_tasks s ! i) \<Longrightarrow>
    idem_step a handler others s (idem_resume a handler i s)"
| Hang_Up: "i < length (is_tasks s) \<Longrightarrow> in_flight (is_tasks s ! i) \<Longrightarrow>
    idem_step a handler others s (idem_drop i s)"
| Others: "others (is_world s) w \<Longrightarrow> idem_step a handler others s (s\<lparr>is_world := w\<rparr>)"

inductive_cases idem_stepE: "idem_step a handler others s s'"

definition idem_reachable ::
  "('b, 'w, 'e, 'priv, 'pub, 'dk, 'x) auth_env \<Rightarrow> ('b, 'w) service \<Rightarrow> ('w \<Rightarrow> 'w \<Rightarrow> bool) \<Rightarrow> 'w
     \<Rightarrow> ('b, 'w) idem_system \<Rightarrow> bool" where
  "idem_reachable a handler others w s \<longleftrightarrow> (idem_step a handler others)\<^sup>*\<^sup>* (idem_new w) s"

subsection \<open>One request alone\<close>

fun idem_run ::
  "('b, 'w, 'e, 'priv, 'pub, 'dk, 'x) auth_env \<Rightarrow> ('b, 'w) service \<Rightarrow> nat \<Rightarrow> 'b idem_task \<Rightarrow> 'w
     \<Rightarrow> 'b idem_task \<times> 'w" where
  "idem_run a next 0 t w = (t, w)"
| "idem_run a next (Suc n) t w =
     (if in_flight t then let (t', evs, w') = idem_advance a next 0 t w in idem_run a next n t' w'
      else (t, w))"

lemma idem_run_done [simp]:
  "idem_run a next n (Task_Done rs) w = (Task_Done rs, w)"
  by (cases n) simp_all

lemma idem_run_next:
  "idem_run a next (Suc n) (Task_Next rid rq key) w =
     (let (rs, w') = run_next next rid rq w in (Task_Done rs, w'))"
  by (simp add: split_beta)

lemma idem_run_set:
  "idem_run a next (Suc (Suc n)) (Task_Set rid rq key body v session) w =
     (let (st, w') = redis_store (ae_to_json a) (ae_exec a) (ae_env a) key v (from_secs session) w
      in case st of
           Inl e \<Rightarrow> (Task_Done (fst (answer rid (internal_error (ae_pool_error a e)) w')), w')
         | Inr u \<Rightarrow> (let (rs, w'') = run_next next rid (rq\<lparr>rq_body := ae_from_bytes a body\<rparr>) w'
                    in (Task_Done rs, w'')))"
  by (simp add: idem_run_next split_beta del: idem_run.simps(2) add: idem_run.simps(2) [of _ _ "Suc n"]
      split: sum.split)

lemma answer_pair: "answer rid r w = (fst (answer rid r w), w)"
  by (simp add: answer_def)

subsection \<open>What a task did so far\<close>

fun ev_task :: "idem_event \<Rightarrow> nat" where
  "ev_task (Missed i k) = i"
| "ev_task (Stored i k) = i"
| "ev_task (Handled i k) = i"

definition history :: "nat \<Rightarrow> idem_event list \<Rightarrow> idem_event list" where
  "history i evs = filter (\<lambda>e. ev_task e = i) evs"

lemma history_Nil [simp]: "history i [] = []"
  by (simp add: history_def)

lemma history_append [simp]: "history i (xs @ ys) = history i xs @ history i ys"
  by (simp add: history_def)

lemma history_Cons [simp]:
  "history i (e # es) = (if ev_task e = i then e # history i es else history i es)"
  by (simp add: history_def)

text \<open>What a task carries was checked by \<open>idempotent_request\<close>, and its history is that of its place
  in the function; a response without a handled request is one of the middleware's own.\<close>

fun task_ok ::
  "('b, 'w, 'e, 'priv, 'pub, 'dk, 'x) auth_env \<Rightarrow> nat \<Rightarrow> 'b idem_task \<Rightarrow> idem_event list \<Rightarrow> bool" where
  "task_ok a i (Task_Start rq) h = (h = [])"
| "task_ok a i (Task_Get rid rq key body v session) h = (h = [] \<and> 4 \<le> session)"
| "task_ok a i (Task_Set rid rq key body v session) h = (h = [Missed i key] \<and> 4 \<le> session)"
| "task_ok a i (Task_Next rid rq key) h = (h = [Missed i key, Stored i key])"
| "task_ok a i (Task_Done rs) h =
     (h = [] \<and> rs_code rs \<in> {202, 400, 500} \<or>
      (\<exists>k. h = [Missed i k] \<and> rs_code rs \<in> {202, 400, 500} \<or> h = [Missed i k, Stored i k, Handled i k]))"
| "task_ok a i Task_Gone h = (\<exists>k. prefix h [Missed i k, Stored i k])"

lemma task_ok_prefix:
  "task_ok a i t h \<Longrightarrow> \<exists>k. prefix h [Missed i k, Stored i k, Handled i k]"
  by (cases t) (auto simp: prefix_Cons)

lemma task_ok_gone: "task_ok a i t h \<Longrightarrow> in_flight t \<Longrightarrow> task_ok a i Task_Gone h"
  by (cases t) auto

lemma own_codes:
  "rs_code (fst (answer rid (internal_error m) w)) = 500"
  "rs_code (with_request_id (into_response id (in_process v)) rid) = 202"
  by (simp_all add: internal_error_def with_request_id_def into_response_def in_process_def
      split: option.split)

lemma refused_codes:
  "idempotent_request a rq = Inl r \<Longrightarrow> rs_code (fst (answer rid r w)) \<in> {400, 500}"
  using idempotent_request_Err_code [of a rq r] by auto

lemma advance_tasks:
  assumes "idem_advance a next i t w = (t', evs, w')" "e \<in> set evs"
  shows "ev_task e = i"
  using assms by (cases t) (auto simp: split_beta Let_def split: prod.splits sum.splits option.splits)

lemma advance_ok:
  assumes "idem_advance a next i t w = (t', evs, w')" "task_ok a i t h" "in_flight t"
  shows "task_ok a i t' (h @ evs)"
proof (cases t)
  case (Task_Start rq)
  with assms show ?thesis
    using refused_codes [of a]
    by (fastforce split: prod.splits sum.splits dest: idempotent_request_Ok)
next
  case (Task_Get rid rq key body v session)
  with assms show ?thesis
    by (auto simp: own_codes internal_error_def split: prod.splits sum.splits option.splits)
next
  case (Task_Set rid rq key body v session)
  with assms show ?thesis
    by (auto simp: own_codes internal_error_def split: prod.splits sum.splits option.splits)
next
  case (Task_Next rid rq key)
  with assms show ?thesis
    by (auto split: prod.splits)
qed (use assms in auto)

subsection \<open>Entries that stay\<close>

text \<open>Some text is held under the key. \<open>keeps_entries\<close> is what is asked of the world around: within
  the time looked at, an entry that Redis holds is not removed or expired by others, by the random
  source, by the handler, or by the lookups and stores of requests.\<close>

definition held :: "('b, 'w, 'e, 'priv, 'pub, 'dk, 'x) auth_env \<Rightarrow> string \<Rightarrow> 'w \<Rightarrow> bool" where
  "held a k w \<longleftrightarrow> (\<exists>v. holds a k v w)"

definition keeps_entries ::
  "('b, 'w, 'e, 'priv, 'pub, 'dk, 'x) auth_env \<Rightarrow> ('b, 'w) service \<Rightarrow> ('w \<Rightarrow> 'w \<Rightarrow> bool) \<Rightarrow> bool" where
  "keeps_entries a handler others \<longleftrightarrow>
     (\<forall>k w. held a k w \<longrightarrow>
        (\<forall>w'. others w w' \<longrightarrow> held a k w') \<and> held a k (snd (ae_random a w)) \<and>
        (\<forall>rq. held a k (snd (handler rq w))) \<and>
        (\<forall>t j. held a k (snd (ae_exec a w t (Get_Cmd j)))) \<and>
        (\<forall>t j v ms. held a k (snd (ae_exec a w t (PsetEx_Cmd j v ms)))))"

lemma bounded_world:
  "bounded exec env what c decode w = (r, w') \<Longrightarrow> w' = snd (exec w (op_timeout env) c)"
  by (auto simp: bounded_def Let_def split: prod.splits option.splits sum.splits)

lemma held_get:
  assumes "keeps_entries a handler others" "held a k w" "redis_get (ae_exec a) (ae_env a) j w = (r, w')"
  shows "held a k w'"
  using assms bounded_world [OF assms(3) [unfolded redis_get_def]] by (simp add: keeps_entries_def)

lemma store_cmd_expires:
  assumes "4 \<le> session"
  shows "\<exists>ms. store_cmd env key json (from_secs session) = PsetEx_Cmd key json ms"
  using assms by (simp add: store_cmd_eq as_millis_def from_secs_def)

lemma held_store:
  assumes "keeps_entries a handler others" "held a k w" "4 \<le> session"
    and "redis_store (ae_to_json a) (ae_exec a) (ae_env a) key v (from_secs session) w = (r, w')"
  shows "held a k w'"
proof (cases "ae_to_json a v")
  case (Inl e)
  with assms show ?thesis by (simp add: redis_store_def)
next
  case (Inr json)
  obtain ms where "store_cmd (ae_env a) key json (from_secs session) = PsetEx_Cmd key json ms"
    using store_cmd_expires [OF assms(3)] by blast
  with Inr assms(4) have "bounded (ae_exec a) (ae_env a) ''SET'' (PsetEx_Cmd key json ms) decode_unit w = (r, w')"
    by (simp add: redis_store_def)
  from bounded_world [OF this] assms(1,2) show ?thesis
    by (simp add: keeps_entries_def)
qed

lemma stored_held:
  assumes "stores a" "4 \<le> session"
    and "redis_store (ae_to_json a) (ae_exec a) (ae_env a) key v (from_secs session) w = (Ok u, w')"
  shows "held a key w'"
proof -
  obtain json where "ae_to_json a v = Ok json"
    using assms(3) by (cases "ae_to_json a v") (simp_all add: redis_store_def)
  with redis_store_holds [of a session v json key w w'] assms show ?thesis
    by (auto simp: held_def)
qed

lemma held_get_found:
  assumes "held a k w" "redis_get (ae_exec a) (ae_env a) k w = (r, w')"
  shows "r \<noteq> Ok None"
  using assms redis_get_holds by (fastforce simp: held_def)

lemma advance_held:
  assumes "keeps_entries a handler others" "held a k w" "task_ok a i t h"
    and "idem_advance a handler i t w = (t', evs, w')"
  shows "held a k w'"
proof (cases t)
  case (Task_Start rq)
  obtain rid rq1 w1 where e: "ensure_request_id a rq w = (rid, rq1, w1)"
    by (metis prod.exhaust)
  then have "held a k w1"
    using assms(1,2) ensure_request_id_keeps(2) [OF e] by (auto simp: keeps_entries_def)
  with Task_Start assms(4) e show ?thesis by (auto split: sum.splits)
next
  case (Task_Get rid rq key body v session)
  with assms held_get [OF assms(1,2)] show ?thesis
    by (auto split: prod.splits sum.splits option.splits)
next
  case (Task_Set rid rq key body v session)
  with assms held_store [OF assms(1,2)] show ?thesis
    by (auto split: prod.splits sum.splits)
next
  case (Task_Next rid rq key)
  with assms show ?thesis
    by (auto simp: keeps_entries_def run_next_def split: prod.splits) (metis snd_conv)+
qed (use assms in auto)

subsection \<open>The invariant\<close>

fun may_precede :: "idem_event \<Rightarrow> idem_event \<Rightarrow> bool" where
  "may_precede (Stored i k) (Missed j k') = (k \<noteq> k')"
| "may_precede (Stored i k) (Stored j k') = True"
| "may_precede (Stored i k) (Handled j k') = True"
| "may_precede (Missed i k) e = True"
| "may_precede (Handled i k) e = True"

definition idem_inv ::
  "('b, 'w, 'e, 'priv, 'pub, 'dk, 'x) auth_env \<Rightarrow> ('b, 'w) idem_system \<Rightarrow> bool" where
  "idem_inv a s \<longleftrightarrow>
     (\<forall>i < length (is_tasks s). task_ok a i (is_tasks s ! i) (history i (is_events s))) \<and>
     (\<forall>i \<ge> length (is_tasks s). history i (is_events s) = []) \<and>
     (\<forall>i k. Stored i k \<in> set (is_events s) \<longrightarrow> held a k (is_world s)) \<and>
     sorted_wrt may_precede (is_events s)"

lemma idem_inv_new: "idem_inv a (idem_new w)"
  by (simp add: idem_inv_def idem_new_def)

lemma idem_inv_arrive: "idem_inv a s \<Longrightarrow> idem_inv a (idem_arrive rq s)"
  by (auto simp: idem_inv_def idem_arrive_def nth_append less_Suc_eq)

lemma idem_inv_drop:
  assumes "idem_inv a s" "i < length (is_tasks s)" "in_flight (is_tasks s ! i)"
  shows "idem_inv a (idem_drop i s)"
proof -
  have "task_ok a i Task_Gone (history i (is_events s))"
    using assms task_ok_gone [of a i "is_tasks s ! i"] by (simp add: idem_inv_def del: task_ok.simps)
  then have "task_ok a j ((is_tasks s)[i := Task_Gone] ! j) (history j (is_events s))"
    if "j < length (is_tasks s)" for j
    using that assms(1) by (cases "j = i") (simp_all add: idem_inv_def del: task_ok.simps)
  with assms(1) show ?thesis by (simp add: idem_inv_def idem_drop_def)
qed

text \<open>A lookup misses only a key nobody has stored, and a store is readable at once.\<close>

lemma advance_events:
  assumes "stores a" "task_ok a i t h" "idem_advance a handler i t w = (t', evs, w')"
  shows "evs = [] \<or> (\<exists>k. evs = [Missed i k] \<and> \<not> held a k w) \<or>
    (\<exists>k. evs = [Stored i k] \<and> held a k w') \<or> (\<exists>k. evs = [Handled i k])"
proof (cases t)
  case (Task_Start rq)
  with assms show ?thesis by (auto split: prod.splits sum.splits)
next
  case (Task_Get rid rq key body v session)
  with assms held_get_found [of a key w] show ?thesis
    by (fastforce split: prod.splits sum.splits option.splits)
next
  case (Task_Set rid rq key body v session)
  with assms stored_held [OF assms(1), of session key v w] show ?thesis
    by (auto split: prod.splits sum.splits)
next
  case (Task_Next rid rq key)
  with assms show ?thesis by (auto split: prod.splits)
qed (use assms in auto)

lemma history_others: "\<forall>e \<in> set evs. ev_task e = i \<Longrightarrow> j \<noteq> i \<Longrightarrow> history j evs = []"
  by (auto simp: history_def filter_empty_conv)

lemma history_own: "\<forall>e \<in> set evs. ev_task e = i \<Longrightarrow> history i evs = evs"
  by (simp add: history_def)

lemma may_precede_store:
  "(\<And>j. x \<noteq> Stored j k) \<Longrightarrow> may_precede x (Missed i k)"
  by (cases x) auto

lemma may_precede_free [simp]: "may_precede x (Stored i k)" "may_precede x (Handled i k)"
  by (cases x; simp)+

lemma idem_inv_resume:
  assumes env: "stores a" "keeps_entries a handler others"
    and inv: "idem_inv a s" and i: "i < length (is_tasks s)" "in_flight (is_tasks s ! i)"
  shows "idem_inv a (idem_resume a handler i s)"
proof -
  obtain t evs w where adv: "idem_advance a handler i (is_tasks s ! i) (is_world s) = (t, evs, w)"
    by (metis prod.exhaust)
  have ok: "task_ok a i (is_tasks s ! i) (history i (is_events s))"
    using inv i by (simp add: idem_inv_def)
  have own: "\<forall>e \<in> set evs. ev_task e = i"
    using advance_tasks [OF adv] by blast
  have tasks: "task_ok a j ((is_tasks s)[i := t] ! j) (history j (is_events s @ evs))"
    if "j < length (is_tasks s)" for j
    using advance_ok [OF adv ok i(2)] that inv history_own [OF own] history_others [OF own, of j]
    by (cases "j = i") (simp_all add: idem_inv_def)
  have rest: "history j (is_events s @ evs) = []" if "length (is_tasks s) \<le> j" for j
    using that inv i(1) history_others [OF own, of j] by (simp add: idem_inv_def)
  have kept: "held a k w" if "held a k (is_world s)" for k
    using advance_held [OF env(2) that ok adv] .
  note events = advance_events [OF env(1) ok adv]
  have entries: "held a k w" if "Stored j k \<in> set (is_events s @ evs)" for j k
    using that events kept inv by (auto simp: idem_inv_def)
  have sorted: "sorted_wrt may_precede (is_events s)" and fresh:
    "\<And>j k. \<not> held a k (is_world s) \<Longrightarrow> Stored j k \<notin> set (is_events s)"
    using inv by (auto simp: idem_inv_def)
  have "may_precede x (Missed i k)" if "\<not> held a k (is_world s)" "x \<in> set (is_events s)" for x k
    using fresh [OF that(1)] that(2) by (intro may_precede_store) blast
  with events sorted have "sorted_wrt may_precede (is_events s @ evs)"
    by (auto simp: sorted_wrt_append)
  with tasks rest entries show ?thesis
    unfolding idem_inv_def idem_resume_def adv by simp
qed

lemma idem_inv_step:
  assumes "stores a" "keeps_entries a handler others" "idem_inv a s" "idem_step a handler others s s'"
  shows "idem_inv a s'"
  using assms(4)
proof (cases rule: idem_step.cases)
  case (Others w)
  then have "held a k w" if "held a k (is_world s)" for k
    using that assms(2) unfolding keeps_entries_def by blast
  with Others(1) assms(3) show ?thesis by (simp add: idem_inv_def)
qed (use assms in \<open>auto intro: idem_inv_arrive idem_inv_drop idem_inv_resume\<close>)

lemma idem_reachable_inv:
  assumes "stores a" "keeps_entries a handler others" "idem_reachable a handler others w s"
  shows "idem_inv a s"
  using assms(3) unfolding idem_reachable_def
  by (induction rule: rtranclp_induct) (blast intro: idem_inv_new idem_inv_step [OF assms(1,2)])+

text \<open>A task that was handled looked its key up before anybody stored it.\<close>

lemma handled_missed:
  assumes inv: "idem_inv a s" and evs: "is_events s = xs @ Stored i k # ys"
    and handled: "Handled j k \<in> set (is_events s)"
  shows "Missed j k \<in> set xs"
proof -
  have own: "Handled j k \<in> set (history j (is_events s))"
    using handled by (simp add: history_def)
  then have "j < length (is_tasks s)"
    using inv by (metis idem_inv_def empty_iff empty_set not_less)
  with inv obtain k' where pre: "prefix (history j (is_events s)) [Missed j k', Stored j k', Handled j k']"
    using task_ok_prefix unfolding idem_inv_def by meson
  with own have "Missed j k \<in> set (history j (is_events s))"
    by (auto simp: prefix_Cons)
  then have "Missed j k \<in> set (is_events s)"
    by (simp add: history_def)
  moreover have "Missed j k \<notin> set ys"
    using inv unfolding idem_inv_def evs sorted_wrt_append by auto
  ultimately show ?thesis by (auto simp: evs)
qed

subsection \<open>Schedules\<close>

lemma resume_finished:
  "\<not> in_flight (is_tasks s ! i) \<Longrightarrow> idem_resume a handler i s = s"
  using list_update_id [of "is_tasks s" i]
  by (cases "is_tasks s ! i") (simp_all add: idem_resume_def)

lemma schedule_steps:
  assumes "\<forall>i \<in> set is. i < length (is_tasks s)"
  shows "(idem_step a handler others)\<^sup>*\<^sup>* s (foldl (\<lambda>s i. idem_resume a handler i s) s is)"
  using assms
proof (induction "is" arbitrary: s)
  case (Cons i "is")
  have "(idem_step a handler others)\<^sup>*\<^sup>* s (idem_resume a handler i s)"
    using Cons.prems resume_finished [of s i a handler] idem_step.Resume [of i s a handler others]
    by (cases "in_flight (is_tasks s ! i)") auto
  moreover have "length (is_tasks (idem_resume a handler i s)) = length (is_tasks s)"
    by (simp add: idem_resume_def split_beta)
  ultimately show ?case
    using Cons by (auto intro: rtranclp_trans)
qed simp

definition two_arrived :: "'b http_request \<Rightarrow> 'w \<Rightarrow> ('b, 'w) idem_system" where
  "two_arrived rq w = idem_arrive rq (idem_arrive rq (idem_new w))"

definition in_turns ::
  "('b, 'w, 'e, 'priv, 'pub, 'dk, 'x) auth_env \<Rightarrow> ('b, 'w) service \<Rightarrow> 'b http_request \<Rightarrow> 'w
     \<Rightarrow> ('b, 'w) idem_system" where
  "in_turns a handler rq w =
     foldl (\<lambda>s i. idem_resume a handler i s) (two_arrived rq w) [0, 1, 0, 1, 0, 1, 0, 1]"

lemma in_turns_reachable: "idem_reachable a handler others w (in_turns a handler rq w)"
proof -
  have "idem_step a handler others (idem_new w) (idem_arrive rq (idem_new w))"
    "idem_step a handler others (idem_arrive rq (idem_new w)) (two_arrived rq w)"
    by (simp_all only: two_arrived_def idem_step.Arrive)
  moreover have "(idem_step a handler others)\<^sup>*\<^sup>* (two_arrived rq w) (in_turns a handler rq w)"
    unfolding in_turns_def
    by (rule schedule_steps) (simp add: two_arrived_def idem_arrive_def idem_new_def)
  ultimately show ?thesis
    unfolding idem_reachable_def by (meson converse_rtranclp_into_rtranclp)
qed

lemma demo_held: "held demo_env k w \<longleftrightarrow> w k \<noteq> None"
  by (auto simp: held_def holds_def demo_env_def)

lemma demo_keeps: "keeps_entries demo_env demo_handler (\<lambda>w w'. False)"
  unfolding keeps_entries_def demo_held by (simp add: demo_env_def demo_handler_def)

lemma demo_get: "redis_get (ae_exec demo_env) (ae_env demo_env) k w = (Ok (w k), w)"
  by (simp add: redis_get_def bounded_def demo_env_def)

lemma demo_store:
  "redis_store (ae_to_json demo_env) (ae_exec demo_env) (ae_env demo_env) k (JStr v) (from_secs 9) w =
     (Ok (), w(k \<mapsto> v))"
  by (simp add: redis_store_def bounded_def demo_env_def store_cmd_def Let_def)

text \<open>With nothing in between, the sections of a request are \<open>verify_idempotency\<close>: a request that
  is run from its arrival to its response gives the response and leaves the world of that function.\<close>

lemma idempotency_uncut:
  "idem_run a handler 4 (Task_Start rq) w =
     (case verify_idempotency a handler rq w of (rs, w') \<Rightarrow> (Task_Done rs, w'))"
proof -
  obtain rid rq1 w1 where e: "ensure_request_id a rq w = (rid, rq1, w1)"
    by (metis prod.exhaust)
  show ?thesis
  proof (cases "idempotent_request a rq1")
    case (Inl r)
    then show ?thesis
      by (simp add: verify_idempotency_def e eval_nat_numeral answer_def)
  next
    case (Inr b)
    then show ?thesis
      by (cases b)
        (simp add: verify_idempotency_def e eval_nat_numeral answer_def run_next_def split_beta
          split: sum.split option.split)
  qed
qed

subsection \<open>Properties\<close>

text \<open>C13: Requests that overlap in any way, with dropped connections and other clients of Redis in
  between: each looks its key up, stores it and is handled at most once and in this order, under one
  key; a request that is handled has looked its key up before the first store of that key, so only
  requests that were in flight together are handled twice; and a response without a handler run is
  202, 400 or 500. Assumed: Redis answers a GET after a SET with expiry, and entries are neither
  removed nor expire within the time looked at.\<close>

theorem idempotency_interleaved:
  assumes "stores a" "keeps_entries a handler others" "idem_reachable a handler others w s"
  shows "(\<exists>k. prefix (history i (is_events s)) [Missed i k, Stored i k, Handled i k]) \<and>
    (is_events s = xs @ Stored i k # ys \<and> Handled j k \<in> set (is_events s) \<longrightarrow>
      Missed j k \<in> set xs) \<and>
    (i < length (is_tasks s) \<and> is_tasks s ! i = Task_Done rs \<longrightarrow>
      (\<exists>k. Handled i k \<in> set (is_events s)) \<or> rs_code rs \<in> {202, 400, 500})"
proof -
  have inv: "idem_inv a s"
    using idem_reachable_inv [OF assms] .
  have own: "\<exists>k. prefix (history i (is_events s)) [Missed i k, Stored i k, Handled i k]"
  proof (cases "i < length (is_tasks s)")
    case True
    with inv show ?thesis by (auto simp: idem_inv_def intro: task_ok_prefix)
  next
    case False
    with inv show ?thesis by (simp add: idem_inv_def)
  qed
  have answered: "(\<exists>k. Handled i k \<in> set (is_events s)) \<or> rs_code rs \<in> {202, 400, 500}"
    if "i < length (is_tasks s)" "is_tasks s ! i = Task_Done rs"
  proof -
    have "task_ok a i (Task_Done rs) (history i (is_events s))"
      using inv that by (metis idem_inv_def)
    moreover have "Handled i k \<in> set (is_events s)" if "Handled i k \<in> set (history i (is_events s))" for k
      using that by (simp add: history_def)
    ultimately show ?thesis by fastforce
  qed
  from own answered handled_missed [OF inv] show ?thesis by blast
qed

theorem idempotency_interleaved_witness:
  "\<exists>k. prefix (history 1 (is_events (in_turns demo_env demo_handler demo_post Map.empty)))
     [Missed 1 k, Stored 1 k, Handled 1 k]"
  using idempotency_interleaved [OF demo_stores demo_keeps in_turns_reachable] by blast

text \<open>The gap the lookup and the store leave: an acceptable request that arrives twice, while its key
  is not held, is handed on twice when the two tasks take turns, provided that the two lookups find
  nothing and the two stores succeed.\<close>

theorem idempotency_overlap:
  assumes req: "idempotent_request a rq = Ok (key, body, v, session)"
    and ids: "ensure_request_id a rq w0 = (rid, rq1, w1)" "ensure_request_id a rq w1 = (rid', rq2, w2)"
    and miss: "redis_get (ae_exec a) (ae_env a) key w2 = (Ok None, w3)"
      "redis_get (ae_exec a) (ae_env a) key w3 = (Ok None, w4)"
    and stored: "redis_store (ae_to_json a) (ae_exec a) (ae_env a) key v (from_secs session) w4 = (Ok (), w5)"
      "redis_store (ae_to_json a) (ae_exec a) (ae_env a) key v (from_secs session) w5 = (Ok (), w6)"
  shows "\<exists>s. idem_reachable a handler others w0 s \<and>
    Handled 0 key \<in> set (is_events s) \<and> Handled 1 key \<in> set (is_events s)"
proof -
  have "idempotent_request a rq1 = Ok (key, body, v, session)"
    "idempotent_request a rq2 = Ok (key, body, v, session)"
    using req ensure_request_id_keeps(1) [OF ids(1)] ensure_request_id_keeps(1) [OF ids(2)] by simp_all
  then have "Handled 0 key \<in> set (is_events (in_turns a handler rq w0)) \<and>
      Handled 1 key \<in> set (is_events (in_turns a handler rq w0))"
    using ids miss stored
    by (simp add: in_turns_def two_arrived_def idem_arrive_def idem_new_def idem_resume_def split_beta)
  then show ?thesis
    by (intro exI [of _ "in_turns a handler rq w0"] conjI in_turns_reachable) simp_all
qed

theorem idempotency_overlap_witness:
  "\<exists>s. idem_reachable demo_env demo_handler (\<lambda>w w'. False) Map.empty s \<and>
     Handled 0 ''k'' \<in> set (is_events s) \<and> Handled 1 ''k'' \<in> set (is_events s)"
  by (rule idempotency_overlap [OF demo_request_ok demo_first_request demo_first_request
        demo_get [of _ Map.empty, unfolded option.map] _ demo_store demo_store])
     (simp_all add: demo_get)

end
