(* ===== verification/PcBreakerCalls.thy ===== *)
theory PcBreakerCalls
  imports PcBreaker
begin

section \<open>Calls that share a circuit breaker\<close>

text \<open>
  \<open>CircuitBreaker::call\<close> cut at its await: a call asks the breaker and starts its operation in one
  section, and records the outcome in another; in between the operation runs, and the future of the
  call may be dropped, in which case nothing is recorded. Any number of calls share the breaker.
  \<open>cs_events\<close> lists what the breaker was told, \<open>cs_started\<close> the times at which operations were
  started, \<open>cs_now\<close> is the last time anybody read.
\<close>

datatype ('e, 'a) call_task =
  Call_Start
| Call_Running
| Call_Done "'e breaker_error + 'a"
| Call_Dropped

record ('e, 'a) call_system =
  cs_breaker :: breaker
  cs_tasks :: "('e, 'a) call_task list"
  cs_events :: "breaker_event list"
  cs_started :: "instant list"
  cs_now :: instant

definition calls_new :: "32 word \<Rightarrow> duration \<Rightarrow> ('e, 'a) call_system" where
  "calls_new threshold cooldown =
     \<lparr>cs_breaker = breaker_new threshold cooldown, cs_tasks = [], cs_events = [], cs_started = [], cs_now = 0\<rparr>"

text \<open>The section before the await.\<close>

definition call_begin :: "nat \<Rightarrow> instant \<Rightarrow> ('e, 'a) call_system \<Rightarrow> ('e, 'a) call_system" where
  "call_begin i t s =
     (let (permitted, g) = try_acquire (cs_breaker s) t in
      s\<lparr>cs_breaker := g,
        cs_tasks := (cs_tasks s)[i := if permitted then Call_Running else Call_Done (Err Breaker_Open)],
        cs_events := cs_events s @ [Acquire t],
        cs_started := cs_started s @ (if permitted then [t] else []), cs_now := t\<rparr>)"

text \<open>The section after it, with the outcome \<open>r\<close> of the operation.\<close>

definition outcome_event :: "('e \<Rightarrow> bool) \<Rightarrow> 'e + 'a \<Rightarrow> instant \<Rightarrow> breaker_event" where
  "outcome_event is_cancellation r t =
     (case r of Inr v \<Rightarrow> Success | Inl e \<Rightarrow> if is_cancellation e then Cancel else Failure t)"

definition call_finish ::
  "('e \<Rightarrow> bool) \<Rightarrow> nat \<Rightarrow> 'e + 'a \<Rightarrow> instant \<Rightarrow> ('e, 'a) call_system \<Rightarrow> ('e, 'a) call_system" where
  "call_finish is_cancellation i r t s =
     (let (res, g) = call_after is_cancellation r t (cs_breaker s) in
      s\<lparr>cs_breaker := g, cs_tasks := (cs_tasks s)[i := Call_Done res],
        cs_events := cs_events s @ [outcome_event is_cancellation r t], cs_now := t\<rparr>)"

inductive call_step ::
  "('e \<Rightarrow> bool) \<Rightarrow> ('e, 'a) call_system \<Rightarrow> ('e, 'a) call_system \<Rightarrow> bool"
  for is_cancellation :: "'e \<Rightarrow> bool"
where
  Arrive: "call_step is_cancellation s (s\<lparr>cs_tasks := cs_tasks s @ [Call_Start]\<rparr>)"
| Begin: "i < length (cs_tasks s) \<Longrightarrow> cs_tasks s ! i = Call_Start \<Longrightarrow> cs_now s \<le> t \<Longrightarrow>
    call_step is_cancellation s (call_begin i t s)"
| Finish: "i < length (cs_tasks s) \<Longrightarrow> cs_tasks s ! i = Call_Running \<Longrightarrow> cs_now s \<le> t \<Longrightarrow>
    call_step is_cancellation s (call_finish is_cancellation i r t s)"
| Drop: "i < length (cs_tasks s) \<Longrightarrow> cs_tasks s ! i \<in> {Call_Start, Call_Running} \<Longrightarrow>
    call_step is_cancellation s (s\<lparr>cs_tasks := (cs_tasks s)[i := Call_Dropped]\<rparr>)"

inductive_cases call_stepE: "call_step is_cancellation s s'"

subsection \<open>The invariant\<close>

text \<open>The breaker is where its events take a new one, the operations are started when it lets a call
  through, and the clock readings are in order.\<close>

lemma event_times_append [simp]: "event_times (es @ fs) = event_times es @ event_times fs"
  by (induction es rule: event_times.induct) simp_all

lemma breaker_run_snoc [simp]: "breaker_run g (es @ [e]) = breaker_step (breaker_run g es) e"
  by (simp add: breaker_run_def)

lemma admitted_append:
  "admitted g (es @ fs) = admitted g es @ admitted (breaker_run g es) fs"
  by (induction g es rule: admitted.induct) (simp_all add: breaker_run_def)

definition calls_inv :: "32 word \<Rightarrow> duration \<Rightarrow> ('e, 'a) call_system \<Rightarrow> bool" where
  "calls_inv n d s \<longleftrightarrow>
     cs_breaker s = breaker_run (breaker_new n d) (cs_events s) \<and>
     cs_started s = admitted (breaker_new n d) (cs_events s) \<and>
     sorted (event_times (cs_events s)) \<and> (\<forall>t \<in> set (event_times (cs_events s)). t \<le> cs_now s)"

lemma calls_inv_new: "calls_inv n d (calls_new n d)"
  by (simp add: calls_inv_def calls_new_def breaker_run_def)

lemma calls_inv_tasks [simp]: "calls_inv n d (s\<lparr>cs_tasks := ts\<rparr>) = calls_inv n d s"
  by (simp add: calls_inv_def)

lemma calls_inv_begin:
  assumes "calls_inv n d s" "cs_now s \<le> t"
  shows "calls_inv n d (call_begin i t s)"
proof -
  obtain yes g where "try_acquire (cs_breaker s) t = (yes, g)" by fastforce
  with assms show ?thesis
    by (auto simp: calls_inv_def call_begin_def sorted_append admitted_append)
qed

lemma call_after_step:
  "snd (call_after is_cancellation r t g) = breaker_step g (outcome_event is_cancellation r t)"
  by (simp add: call_after_def outcome_event_def split: sum.split)

lemma calls_inv_finish:
  assumes "calls_inv n d s" "cs_now s \<le> t"
  shows "calls_inv n d (call_finish is_cancellation i r t s)"
proof -
  obtain res g where a: "call_after is_cancellation r t (cs_breaker s) = (res, g)" by fastforce
  have "g = breaker_step (cs_breaker s) (outcome_event is_cancellation r t)"
    using call_after_step [of is_cancellation r t "cs_breaker s"] a by simp
  with assms a show ?thesis
    by (auto simp: calls_inv_def call_finish_def sorted_append admitted_append outcome_event_def
        split: sum.splits if_splits)
qed

lemma calls_inv_step: "call_step is_cancellation s s' \<Longrightarrow> calls_inv n d s \<Longrightarrow> calls_inv n d s'"
  by (auto elim!: call_stepE intro: calls_inv_begin calls_inv_finish)

lemma calls_reachable_inv: "(call_step is_cancellation)\<^sup>*\<^sup>* (calls_new n d) s \<Longrightarrow> calls_inv n d s"
  by (induction rule: rtranclp_induct) (auto intro: calls_inv_new calls_inv_step)

subsection \<open>Recovery\<close>

text \<open>The timestamps a breaker keeps were read while it ran.\<close>

definition stamps_before :: "instant \<Rightarrow> breaker \<Rightarrow> bool" where
  "stamps_before t g \<longleftrightarrow>
     (\<forall>u. cb_opened_at g = Some u \<or> cb_probe_started g = Some u \<longrightarrow> u \<le> t)"

lemma stamps_before_step:
  "stamps_before t g \<Longrightarrow> \<forall>u \<in> set (event_times [e]). u \<le> t \<Longrightarrow> stamps_before t (breaker_step g e)"
  by (cases e) (auto simp: stamps_before_def breaker_step_defs Let_def split: breaker_state.splits if_splits)

lemma stamps_before_run:
  "stamps_before t g \<Longrightarrow> \<forall>u \<in> set (event_times es). u \<le> t \<Longrightarrow> stamps_before t (breaker_run g es)"
proof (induction es rule: rev_induct)
  case (snoc e es)
  then show ?case using stamps_before_step [of t "breaker_run g es" e] by simp
qed (simp add: breaker_run_def)

lemma admits_after:
  "stamps_before t g \<Longrightarrow> t + cb_cooldown g \<le> u \<Longrightarrow> fst (try_acquire g u)"
  by (fastforce simp: try_acquire_def none_or_elapsed_def stamps_before_def since_def
      split: breaker_state.splits option.splits)

subsection \<open>Properties\<close>

text \<open>C4: Calls that overlap in any way drive the breaker by its four atomic operations only, and
  never wedge it. In every state they reach, also when calls were dropped while they ran and reported
  nothing, the operations started are those the breaker admitted; and once a cooldown has passed since anybody spoke to it, the next call runs, and if its operation succeeds the
  breaker is closed and lets calls through again until a threshold of failures in a row.\<close>

theorem breaker_calls_recover:
  assumes "(call_step is_cancellation)\<^sup>*\<^sup>* (calls_new n d) (s :: ('e, 'a) call_system)"
  shows "cs_breaker s = breaker_run (breaker_new n d) (cs_events s) \<and>
    cs_started s = admitted (breaker_new n d) (cs_events s) \<and>
    (cs_now s + d \<le> t \<longrightarrow>
      (case breaker_call is_cancellation (cs_breaker s) t r u of (runs, result, g) \<Rightarrow>
         runs = 1 \<and> result \<noteq> Err Breaker_Open \<and>
         (is_ok r \<longrightarrow> cb_state g = Closed \<and>
            (peak_streak 0 os < unat (max n 1) \<longrightarrow>
               fst (try_acquire (record_outcomes record_success record_failure g os) t')))))"
proof -
  note inv = calls_reachable_inv [OF assms]
  let ?g = "cs_breaker s"
  have g: "?g = breaker_run (breaker_new n d) (cs_events s)" using inv by (simp add: calls_inv_def)
  have "stamps_before (cs_now s) (breaker_new n d)"
    by (simp add: stamps_before_def breaker_new_def)
  then have stamps: "stamps_before (cs_now s) ?g"
    unfolding g using inv by (intro stamps_before_run) (simp_all add: calls_inv_def)
  have config: "cb_cooldown ?g = d" "cb_threshold ?g = max n 1"
    by (simp_all add: g) (simp_all add: breaker_new_def)
  have reset: "breaker_ok (record_success (snd (try_acquire ?g t)))"
    using breaker_ok_step [of "breaker_step ?g (Acquire t)" Success] breaker_ok_step [of ?g "Acquire t"]
      breaker_ok_run [OF breaker_ok_new, of n d "cs_events s"] by (simp add: g)
  have "breaker_calm (record_success (snd (try_acquire ?g t))) t'"
    using reset by (simp add: breaker_calm_def record_success_def)
  from resilience_trip.calm_admits [OF resilience_trip.outcomes_calm [OF this]] config
  have calm: "peak_streak 0 os < unat (max n 1) \<longrightarrow>
      fst (try_acquire (record_outcomes record_success record_failure
        (record_success (snd (try_acquire ?g t))) os) t')"
    using breaker_config_step(1) [of ?g "Acquire t"]
    by (simp add: breaker_admits_def record_success_def)
  have "fst (try_acquire ?g t)" if "cs_now s + d \<le> t"
    using admits_after [OF stamps] that config by simp
  moreover have "cb_state (record_success h) = Closed" for h by (simp add: record_success_def)
  ultimately show ?thesis
    using inv calm by (cases r) (auto simp: calls_inv_def breaker_call_def call_after_def split_beta)
qed

text \<open>A probe that is dropped while it runs: the breaker stays half-open, and lets the next one
  through a cooldown later.\<close>

definition demo_open :: "(unit, nat) call_system" where
  "demo_open = call_finish (\<lambda>e. False) 0 (Err ()) 1 (call_begin 0 0
     ((calls_new 1 10)\<lparr>cs_tasks := [Call_Start, Call_Start]\<rparr>))"

definition demo_lost :: "(unit, nat) call_system" where
  "demo_lost = (call_begin 1 12 demo_open)\<lparr>cs_tasks := [Call_Done (Err (Breaker_Inner ())), Call_Dropped]\<rparr>"

lemmas demo_calls = demo_open_def demo_lost_def call_begin_def call_finish_def calls_new_def
  call_after_def breaker_new_def breaker_step_defs outcome_event_def since_def Let_def

lemma demo_lost_reachable: "(call_step (\<lambda>e. False))\<^sup>*\<^sup>* (calls_new 1 10) demo_lost"
proof -
  let ?S = "call_step (\<lambda>e :: unit. False)"
  let ?a = "(calls_new 1 10)\<lparr>cs_tasks := [Call_Start]\<rparr> :: (unit, nat) call_system"
  let ?b = "(calls_new 1 10)\<lparr>cs_tasks := [Call_Start, Call_Start]\<rparr> :: (unit, nat) call_system"
  have "?S (calls_new 1 10) ?a" "?S ?a ?b"
    using Arrive [of "\<lambda>e. False" "calls_new 1 10"] Arrive [of "\<lambda>e. False" ?a]
    by (simp_all add: calls_new_def)
  moreover have "?S ?b (call_begin 0 0 ?b)" by (rule Begin) (simp_all add: calls_new_def)
  moreover have "?S (call_begin 0 0 ?b) demo_open"
    unfolding demo_open_def by (rule Finish) (simp_all add: demo_calls)
  moreover have "?S demo_open (call_begin 1 12 demo_open)" by (rule Begin) (simp_all add: demo_calls)
  moreover have "?S (call_begin 1 12 demo_open) demo_lost"
    using Drop [of 1 "call_begin 1 12 demo_open" "\<lambda>e. False"] by (simp add: demo_calls)
  ultimately show ?thesis by (meson converse_rtranclp_into_rtranclp rtranclp.rtrancl_refl)
qed

theorem breaker_calls_recover_witness:
  "fst (breaker_call (\<lambda>e. False) (cs_breaker demo_lost) 15 (Ok 5 :: unit + nat) 16) = 0 \<and>
   fst (breaker_call (\<lambda>e. False) (cs_breaker demo_lost) 22 (Ok 5 :: unit + nat) 23) = 1"
proof -
  have "cs_now demo_lost = 12" by (simp add: demo_calls)
  with breaker_calls_recover [OF demo_lost_reachable, where t = 22 and r = "Ok 5 :: unit + nat" and u = 23 and os = "[]" and t' = 0]
  have "fst (breaker_call (\<lambda>e. False) (cs_breaker demo_lost) 22 (Ok 5 :: unit + nat) 23) = 1"
    by (auto simp: split_beta)
  then show ?thesis by (simp add: demo_calls breaker_call_def)
qed

end
