(* ===== verification/PcAuditRecords.thy ===== *)
theory PcAuditRecords
  imports PcAuditAmqp
begin

section \<open>pc-audit: the records of a service on their way to the broker\<close>

text \<open>
  A service uses pc-audit through four payload builders and \<open>submit\<close>. The builders draw ids from the
  process-wide atomic \<open>NEXT_ID\<close>, which starts at zero, one \<open>fetch_add\<close> per payload; \<open>submit\<close> takes its
  payload by value. \<open>service_step\<close> interleaves, in any order, calls of the builders (each in an
  environment of its own: identity and clock), submissions, each of a payload that was built and
  not submitted yet, and everything the publisher's workers, the client and its other users do.
  \<open>sv_built\<close> holds the payloads that were built and not submitted. A service that clones a payload
  and submits both is outside this: it asks for the same id twice.
\<close>

inductive builds :: "audit_env \<Rightarrow> int \<Rightarrow> message_payload option \<Rightarrow> int \<Rightarrow> bool" for env :: audit_env where
  B_Process: "process_payload env func description info keys counter = (r, counter') \<Longrightarrow>
    builds env counter r counter'"
| B_Data: "data_payload env func description source communication keys data counter = (r, counter') \<Longrightarrow>
    builds env counter r counter'"
| B_Trx: "trx_payload env d counter = (r, counter') \<Longrightarrow> builds env counter r counter'"
| B_Trace: "trace_payload env trace counter = (r, counter') \<Longrightarrow> builds env counter r counter'"

record ('q, 'w, 'x) service =
  sv_counter :: int
  sv_built :: "message_payload list"
  sv_trail :: "('q, 'w, 'x) trail"

definition service_submit ::
  "'q queue_ops \<Rightarrow> nat \<Rightarrow> message_payload list \<Rightarrow> message_payload \<Rightarrow> message_payload list \<Rightarrow>
     ('q, 'w, 'x) service \<Rightarrow> ('q, 'w, 'x) service" where
  "service_submit ops now ms m ms' s =
     s\<lparr>sv_built := ms @ ms',
       sv_trail := (sv_trail s)\<lparr>tr_pub := snd (submit ops now m (tr_pub (sv_trail s)))\<rparr>\<rparr>"

inductive service_step ::
  "('w, 'x) broker \<Rightarrow> amqp_client \<Rightarrow> 'q queue_ops \<Rightarrow> (message_payload \<Rightarrow> 'e + bytes) \<Rightarrow>
     ('q, 'w, 'x) service \<Rightarrow> ('q, 'w, 'x) service \<Rightarrow> bool"
  for b :: "('w, 'x) broker" and cl :: amqp_client and ops :: "'q queue_ops"
    and marsh :: "message_payload \<Rightarrow> 'e + bytes"
where
  S_Build: "builds env (sv_counter s) r counter' \<Longrightarrow>
    service_step b cl ops marsh s (s\<lparr>sv_counter := counter',
      sv_built := sv_built s @ (case r of None \<Rightarrow> [] | Some m \<Rightarrow> [m])\<rparr>)"
| S_Submit: "sv_built s = ms @ m # ms' \<Longrightarrow>
    service_step b cl ops marsh s (service_submit ops now ms m ms' s)"
| S_Trail: "trail_step b cl ops marsh (sv_trail s) t \<Longrightarrow>
    pb_accepted (tr_pub t) = pb_accepted (tr_pub (sv_trail s)) \<Longrightarrow>
    service_step b cl ops marsh s (s\<lparr>sv_trail := t\<rparr>)"

definition service_new :: "'q \<Rightarrow> audit_config \<Rightarrow> 'w amqp_world \<Rightarrow> ('q, 'w, 'x) service" where
  "service_new fresh config st =
     \<lparr>sv_counter = 0, sv_built = [], sv_trail = trail_new fresh config st\<rparr>"

text \<open>The states after \<open>n\<close> steps of a process whose client \<open>with_connection_name\<close> built.\<close>

definition service_after ::
  "nat \<Rightarrow> ('w, 'x) broker \<Rightarrow> amqp_client \<Rightarrow> 'q queue_ops \<Rightarrow> (message_payload \<Rightarrow> 'e + bytes) \<Rightarrow> 'q \<Rightarrow>
     audit_config \<Rightarrow> 'w \<Rightarrow> ('q, 'w, 'x) service \<Rightarrow> bool" where
  "service_after n b cl ops marsh fresh config w s \<longleftrightarrow>
     (\<exists>st. with_connection_name b (ac_queue cl) (ac_addr cl) (ac_name cl)
         \<lparr>am_world = w, am_log = [], am_acks = [], am_state = None\<rparr> = (Ok cl, st) \<and>
       (service_step b cl ops marsh ^^ n) (service_new fresh config st) s)"

subsection \<open>What the builders make\<close>

lemmas builder_defs = process_payload_def data_payload_def trx_payload_def trace_payload_def
  message_payload_new_def Let_def

lemma builds_new:
  assumes "builds env counter (Some m) counter'"
  shows "(mp_id m, counter') = next_audit_id counter \<and> mp_module_id m = app_name (ae_identity env) \<and>
    mp_time m = ae_datetime_now env \<and> mp_command m \<in> {cmd_process, cmd_data, cmd_trx, cmd_trace}"
  using assms by cases (auto simp: builder_defs split: if_splits prod.splits)

lemma builds_None: "builds env counter None counter' \<Longrightarrow> counter' = counter"
  by (erule builds.cases) (auto simp: builder_defs split: if_splits prod.splits)

lemma builds_id:
  assumes "builds env counter (Some m) counter'" "0 \<le> counter" "counter < 2 ^ 63 - 1"
  shows "mp_id m = counter + 1 \<and> counter' = counter + 1"
  using builds_new [OF assms(1)] next_audit_id_in_range [of counter] assms(2,3) by simp

text \<open>The seven members a trace can be searched by.\<close>

definition trace_keys :: "string list" where
  "trace_keys =
     [''trxId'', ''trxNo'', ''trxReferenceNo'', ''trxPayCode1'', ''ticketId'', ''merchantCode'', ''mId'']"

definition well_formed_record :: "audit_env \<Rightarrow> message_payload \<Rightarrow> bool" where
  "well_formed_record env m \<longleftrightarrow>
     mp_command m \<in> {cmd_process, cmd_data, cmd_trx, cmd_trace} \<and>
     mp_module_id m = app_name (ae_identity env) \<and> mp_time m = ae_datetime_now env \<and>
     (mp_command m = cmd_trace \<longrightarrow> list_ex (\<lambda>k. field_of k (mp_data m) \<noteq> None) trace_keys)"

lemma commands_distinct:
  "cmd_process \<noteq> cmd_trace" "cmd_data \<noteq> cmd_trace" "cmd_trx \<noteq> cmd_trace"
  by (simp_all add: cmd_process_def cmd_data_def cmd_trx_def cmd_trace_def)

lemma builds_trace:
  assumes "builds env counter (Some m) counter'" "mp_command m = cmd_trace"
  shows "list_ex (\<lambda>k. field_of k (mp_data m) \<noteq> None) trace_keys"
  using assms(1)
proof cases
  case (B_Trace trace)
  with trace_payload_searchable [where env = env and t = trace and counter = counter] show ?thesis
    by (simp add: trace_keys_def)
qed (use assms(2) commands_distinct in \<open>auto simp: builder_defs split: if_splits prod.splits\<close>)

lemma builds_well_formed: "builds env counter (Some m) counter' \<Longrightarrow> well_formed_record env m"
  using builds_new builds_trace by (simp add: well_formed_record_def)

lemma distinct_map_submset:
  assumes "mset xs \<subseteq># mset ys" "distinct (map f ys)"
  shows "distinct (map f xs)"
proof -
  have "mset (map f xs) \<subseteq># mset (map f ys)"
    using assms(1) by (simp add: image_mset_subseteq_mono)
  then have "count (mset (map f xs)) a \<le> 1" for a
    using assms(2) mset_subset_eq_count [of "mset (map f xs)" "mset (map f ys)" a]
    by (simp add: distinct_count_atmost_1 split: if_splits)
  then show ?thesis
    unfolding distinct_count_atmost_1 by (metis count_mset_0_iff le_antisym less_one not_le)
qed

subsection \<open>The service's records\<close>

definition service_records :: "('q, 'w, 'x) service \<Rightarrow> message_payload list" where
  "service_records s = sv_built s @ pb_accepted (tr_pub (sv_trail s))"

text \<open>Every record was made by a builder, and the ids drawn so far are all different.\<close>

definition records_inv :: "('q, 'w, 'x) service \<Rightarrow> bool" where
  "records_inv s \<longleftrightarrow>
     distinct (map mp_id (service_records s)) \<and>
     (\<forall>m \<in> set (service_records s). mp_id m \<le> sv_counter s \<and>
        (\<exists>env counter counter'. builds env counter (Some m) counter'))"

lemma submit_accepted:
  "pb_accepted (snd (submit ops now m p)) \<in> {pb_accepted p, pb_accepted p @ [m]}"
  by (simp add: submit_def split: sum.split)

lemma records_inv_build:
  assumes "builds env (sv_counter s) (Some m) counter'" "records_inv s" "0 \<le> sv_counter s" "sv_counter s < 2 ^ 63 - 1"
  shows "records_inv (s\<lparr>sv_counter := counter', sv_built := sv_built s @ [m]\<rparr>)"
proof -
  from builds_id [OF assms(1,3,4)] have m: "mp_id m = sv_counter s + 1" "counter' = sv_counter s + 1"
    by simp_all
  from assms(2) have old: "mp_id m' \<le> sv_counter s" if "m' \<in> set (service_records s)" for m'
    using that by (simp add: records_inv_def)
  then have "mp_id m \<notin> mp_id ` set (service_records s)"
    using m by force
  with assms(1,2) m old show ?thesis
    by (fastforce simp: records_inv_def service_records_def)
qed

lemma records_inv_step:
  assumes "service_step b cl ops marsh s s'" "records_inv s" "0 \<le> sv_counter s" "sv_counter s < 2 ^ 63 - 1"
  shows "records_inv s' \<and> sv_counter s \<le> sv_counter s' \<and> sv_counter s' \<le> sv_counter s + 1"
  using assms(1)
proof cases
  case (S_Build env r counter')
  then show ?thesis
  proof (cases r)
    case None
    with S_Build builds_None [of env "sv_counter s" counter'] assms(2) show ?thesis
      by (simp add: records_inv_def service_records_def)
  next
    case (Some m)
    with S_Build builds_id [of env "sv_counter s" m counter'] records_inv_build [OF _ assms(2-4)] assms(3,4)
    show ?thesis by simp
  qed
next
  case (S_Submit ms m ms' now)
  then have "sv_counter s' = sv_counter s"
    "mset (service_records s') \<subseteq># mset (service_records s)"
    using submit_accepted [of ops now m "tr_pub (sv_trail s)"]
    by (auto simp: service_records_def service_submit_def)
  with assms(2) show ?thesis
    using distinct_map_submset [of "service_records s'" "service_records s" mp_id]
      set_mset_mono [of "mset (service_records s')" "mset (service_records s)"]
    by (auto simp: records_inv_def)
next
  case (S_Trail t)
  with assms(2) show ?thesis by (simp add: records_inv_def service_records_def)
qed

lemma service_run_inv:
  assumes "(service_step b cl ops marsh ^^ n) (service_new fresh config st) s" "n < 2 ^ 63"
  shows "records_inv s \<and> 0 \<le> sv_counter s \<and> sv_counter s \<le> int n"
  using assms
proof (induction n arbitrary: s)
  case 0
  then show ?case
    by (auto simp: service_new_def records_inv_def service_records_def trail_new_def publisher_new_def)
next
  case (Suc n)
  then obtain q where q: "(service_step b cl ops marsh ^^ n) (service_new fresh config st) q"
    "service_step b cl ops marsh q s" by auto
  with Suc have IH: "records_inv q" "0 \<le> sv_counter q" "sv_counter q \<le> int n" by auto
  with Suc.prems(2) records_inv_step [OF q(2)] show ?case by auto
qed

text \<open>The transport's part of a run is a run of the trail.\<close>

lemma service_step_trail:
  "service_step b cl ops marsh s s' \<Longrightarrow>
     sv_trail s' = sv_trail s \<or> trail_step b cl ops marsh (sv_trail s) (sv_trail s')"
  by (induction rule: service_step.induct) (auto simp: service_submit_def intro: T_Submit)

lemma service_run_trail:
  "(service_step b cl ops marsh ^^ n) s s' \<Longrightarrow> (trail_step b cl ops marsh)\<^sup>*\<^sup>* (sv_trail s) (sv_trail s')"
proof (induction n arbitrary: s')
  case (Suc n)
  then show ?case
    by (auto dest!: service_step_trail intro: rtranclp.rtrancl_into_rtrancl)
qed simp

lemma service_after_trail:
  "service_after n b cl ops marsh fresh config w s \<Longrightarrow>
     trail_reachable b cl ops marsh fresh config w (sv_trail s)"
  unfolding service_after_def trail_reachable_def
  by (auto dest!: service_run_trail simp: service_new_def)

subsection \<open>Properties\<close>

text \<open>C9: From the call of a payload builder to the broker. In every state a service reaches within
  \<open>2 ^ 63\<close> steps of any interleaving of builder calls, submissions, workers, client tasks and broker: no two
  records the publisher is done with have the same id; each record that counts as published was made by
  a builder, names its service, its time and one of the four commands, can be found by a search key if
  it is a trace, and its body is the line of JSON text of its envelope; and, counted with their
  multiplicities, the published bodies are among those that this run put on the client's queue with a
  publish the broker answered by a positive confirm.\<close>

theorem audit_records_identified:
  fixes s :: "('q, 'w, 'x) service"
  assumes "queue_ok ops contents capacity" "contents fresh = []"
    and "service_after n b cl ops (\<lambda>m. marshal_audit to_vec (message_payload_json m)) fresh config w s"
    and "n < 2 ^ 63"
  shows "let p = tr_pub (sv_trail s); confirmed = am_acks (sh_store (tr_amqp (sv_trail s))) in
    distinct (map (mp_id \<circ> fate_payload) (pb_fates p)) \<and>
    (\<forall>m body. Published m body \<in> set (pb_fates p) \<longrightarrow>
      (\<exists>env counter counter'. builds env counter (Some m) counter' \<and> well_formed_record env m) \<and>
      (\<exists>text. to_vec (message_payload_json m) = Ok text \<and> body = text @ [newline])) \<and>
    mset (published_bodies p) \<subseteq>#
      mset (sent_bodies (ac_queue cl) (trail_props (cf_message_ttl config)) confirmed)"
proof -
  let ?p = "tr_pub (sv_trail s)"
  note trail = service_after_trail [OF assms(3)]
  have "pub_reachable ops (\<lambda>m. marshal_audit to_vec (message_payload_json m)) fresh config ?p"
    using trail_reachable_pub [OF trail] by blast
  note inv = pub_reachable_inv [OF assms(1,2) this]
  obtain st where "(service_step b cl ops (\<lambda>m. marshal_audit to_vec (message_payload_json m)) ^^ n)
      (service_new fresh config st) s"
    using assms(3) unfolding service_after_def by blast
  note recs = service_run_inv [OF this assms(4), THEN conjunct1]
  have "mset (map fate_payload (pb_fates ?p)) \<subseteq># mset (service_records s)"
    using pub_invD(1) [OF inv] by (simp add: service_records_def subset_mset.add_increasing)
  with recs have ids: "distinct (map mp_id (map fate_payload (pb_fates ?p)))"
    using distinct_map_submset unfolding records_inv_def by blast
  have made: "(\<exists>env counter counter'. builds env counter (Some m) counter' \<and> well_formed_record env m) \<and>
      (\<exists>text. to_vec (message_payload_json m) = Ok text \<and> body = text @ [newline])"
    if "Published m body \<in> set (pb_fates ?p)" for m body
  proof -
    from published_accepted [OF inv that] recs have "\<exists>env counter counter'. builds env counter (Some m) counter'"
      by (auto simp: records_inv_def service_records_def)
    with builds_well_formed pub_invD(5) [OF inv that] show ?thesis
      by (fastforce simp: marshal_audit_Ok marshal_def)
  qed
  from ids made trail_confirmed(1) [OF trail] show ?thesis
    by (simp add: Let_def)
qed

definition demo_service :: audit_env where
  "demo_service = \<lparr>ae_identity = identity_init, ae_datetime_now = ''2026-01-01 00:00:00'', ae_rfc3339_now = []\<rparr>"

definition demo_record :: message_payload where
  "demo_record = the (fst (process_payload demo_service ''f'' ''d'' [] None 0))"

lemma demo_record_built: "process_payload demo_service ''f'' ''d'' [] None 0 = (Some demo_record, 1)"
  by (simp add: demo_record_def builder_defs next_audit_id_def wrap_i64_def)

text \<open>One record is built and submitted, and the trail delivers it.\<close>

definition demo_run :: "nat \<Rightarrow> bytes \<Rightarrow> (message_payload list, nat \<times> nat, unit) service" where
  "demo_run n body =
     (if n = 0 then service_new [] audit_config_default (sh_store demo_shared)
      else if n = 1 then \<lparr>sv_counter = 1, sv_built = [demo_record], sv_trail = demo_trail 0 demo_record body\<rparr>
      else \<lparr>sv_counter = 1, sv_built = [], sv_trail = demo_trail (n - 1) demo_record body\<rparr>)"

lemma demo_run_step:
  fixes marsh :: "message_payload \<Rightarrow> unit + bytes"
  assumes "marsh demo_record = Ok body" "n < 8"
  shows "service_step mortal_broker demo_client (list_queue 1) marsh (demo_run n body) (demo_run (Suc n) body)"
proof -
  let ?b = mortal_broker and ?cl = demo_client and ?ops = "list_queue 1"
  from assms(2) consider "n = 0" | "n = 1" | "2 \<le> n" "n - 1 < 7" by fastforce
  then show ?thesis
  proof cases
    case 1
    then show ?thesis
      using S_Build [OF builds.B_Process, of demo_service "''f''" "''d''" "[]" None "demo_run 0 body" "Some demo_record" 1
          ?b ?cl ?ops marsh] demo_record_built
      by (simp add: demo_run_def service_new_def demo_trail_new)
  next
    case 2
    have "sv_built (demo_run 1 body) = [] @ demo_record # []" by (simp add: demo_run_def)
    from S_Submit [OF this, of ?b ?cl ?ops marsh 0] 2 show ?thesis
      by (simp add: demo_run_def service_submit_def demo_trail_def demo_checked_def)
  next
    case 3
    let ?t = "\<lambda>n. demo_trail n demo_record body"
    have "trail_step ?b ?cl ?ops marsh (sv_trail (demo_run n body)) (?t n)"
      using demo_trail_step [where marsh = marsh, OF assms(1), of "n - 1"] 3 by (simp add: demo_run_def)
    moreover have "pb_accepted (tr_pub (?t n)) = pb_accepted (tr_pub (sv_trail (demo_run n body)))"
      using demo_trail_fates(2) [of n demo_record body] demo_trail_fates(2) [of "n - 1" demo_record body] 3
      by (simp add: demo_run_def)
    ultimately have "service_step ?b ?cl ?ops marsh (demo_run n body) ((demo_run n body)\<lparr>sv_trail := ?t n\<rparr>)"
      by (rule S_Trail)
    with 3 show ?thesis by (simp add: demo_run_def)
  qed
qed

theorem audit_records_identified_witness:
  "(\<exists>env. well_formed_record env demo_record) \<and>
   mset [''{}'' @ [newline]] \<subseteq>#
     mset (sent_bodies ''q'' (trail_props []) [Basic_Publish 1 ''q'' (''{}'' @ [newline]) (trail_props [])])"
proof -
  let ?to_vec = "\<lambda>j. Ok ''{}'' :: unit + bytes" and ?body = "''{}'' @ [newline]"
  let ?marsh = "\<lambda>m. marshal_audit ?to_vec (message_payload_json m)" and ?s = "demo_run 8 (''{}'' @ [newline])"
  have marsh: "?marsh demo_record = Ok ?body" by (simp add: marshal_audit_def and_then_Ok_iff)
  have "(service_step mortal_broker demo_client (list_queue 1) ?marsh ^^ 8) (demo_run 0 ?body) ?s"
    by (rule relpowp_chain [of 8 _ "\<lambda>n. demo_run n ?body"]) (rule demo_run_step [where marsh = ?marsh, OF marsh])
  then have "service_after 8 mortal_broker demo_client (list_queue 1) ?marsh [] audit_config_default (0, 0) ?s"
    using demo_shared_new unfolding service_after_def by (auto simp: demo_run_def)
  note result = audit_records_identified [OF list_queue_ok id_apply this, unfolded Let_def]
  have trail: "sv_trail ?s = demo_trail 7 demo_record ?body" by (simp add: demo_run_def)
  have fates: "pb_fates (tr_pub (demo_trail 7 demo_record ?body)) = [Published demo_record ?body]"
    by (rule demo_trail_fates(1))
  have "tr_amqp (demo_trail 7 demo_record ?body) = demo_sent 2 ?body" by (simp add: demo_trail_def)
  with result trail fates demo_sent_tasks(4) [of ?body] show ?thesis
    by (auto simp: published_bodies_def demo_client_def audit_config_default_def)
qed

end
