(* ===== verification/Spec2Isabelle.thy ===== *)
theory Spec2Isabelle
  imports PcJsonCompact PcHealth PcConfig PcAuth PcHttp PcAuditPublisher PcAmqp PcSnapbi PcGrpc
    PcRedis PcSingleflight PcLog PcTimer PcDb PcSentry PcTrace PcS3 PcAuditAmqp PcLint PcUmbrella
    PcAuthStack PcAuthRace PcAmqpShared PcBreakerCalls PcAuditRecords
begin

text \<open>
  A verification library for the Rust workspace \<open>paycloudhelper\<close>: the crates a payment back end uses
  to log, to limit and break calls, to talk to Redis, AMQP, gRPC services, an object store and a
  database, to sign and check requests, to write an audit trail and to report on itself.  Paths below
  are under \<open>src/crates\<close> unless they begin with \<open>xtask\<close>.

  \<^bold>\<open>How the parts interact.\<close>  \<open>paycloudhelper::init\<close> runs the bootstrap of pc-config, which fills the identity of
  pc-core, and installs the logger of pc-log.  The macros of pc-log ask a gate, the sampler or the
  window limiter, hand the line to \<open>tracing\<close> and, for the levels switched on, to the hook that
  pc-sentry installs.  The middlewares of pc-auth read and write Redis through pc-redis inside a
  router of pc-http.  The workers of pc-audit publish through the client of pc-amqp behind a breaker
  of their own.  pc-grpc connects to what discovery finds and feeds a balancer; pc-health asks Redis,
  AMQP and Sentry and reports the worst; pc-s3minio reaches one service over gRPC or HTTP.

  \<^bold>\<open>Theories and sources.\<close>
  \<^item> \<open>PcPrelude\<close>, \<open>PcText\<close>: results, clocks, fixed-width integers, decimal text; the \<open>str\<close> operations on
    UTF-8 bytes with the Unicode white space spelled out, lines, file names.
  \<^item> \<open>PcCore\<close> (\<open>pc-core/src/lib.rs\<close>, \<open>identity.rs\<close>), \<open>PcJsonCompact\<close> (\<open>json.rs\<close>), \<open>PcJson\<close> (\<open>pc-json\<close>),
    \<open>PcConfig\<close> (\<open>pc-config\<close>), \<open>PcUmbrella\<close> (\<open>paycloudhelper\<close>).
  \<^item> \<open>PcBreaker\<close>, \<open>PcSingleflight\<close> (\<open>pc-resilience\<close>; its keyed limiter, a thin wrapper, is in \<open>PcLog\<close>).
  \<^item> \<open>PcLogGate\<close>, the contract of a per-key gate; \<open>PcSampler\<close> (\<open>pc-log/src/sampler.rs\<close>), \<open>PcWindow\<close>
    (\<open>ratelimit.rs\<close>), \<open>PcLog\<close> (\<open>lib.rs\<close>, \<open>context.rs\<close>, \<open>formatter.rs\<close>, \<open>limiter.rs\<close>), \<open>PcTimer\<close> (\<open>timer.rs\<close>).
  \<^item> \<open>PcSentry\<close> (\<open>pc-sentry\<close>), \<open>PcTrace\<close> (\<open>pc-trace\<close>, all four files).
  \<^item> \<open>PcRedis\<close> (\<open>pc-redis\<close>), \<open>PcHttp\<close> (\<open>pc-validate\<close>, \<open>pc-http\<close>), \<open>PcAuth\<close> (\<open>pc-auth\<close>), \<open>PcSnapbi\<close>
    (\<open>pc-snapbi\<close>), \<open>PcHealth\<close> (\<open>pc-health\<close>).
  \<^item> \<open>PcAudit\<close>, \<open>PcAuditPublisher\<close> (\<open>pc-audit\<close>), \<open>PcAmqp\<close> (\<open>pc-amqp\<close>), and \<open>PcAuditAmqp\<close>, the two together
    over the trait \<open>Publisher\<close>.
  \<^item> \<open>PcAuditRecords\<close>: a service's use of pc-audit, from the builder of a payload to the broker.
  \<^item> \<open>PcAuthStack\<close>: the three middlewares of pc-auth around the routes of a service.
  \<^item> \<open>PcBreakerCalls\<close>: calls that share one circuit breaker, cut at their await.
  \<^item> \<open>PcAmqpPush\<close>: a publisher of the AMQP client cut at its awaits, and \<open>push\<close>, which a deadline may
    drop at any of them.
  \<^item> \<open>PcAuthRace\<close> and \<open>PcAmqpShared\<close>: overlapping requests in \<open>verify_idempotency\<close>, cut at its awaits as
    well, and tasks that share one AMQP client.
  \<^item> \<open>PcDiscovery\<close>, \<open>PcGrpc\<close> (\<open>pc-grpc/src/discovery.rs\<close>, \<open>lib.rs\<close>), \<open>PcS3\<close> (\<open>pc-s3minio\<close>), \<open>PcDb\<close> (\<open>pc-db\<close>).
  \<^item> \<open>PcLint\<close> (\<open>xtask/src/lint_mirrors.rs\<close>, \<open>main.rs\<close>).

  \<^bold>\<open>State.\<close>  A struct is a record with the source's fields, an enum a datatype, \<open>Result\<close> a sum; a
  process-global cell or atomic is a field of its component's state record (\<open>log_state\<close>, \<open>identity\<close>,
  \<open>trace_state\<close>, \<open>sentry_state\<close>).  Sequential code passes its state on.  Code that is cut at an await or
  shared by threads is a step relation: \<open>sf_step\<close> for the callers of a singleflight (\<open>sf_await\<close> when
  nobody cancels them), \<open>pub_step\<close> for the
  audit publisher, \<open>worker_step\<close> for its workers alone, \<open>trail_step\<close> for the publisher whose workers'
  publishes are tasks of the shared AMQP client, \<open>service_step\<close> for a service that builds and submits
  records on top of it, \<open>call_step\<close> for the calls of a breaker, \<open>idem_step\<close> for overlapping idempotent requests, \<open>shared_step\<close> for the publishers of one AMQP
  client.  For the last two a task which nothing interrupts is shown to be the sequential
  function.  What happened is kept in history fields that no step reads: \<open>am_log\<close>, the commands the client issued,
  and \<open>am_acks\<close>, those the broker answered with a positive confirm; the fates of audit messages; the
  attempts and sleeps of the retry loops (\<open>retry_event\<close>).  Services and libraries outside the repository (Redis, the broker, tonic, DNS, sqlx,
  OpenTelemetry, the Sentry SDK, tower, serde, the cryptographic primitives, clocks and random
  draws) are arguments of the definitions, as is the completion of unset options by \<open>sentry::init\<close>; what is documented of them appears as a named
  hypothesis where a property needs it, with a concrete instance beside it.

  \<^bold>\<open>What the lemmas show.\<close>  Each component has an invariant that every step keeps, where it keeps state
  (\<open>breaker\<close>, \<open>sf_inv\<close>, \<open>pub_inv\<close>, \<open>waits_inv\<close>, \<open>records_inv\<close>, \<open>idem_inv\<close>, \<open>shared_inv\<close>, \<open>acks_inv\<close>, the gates, the refresher's mirror of the balancer), and
  theorems on its functional behaviour with its error branches.  The contracts shared by several
  components are locales, each interpreted on the model's own definitions: \<open>trip_breaker\<close> by the
  breaker of pc-resilience and the audit publisher's; \<open>keyed_gate\<close> and \<open>emit_gate\<close> by sampler and
  window limiter; \<open>mac_scheme\<close> by the two symmetric signatures; \<open>health_client\<close> and \<open>probe_client\<close> by the
  two object-store clients, of which only the gRPC one keeps the second contract.  Composition is
  shown for discovery, factory and balancer (below), for log macros, forwarding and Sentry
  (\<open>PcSentry\<close>), for the audit trail over AMQP (\<open>PcAuditAmqp\<close>,
  \<open>PcAuditRecords\<close>), for the middlewares over Redis (\<open>PcAuth\<close>)
  and one behind the other (\<open>PcAuthStack\<close>, in the order of \<open>README.md\<close>), and for start-up (\<open>PcUmbrella\<close>).

  \<^bold>\<open>Bounds and fuel.\<close>  Integers keep their widths: saturation, wrap-around and \<open>try_from\<close> are written
  out, and bit masks are words.  Durations are nanosecond counts with the bound of \<open>Duration\<close>.  The polls
  of \<open>wait_for_ready\<close> and the deliveries \<open>await_reply\<close> looks at before its deadline are the fuel of these
  two functions, as many as fit before the timeout, so running out of it is the timeout.  Every other
  loop is a total function; a publisher's workers take at most four steps a queued message and three
  a worker, the publishers of the shared client 42 for each of them, the callers of a singleflight two each, and
  the retry loops are bounded by their counters.

  \<^bold>\<open>Not modelled.\<close>  \<open>flush\<close> of pc-sentry waits for the SDK; derived \<open>Debug\<close> implementations, re-exports and most \<open>tracing\<close>
  lines a function prints about itself have no effect on a result (the \<open>Debug\<close> of the AMQP client, which hides
  the credentials, and the factory's warning about inert settings are modelled).  The decoders and
  encoders of serde and the algorithms behind signatures are not under \<open>src\<close>.
\<close>

section \<open>Properties that span components\<close>

text \<open>C1: A discovered channel never becomes empty.  Whichever way the factory sets the channel up
  (eagerly from a first lookup, or lazily from a seed endpoint), and whatever the refresher then
  meets, lookups that fail, time out, come back empty or shrink, addresses whose endpoint cannot be
  built, a full or closed change queue: after every prefix of the changes delivered from the end of the set-up on,
  the balancer holds at least one endpoint, and at the end it holds exactly the endpoints the
  refresher believes in.\<close>

theorem discovered_channel_never_empty:
  assumes "grpc_connect (w :: 'x grpc_world) reserve fresh f env t = Ok (Balance_Channel r immediate)
       \<or> grpc_connect_lazy w reserve fresh f env t = Ok (Balance_Channel r immediate)"
    and "refresher_run reserve build immediate r turns = (ds, ended, r')"
  shows "balanced {} (ch_sent (rf_tx r')) = refresher_keys r' \<and>
    (\<forall>n. length (ch_sent (rf_tx r)) \<le> n \<longrightarrow> balanced {} (take n (ch_sent (rf_tx r'))) \<noteq> {})"
proof -
  have "mirrors {} (length (ch_sent (rf_tx r))) r"
    using assms(1)
  proof
    assume "grpc_connect w reserve fresh f env t = Ok (Balance_Channel r immediate)"
    then obtain refresh where
      "connect_discovered_with w (system_resolver w) reserve fresh f env t refresh = Ok (Balance_Channel r immediate)"
      by (auto simp: grpc_connect_def connect_discovered_def and_then_Ok_iff split: option.splits)
    from connect_discovered_mirrors [OF this] system_resolver_set show ?thesis by blast
  next
    assume "grpc_connect_lazy w reserve fresh f env t = Ok (Balance_Channel r immediate)"
    then obtain refresh where
      "connect_discovered_lazy_with w reserve fresh f env t refresh = Ok (Balance_Channel r immediate)"
      by (auto simp: grpc_connect_lazy_def connect_discovered_lazy_def and_then_Ok_iff split: option.splits)
    from connect_lazy_mirrors [OF this] show ?thesis by blast
  qed
  from refresher_loop_mirrors [OF this assms(2) [unfolded refresher_run_def]]
  show ?thesis using mirrorsD(1,2) never_empty_from_prefix by blast
qed

text \<open>A lazy channel over one target with the default pool, for the application below.\<close>

definition demo_world :: "unit grpc_world" where
  "demo_world = \<lparr>gw_check_uri = (\<lambda>u. None), gw_check_tls = (\<lambda>t. None), gw_read_file = (\<lambda>p. Ok []),
     gw_connect = (\<lambda>e k. None), gw_lookup_host = (\<lambda>target k. Ok [V4 1 443])\<rparr>"

definition demo_factory :: "unit grpc_factory" where
  "demo_factory = \<lparr>gf_config = grpc_parse_env (\<lambda>s. None) () Map.empty, gf_dns_refresh = from_secs 30\<rparr>"

definition demo_channel :: "unit grpc_error + unit grpc_channel" where
  "demo_channel = grpc_connect_lazy demo_world (\<lambda>q k. Ok q) () demo_factory
     [''X_GRPC'' \<mapsto> dial_target ''h'' 1] ''X_GRPC''"

lemma demo_endpoint: "\<exists>spec. build_endpoint demo_world demo_factory u d = Ok spec"
  by (auto simp: build_endpoint_def tls_for_def demo_world_def Let_def
      split: tls_mode.splits option.splits)

lemma demo_channel_set_up: "\<exists>r. demo_channel = Ok (Balance_Channel r True)"
proof -
  obtain spec where "build_endpoint demo_world demo_factory (dial_target ''h'' 1) None = Ok spec"
    using demo_endpoint by blast
  then show ?thesis
    by (simp add: demo_channel_def grpc_connect_lazy_def discovery_refresh_def demo_factory_def
        from_secs_def connect_discovered_lazy_def connect_discovered_lazy_with_def and_then_Ok_iff discovery_target_def
        resolve_target_def parse_dial_target u16_max_def pool_size_for_def default_max_pool_def
        discovery_buffer_def send_batch_def)
qed

definition demo_turns :: "(unit, unit) turn list" where
  "demo_turns = [Turn id (Found [V4 2 443]), Turn id (Found []), Turn id Lookup_Timed_Out, Tx_Closed]"

theorem discovered_channel_never_empty_witness:
  "\<exists>r. demo_channel = Ok (Balance_Channel r True) \<and>
     (case refresher_run (\<lambda>q k. Ok q) (\<lambda>a. Err ()) True r demo_turns of
        (ds, ended, r') \<Rightarrow> balanced {} (ch_sent (rf_tx r')) = refresher_keys r')"
proof -
  obtain r where r: "demo_channel = Ok (Balance_Channel r True)"
    using demo_channel_set_up by blast
  from discovered_channel_never_empty [of demo_world "\<lambda>q k. Ok q" "()" demo_factory
      "[''X_GRPC'' \<mapsto> dial_target ''h'' 1]" "''X_GRPC''" r True "\<lambda>a. Err ()" demo_turns]
    r show ?thesis
    by (auto simp: demo_channel_def split: prod.splits)
qed

end
